(* ===== verification/Prelude.thy ===== *)
theory Prelude
  imports Main "HOL-Library.Word" "HOL-Library.Monad_Syntax"
begin

text \<open>
  Shared vocabulary of the development: bytes, fixed-width unsigned arithmetic on
  natural numbers, byte buffers with bounds-checked access, little-endian integers,
  and the lemmas about them that the component theories use.

  A buffer access outside the buffer is the value \<open>None\<close> of an \<open>option\<close>; every
  definition of the development that touches memory returns such an option, so that
  "no access leaves the buffer" is the statement that the result is \<open>Some\<close>.
\<close>

named_theorems mem_simps \<open>bounds-checked buffer access\<close>
named_theorems width_simps \<open>fixed-width arithmetic\<close>

type_synonym byte = "8 word"

section \<open>Fixed-width unsigned arithmetic\<close>

text \<open>
  \<open>uint16_t\<close>, \<open>uint32_t\<close> and \<open>size_t\<close> values are natural numbers below the width; a
  conversion or an arithmetic result is reduced explicitly.
\<close>

definition u8 :: "nat \<Rightarrow> nat" where
  "u8 n = n mod 256"

definition u16 :: "nat \<Rightarrow> nat" where
  "u16 n = n mod 65536"

definition u32 :: "nat \<Rightarrow> nat" where
  "u32 n = n mod 4294967296"

definition sub32 :: "nat \<Rightarrow> nat \<Rightarrow> nat" where
  "sub32 a b = (a + 4294967296 - b) mod 4294967296"

lemma u8_id [width_simps]: "n < 256 \<Longrightarrow> u8 n = n"
  by (simp add: u8_def)

lemma u16_id [width_simps]: "n < 65536 \<Longrightarrow> u16 n = n"
  by (simp add: u16_def)

lemma u32_id [width_simps]: "n < 4294967296 \<Longrightarrow> u32 n = n"
  by (simp add: u32_def)

lemma sub32_id [width_simps]: "b \<le> a \<Longrightarrow> a < 4294967296 \<Longrightarrow> sub32 a b = a - b"
proof -
  assume "b \<le> a" and a: "a < 4294967296"
  then have eq: "a + 4294967296 - b = (a - b) + 4294967296" by simp
  from a have "(a - b) mod 4294967296 = a - b" by simp
  then show ?thesis by (simp only: sub32_def eq mod_add_self2)
qed

lemma u8_less [simp]: "u8 n < 256"
  by (simp add: u8_def)

lemma u16_less [simp]: "u16 n < 65536"
  by (simp add: u16_def)

lemma u32_less [simp]: "u32 n < 4294967296"
  by (simp add: u32_def)

lemma unat_byte_less [simp]: "unat (b :: byte) < 256"
  using unsigned_less [of b] by simp

lemma unat_byte_of_nat [simp]: "unat (of_nat n :: byte) = n mod 256"
  by (simp add: unat_of_nat)

section \<open>Buffers\<close>

definition chunk :: "'a list \<Rightarrow> nat \<Rightarrow> nat \<Rightarrow> 'a list" where
  "chunk xs off n = take n (drop off xs)"

definition patch :: "'a list \<Rightarrow> nat \<Rightarrow> 'a list \<Rightarrow> 'a list" where
  "patch xs off ys = take off xs @ ys @ drop (off + length ys) xs"

definition mem_read :: "byte list \<Rightarrow> nat \<Rightarrow> nat \<Rightarrow> byte list option" where
  "mem_read buf off n = (if off + n \<le> length buf then Some (chunk buf off n) else None)"

definition mem_write :: "byte list \<Rightarrow> nat \<Rightarrow> byte list \<Rightarrow> byte list option" where
  "mem_write buf off bs =
     (if off + length bs \<le> length buf then Some (patch buf off bs) else None)"

text \<open>\<open>holds buf p bs\<close>: the bytes \<open>bs\<close> are found at offset \<open>p\<close>.\<close>

definition holds :: "'a list \<Rightarrow> nat \<Rightarrow> 'a list \<Rightarrow> bool" where
  "holds buf p bs \<longleftrightarrow> p + length bs \<le> length buf \<and> chunk buf p (length bs) = bs"

lemma length_chunk [simp]: "off + n \<le> length xs \<Longrightarrow> length (chunk xs off n) = n"
  by (simp add: chunk_def)

lemma chunk_0 [simp]: "chunk xs off 0 = []"
  by (simp add: chunk_def)

lemma chunk_whole [simp]: "chunk xs 0 (length xs) = xs"
  by (simp add: chunk_def)

lemma chunk_add: "chunk xs p (a + b) = chunk xs p a @ chunk xs (p + a) b"
  by (simp add: chunk_def take_add add.commute)

lemma chunk_prefix [simp]: "chunk (xs @ ys) 0 (length xs) = xs"
  by (simp add: chunk_def)

lemma chunk_append_right [simp]: "chunk (xs @ ys) (length xs + p) n = chunk ys p n"
  by (simp add: chunk_def)

lemma chunk_append_at: "chunk (xs @ ys @ zs) (length xs) (length ys) = ys"
  by (simp add: chunk_def)

lemma chunk_chunk: "a + b \<le> n \<Longrightarrow> chunk (chunk xs p n) a b = chunk xs (p + a) b"
  by (simp add: chunk_def drop_take min_def add.commute)

lemma length_patch [simp]:
  "off + length ys \<le> length xs \<Longrightarrow> length (patch xs off ys) = length xs"
  by (simp add: patch_def)

lemma chunk_patch_same [simp]:
  "off + length ys \<le> length xs \<Longrightarrow> chunk (patch xs off ys) off (length ys) = ys"
  by (simp add: chunk_def patch_def)

lemma chunk_patch_before:
  "p + n \<le> off \<Longrightarrow> off + length ys \<le> length xs \<Longrightarrow> chunk (patch xs off ys) p n = chunk xs p n"
  by (simp add: chunk_def patch_def take_drop min_def)

lemma chunk_patch_after:
  assumes "off + length ys \<le> p" and "off + length ys \<le> length xs"
  shows "chunk (patch xs off ys) p n = chunk xs p n"
proof -
  obtain k where p: "p = off + length ys + k"
    using assms(1) le_Suc_ex by blast
  show ?thesis
    using assms(2) by (simp add: chunk_def patch_def p min_def add.commute add.left_commute)
qed

lemma patch_patch_next:
  "off + length ys + length zs \<le> length xs \<Longrightarrow>
   patch (patch xs off ys) (off + length ys) zs = patch xs off (ys @ zs)"
  by (simp add: patch_def add.assoc add.commute add.left_commute)

lemma holds_Nil [simp]: "holds buf p [] \<longleftrightarrow> p \<le> length buf"
  by (simp add: holds_def)

lemma holds_append:
  "holds buf p (xs @ ys) \<longleftrightarrow> holds buf p xs \<and> holds buf (p + length xs) ys"
  by (auto simp: holds_def chunk_add)

lemma holds_patch_same: "p + length bs \<le> length buf \<Longrightarrow> holds (patch buf p bs) p bs"
  by (simp add: holds_def)

lemma holds_patch_before:
  "holds buf p bs \<Longrightarrow> p + length bs \<le> off \<Longrightarrow> off + length ys \<le> length buf \<Longrightarrow>
   holds (patch buf off ys) p bs"
  by (simp add: holds_def chunk_patch_before)

lemma holds_patch_after:
  "holds buf p bs \<Longrightarrow> off + length ys \<le> p \<Longrightarrow> off + length ys \<le> length buf \<Longrightarrow>
   holds (patch buf off ys) p bs"
  by (simp add: holds_def chunk_patch_after)

lemma holds_bound: "holds buf p bs \<Longrightarrow> p + length bs \<le> length buf"
  by (simp add: holds_def)

lemma mem_read_holds [mem_simps]:
  "holds buf p bs \<Longrightarrow> n = length bs \<Longrightarrow> mem_read buf p n = Some bs"
  by (simp add: holds_def mem_read_def)

lemma mem_read_whole [simp]: "mem_read bs 0 (length bs) = Some bs"
  by (simp add: mem_read_def)

lemma mem_read_SomeD: "mem_read buf off n = Some bs \<Longrightarrow> length bs = n \<and> off + n \<le> length buf"
  by (auto simp: mem_read_def split: if_splits)

lemma mem_write_Some [mem_simps]:
  "off + length bs \<le> length buf \<Longrightarrow> mem_write buf off bs = Some (patch buf off bs)"
  by (simp add: mem_write_def)

lemma set_drop_snoc: "xs = drop k ys @ [d] \<Longrightarrow> set xs \<subseteq> insert d (set ys)"
  using set_drop_subset [of k ys] by auto

section \<open>Little-endian integers\<close>

definition le16_bytes :: "nat \<Rightarrow> byte list" where
  "le16_bytes n = [of_nat n, of_nat (n div 256)]"

fun le16 :: "byte list \<Rightarrow> nat" where
  "le16 (a # b # _) = unat a + 256 * unat b"
| "le16 _ = 0"

definition le32_bytes :: "nat \<Rightarrow> byte list" where
  "le32_bytes n = [of_nat n, of_nat (n div 256), of_nat (n div 65536), of_nat (n div 16777216)]"

fun le32 :: "byte list \<Rightarrow> nat" where
  "le32 (a # b # c # d # _) = unat a + 256 * unat b + 65536 * unat c + 16777216 * unat d"
| "le32 _ = 0"

definition u16_at :: "byte list \<Rightarrow> nat \<Rightarrow> nat option" where
  "u16_at buf off = map_option le16 (mem_read buf off 2)"

definition u32_at :: "byte list \<Rightarrow> nat \<Rightarrow> nat option" where
  "u32_at buf off = map_option le32 (mem_read buf off 4)"

lemma length_le16_bytes [simp]: "length (le16_bytes n) = 2"
  by (simp add: le16_bytes_def)

lemma length_le32_bytes [simp]: "length (le32_bytes n) = 4"
  by (simp add: le32_bytes_def)

lemma le16_le16_bytes [simp]: "n < 65536 \<Longrightarrow> le16 (le16_bytes n) = n"
  by (simp add: le16_bytes_def)

lemma split_256: "(n :: nat) mod 256 + 256 * (n div 256) = n"
  by simp

lemma le32_le32_bytes [simp]:
  assumes "n < 4294967296"
  shows "le32 (le32_bytes n) = n"
proof -
  have 1: "n div 65536 = n div 256 div 256" and 2: "n div 16777216 = n div 256 div 256 div 256"
    by (simp_all add: div_mult2_eq [symmetric])
  have "n div 256 div 256 div 256 < 256"
    using assms by (simp add: div_mult2_eq [symmetric] less_mult_imp_div_less)
  then have 3: "n div 256 div 256 div 256 mod 256 = n div 256 div 256 div 256"
    by (rule mod_less)
  have "le32 (le32_bytes n) = n mod 256 + 256 * (n div 256 mod 256)
      + 65536 * (n div 256 div 256 mod 256) + 16777216 * (n div 256 div 256 div 256)"
    by (simp add: le32_bytes_def 1 2 3)
  then show ?thesis
    using split_256 [of n] split_256 [of "n div 256"] split_256 [of "n div 256 div 256"]
    by linarith
qed

lemma le16_less: "le16 bs < 65536"
proof (cases bs rule: le16.cases)
  case (1 a b xs)
  then show ?thesis
    using unat_byte_less [of a] unat_byte_less [of b] by (simp del: unat_byte_less)
qed simp_all

lemma le32_less: "le32 bs < 4294967296"
proof (cases bs rule: le32.cases)
  case (1 a b c d xs)
  then show ?thesis
    using unat_byte_less [of a] unat_byte_less [of b] unat_byte_less [of c] unat_byte_less [of d]
    by (simp del: unat_byte_less)
qed simp_all

lemma u16_at_holds [mem_simps]:
  "holds buf p (le16_bytes n) \<Longrightarrow> n < 65536 \<Longrightarrow> u16_at buf p = Some n"
  by (simp add: u16_at_def mem_read_holds [where bs = "le16_bytes n"])

lemma u32_at_holds [mem_simps]:
  "holds buf p (le32_bytes n) \<Longrightarrow> n < 4294967296 \<Longrightarrow> u32_at buf p = Some n"
  by (simp add: u32_at_def mem_read_holds [where bs = "le32_bytes n"])

lemma u16_at_NoneI [mem_simps]: "length buf < off + 2 \<Longrightarrow> u16_at buf off = None"
  by (simp add: u16_at_def mem_read_def)

lemma u32_at_NoneI [mem_simps]: "length buf < off + 4 \<Longrightarrow> u32_at buf off = None"
  by (simp add: u32_at_def mem_read_def)

lemma u16_at_less: "u16_at buf off = Some n \<Longrightarrow> n < 65536"
  by (auto simp: u16_at_def le16_less)

lemma u32_at_less: "u32_at buf off = Some n \<Longrightarrow> n < 4294967296"
  by (auto simp: u32_at_def le32_less)

lemma le16_zeros [simp]: "le16 (replicate 2 0) = 0"
  by (simp add: numeral_2_eq_2)

lemma le16_bytes_0: "le16_bytes 0 = [0, 0]"
  by (simp add: le16_bytes_def)

end
