(* ===== verification/Rb.thy ===== *)
theory Rb
  imports Prelude
begin

text \<open>
  The trace ring buffer of \<open>qm35_rb.c\<close> and \<open>qm35_rb.h\<close>.

  \<open>struct rb\<close> is the record \<open>rb\<close>; the mutex is not a field, every exported function
  holds it from its first to its last access, so each operation is one step.  The
  fields are \<open>uint32_t\<close>: every sum stored in them is reduced by \<open>u32\<close>.  The size of an
  entry (\<open>rb_entry_size_t\<close>) is a \<open>uint16_t\<close> in front of the payload, little-endian as
  on the arm64 hosts of the driver.

  An access outside \<open>rb->buf\<close> (or through the unchecked result of a failed \<open>kmalloc\<close>)
  is \<open>None\<close>.  The loop of \<open>rb_push\<close> is not known to end, so \<open>rb_push\<close> returns an
  option of that option: \<open>None\<close> when the loop does not end, \<open>Some None\<close> for an access
  outside the buffer.
\<close>

section \<open>Data and operations\<close>

record rb =
  rb_buf :: "byte list"
  rb_size :: nat
  rb_head :: nat
  rb_tail :: nat
  rb_rdtail :: nat

type_synonym 'a run = "'a option option"

abbreviation Returns :: "'a \<Rightarrow> 'a run" where
  "Returns x \<equiv> Some (Some x)"

definition rb_can_pop_from :: "rb \<Rightarrow> nat \<Rightarrow> bool" where
  "rb_can_pop_from rb t \<longleftrightarrow> t \<noteq> rb_head rb"

definition rb_can_pop :: "rb \<Rightarrow> bool" where
  "rb_can_pop rb \<longleftrightarrow> rb_can_pop_from rb (rb_rdtail rb)"

text \<open>\<open>__rb_next_size\<close>: the size and the updated \<open>*tail\<close>.\<close>

definition rb_next_size_from :: "rb \<Rightarrow> nat \<Rightarrow> (nat \<times> nat) option" where
  "rb_next_size_from rb t =
     (if \<not> rb_can_pop_from rb t then Some (0, t)
      else do {
        n \<leftarrow> u16_at (rb_buf rb) t;
        if n = 0 then
          (if t = 0 then Some (0, t)
           else do { n' \<leftarrow> u16_at (rb_buf rb) 0; Some (n', 0) })
        else Some (n, t) })"

definition rb_next_size :: "rb \<Rightarrow> (nat \<times> rb) option" where
  "rb_next_size rb = do {
     (n, t) \<leftarrow> rb_next_size_from rb (rb_rdtail rb);
     Some (n, rb\<lparr>rb_rdtail := t\<rparr>) }"

text \<open>
  \<open>__rb_pop\<close>: the popped entry (\<open>None\<close> is the null pointer), \<open>*len\<close> and the updated
  \<open>*tail\<close>.  \<open>alloc\<close> says whether \<open>kmalloc\<close> returns memory; its result is not checked.
\<close>

definition rb_pop_from :: "bool \<Rightarrow> rb \<Rightarrow> nat \<Rightarrow> (byte list option \<times> nat \<times> nat) option" where
  "rb_pop_from alloc rb t = do {
     (len, t) \<leftarrow> rb_next_size_from rb t;
     if len = 0 then Some (None, 0, t)
     else let t = u32 (t + 2) in
       if \<not> alloc then None
       else do {
         trace \<leftarrow> mem_read (rb_buf rb) t len;
         Some (Some trace, len, u32 (t + len)) } }"

definition rb_pop :: "bool \<Rightarrow> rb \<Rightarrow> ((byte list option \<times> nat) \<times> rb) option" where
  "rb_pop alloc rb = do {
     (entry, len, t) \<leftarrow> rb_pop_from alloc rb (rb_rdtail rb);
     Some ((entry, len), rb\<lparr>rb_rdtail := t\<rparr>) }"

definition rb_skip :: "rb \<Rightarrow> (bool \<times> rb) option" where
  "rb_skip rb = do {
     n \<leftarrow> u16_at (rb_buf rb) (rb_tail rb);
     if n = 0 then
       (if rb_tail rb = 0 then Some (False, rb)
        else do {
          n' \<leftarrow> u16_at (rb_buf rb) 0;
          Some (True, rb\<lparr>rb_tail := u32 (0 + (2 + n'))\<rparr>) })
     else Some (True, rb\<lparr>rb_tail := u32 (rb_tail rb + (2 + n))\<rparr>) }"

text \<open>The first half of \<open>rb_push\<close>: write the end marker and restart at offset 0.\<close>

definition rb_wrap :: "nat \<Rightarrow> rb \<Rightarrow> rb option" where
  "rb_wrap entry_size rb =
     (if sub32 (rb_size rb) (rb_head rb) \<le> entry_size + 2 then do {
        b \<leftarrow> mem_write (rb_buf rb) (rb_head rb) (le16_bytes 0);
        Some (rb\<lparr>rb_buf := b,
                 rb_tail := (if rb_tail rb \<ge> rb_head rb then 0 else rb_tail rb),
                 rb_rdtail := (if rb_rdtail rb \<ge> rb_head rb then 0 else rb_rdtail rb),
                 rb_head := 0\<rparr>) }
      else Some rb)"

text \<open>The \<open>while\<close> loop of \<open>rb_push\<close>.\<close>

partial_function (option) rb_make_room :: "nat \<Rightarrow> rb \<Rightarrow> rb run" where
  "rb_make_room entry_size rb =
     (if rb_head rb \<le> rb_tail rb \<and> u32 (rb_head rb + entry_size) \<ge> rb_tail rb then
        (case rb_skip rb of
           None \<Rightarrow> Some None
         | Some (skipped, rb') \<Rightarrow>
             (let rb'' = (if rb_tail rb = rb_rdtail rb
                          then rb'\<lparr>rb_rdtail := rb_tail rb'\<rparr> else rb')
              in if skipped then rb_make_room entry_size rb'' else Some (Some rb'')))
      else Some (Some rb))"

text \<open>The last part of \<open>rb_push\<close>: the size, then the payload, at the head.\<close>

definition rb_write_entry :: "byte list \<Rightarrow> nat \<Rightarrow> rb \<Rightarrow> rb option" where
  "rb_write_entry data len rb = do {
     b \<leftarrow> mem_write (rb_buf rb) (rb_head rb) (le16_bytes len);
     let h = u32 (rb_head rb + 2);
     d \<leftarrow> mem_read data 0 len;
     b \<leftarrow> mem_write b h d;
     Some (rb\<lparr>rb_buf := b, rb_head := u32 (h + len)\<rparr>) }"

definition rb_push :: "rb \<Rightarrow> byte list \<Rightarrow> nat \<Rightarrow> (nat \<times> rb) run" where
  "rb_push rb data len =
     (if len = 0 then Returns (1, rb)
      else let entry_size = u32 (2 + len) in
        (case rb_wrap entry_size rb of
           None \<Rightarrow> Some None
         | Some rb \<Rightarrow>
             (case rb_make_room entry_size rb of
                None \<Rightarrow> None
              | Some None \<Rightarrow> Some None
              | Some (Some rb) \<Rightarrow>
                  Some (map_option (\<lambda>rb. (0, rb)) (rb_write_entry data len rb)))))"

definition rb_reset :: "rb \<Rightarrow> rb" where
  "rb_reset rb = rb\<lparr>rb_rdtail := rb_tail rb\<rparr>"

text \<open>
  \<open>rb_init\<close>: \<open>mem\<close> is what \<open>kmalloc\<close> returns, \<open>None\<close> for the null pointer, otherwise a
  block with whatever bytes it holds (\<open>kmalloc\<close> does not clear it).
\<close>

definition rb_init :: "byte list option \<Rightarrow> nat \<Rightarrow> int + rb" where
  "rb_init mem sz =
     (case mem of
        None \<Rightarrow> Inl (- 12)
      | Some b \<Rightarrow> Inr \<lparr>rb_buf = b, rb_size = sz, rb_head = 0, rb_tail = 0, rb_rdtail = 0\<rparr>)"

definition rb_deinit :: "rb \<Rightarrow> rb" where
  "rb_deinit rb = rb\<lparr>rb_buf := []\<rparr>"

definition TRACE_RB_SIZE :: nat where
  "TRACE_RB_SIZE = 1048575"

end
