(* ===== verification/Rb_Refine.thy ===== *)
theory Rb_Refine
  imports Rb
begin

text \<open>
  Correctness of the trace ring buffer: for a buffer that is large against its entries
  (the driver's \<open>TRACE_RB_SIZE\<close> is) no operation faults or diverges, and the buffer
  refines a list of entries: the retained log (\<open>rb_log\<close>) and the part of it the reader
  has not consumed (\<open>rb_unread\<close>).  \<open>rb_inv\<close> is the well-formedness invariant.
\<close>

section \<open>Layout of the entries in the buffer\<close>

definition enc :: "byte list \<Rightarrow> byte list" where
  "enc d = le16_bytes (length d) @ d"

definition lay :: "byte list list \<Rightarrow> byte list" where
  "lay ds = concat (map enc ds)"

definition ok_entries :: "nat \<Rightarrow> byte list list \<Rightarrow> bool" where
  "ok_entries M ds \<longleftrightarrow> (\<forall>d \<in> set ds. d \<noteq> [] \<and> length d \<le> M)"

text \<open>\<open>chain M buf p ds q\<close>: the entries \<open>ds\<close> are stored from offset \<open>p\<close> up to offset \<open>q\<close>.\<close>

definition chain :: "nat \<Rightarrow> byte list \<Rightarrow> nat \<Rightarrow> byte list list \<Rightarrow> nat \<Rightarrow> bool" where
  "chain M buf p ds q \<longleftrightarrow>
     q = p + length (lay ds) \<and> holds buf p (lay ds) \<and> ok_entries M ds"

text \<open>\<open>boundary p ds r\<close>: \<open>r\<close> is where one of the entries \<open>ds\<close>, or their end, is stored.\<close>

definition boundary :: "nat \<Rightarrow> byte list list \<Rightarrow> nat \<Rightarrow> bool" where
  "boundary p ds r \<longleftrightarrow> (\<exists>us vs. ds = us @ vs \<and> r = p + length (lay us))"

text \<open>
  A buffer \<open>fits\<close> entries of at most \<open>M\<close> bytes when three of them and an end marker fit
  in it, and its offsets do not overflow.
\<close>

definition fits :: "nat \<Rightarrow> nat \<Rightarrow> bool" where
  "fits M sz \<longleftrightarrow> M < 65536 \<and> 3 * (M + 2) + 2 < sz \<and> sz + M + 2 < 4294967296"

lemma fits_TRACE_RB_SIZE: "fits 65535 TRACE_RB_SIZE"
  by (simp add: fits_def TRACE_RB_SIZE_def)

lemma length_enc [simp]: "length (enc d) = 2 + length d"
  by (simp add: enc_def)

lemma lay_simps [simp]:
  "lay [] = []" "lay (d # ds) = enc d @ lay ds" "lay (ds @ es) = lay ds @ lay es"
  by (simp_all add: lay_def)

lemma ok_entries_simps [simp]:
  "ok_entries M []"
  "ok_entries M (d # ds) \<longleftrightarrow> d \<noteq> [] \<and> length d \<le> M \<and> ok_entries M ds"
  "ok_entries M (ds @ es) \<longleftrightarrow> ok_entries M ds \<and> ok_entries M es"
  by (auto simp: ok_entries_def)

lemma chain_Nil [simp]: "chain M buf p [] q \<longleftrightarrow> q = p \<and> p \<le> length buf"
  by (auto simp: chain_def)

lemma chain_append:
  "chain M buf p (ds @ es) q \<longleftrightarrow>
     chain M buf p ds (p + length (lay ds)) \<and> chain M buf (p + length (lay ds)) es q"
  by (auto simp: chain_def holds_append)

lemma chain_Cons:
  "chain M buf p (d # ds) q \<longleftrightarrow>
     chain M buf p [d] (p + 2 + length d) \<and> chain M buf (p + 2 + length d) ds q"
  using chain_append [of M buf p "[d]" ds q] by simp

lemma chain_le: "chain M buf p ds q \<Longrightarrow> p \<le> q \<and> q \<le> length buf"
  by (auto simp: chain_def dest: holds_bound)

lemma chain_end: "chain M buf p ds q \<Longrightarrow> q = p + length (lay ds)"
  by (simp add: chain_def)

lemma chain_read:
  assumes "chain M buf p (d # ds) q" and "M < 65536"
  shows "u16_at buf p = Some (length d)" and "mem_read buf (p + 2) (length d) = Some d"
    and "0 < length d" and "length d \<le> M" and "p + 2 + length d \<le> q"
  using assms
  by (auto simp: chain_def enc_def holds_append intro!: u16_at_holds mem_read_holds)

lemma chain_patch_before:
  "chain M buf p ds q \<Longrightarrow> q \<le> off \<Longrightarrow> off + length ys \<le> length buf \<Longrightarrow>
   chain M (patch buf off ys) p ds q"
  by (auto simp: chain_def intro: holds_patch_before)

lemma chain_patch_after:
  "chain M buf p ds q \<Longrightarrow> off + length ys \<le> p \<Longrightarrow> off + length ys \<le> length buf \<Longrightarrow>
   chain M (patch buf off ys) p ds q"
  by (auto simp: chain_def intro: holds_patch_after)

lemma chain_patch_snoc:
  assumes "chain M buf p ds q" and "q + length (enc d) \<le> length buf"
    and "d \<noteq> []" and "length d \<le> M"
  shows "chain M (patch buf q (enc d)) p (ds @ [d]) (q + length (enc d))"
proof -
  have "chain M (patch buf q (enc d)) p ds q"
    using assms(1,2) by (intro chain_patch_before) auto
  moreover have "q = p + length (lay ds)"
    using assms(1) by (rule chain_end)
  moreover have "chain M (patch buf q (enc d)) q [d] (q + length (enc d))"
    using assms(2-4) by (simp add: chain_def holds_patch_same)
  ultimately show ?thesis
    by (simp add: chain_append)
qed

lemma u16_at_patch_after:
  "off + length ys \<le> p \<Longrightarrow> off + length ys \<le> length buf \<Longrightarrow>
   u16_at (patch buf off ys) p = u16_at buf p"
  by (simp add: u16_at_def mem_read_def chunk_patch_after)

lemma u16_at_patch_marker:
  "p + 2 \<le> length buf \<Longrightarrow> u16_at (patch buf p (le16_bytes 0)) p = Some 0"
  by (rule u16_at_holds [where n = 0]) (simp_all add: holds_patch_same)

lemma u16_at_SomeD: "u16_at buf p = Some n \<Longrightarrow> p + 2 \<le> length buf"
  by (auto simp: u16_at_def dest: mem_read_SomeD)

lemma boundaryI: "ds = us @ vs \<Longrightarrow> r = p + length (lay us) \<Longrightarrow> boundary p ds r"
  by (auto simp: boundary_def)

lemma boundary_start [intro]: "boundary p ds p"
  by (rule boundaryI [of _ "[]" ds]) simp_all

lemma boundary_end: "boundary p ds (p + length (lay ds))"
  by (rule boundaryI [of _ ds "[]"]) simp_all

lemma boundary_bounds: "boundary p ds r \<Longrightarrow> p \<le> r \<and> r \<le> p + length (lay ds)"
  by (auto simp: boundary_def)

lemma boundary_append: "boundary p ds r \<Longrightarrow> boundary p (ds @ es) r"
  unfolding boundary_def by (elim exE conjE, rule exI, rule exI, rule conjI) auto

lemma boundary_suffix:
  assumes "boundary (p + length (lay ds)) es r"
  shows "boundary p (ds @ es) r"
proof -
  obtain us vs where "es = us @ vs" and "r = p + length (lay ds) + length (lay us)"
    using assms by (auto simp: boundary_def)
  then show ?thesis
    by (intro boundaryI [of _ "ds @ us" vs]) simp_all
qed

lemma boundary_Nil [simp]: "boundary p [] r \<longleftrightarrow> r = p"
  by (auto simp: boundary_def)

lemma boundary_Cons: "boundary p (d # ds) r \<longleftrightarrow> r = p \<or> boundary (p + 2 + length d) ds r"
  (is "?l \<longleftrightarrow> ?r")
proof
  assume ?l
  then obtain us vs where "d # ds = us @ vs" and r: "r = p + length (lay us)"
    by (auto simp: boundary_def)
  then show ?r
    by (cases us) (auto simp: boundary_def)
next
  assume ?r
  then show ?l
  proof
    assume "r = p"
    then show ?l by auto
  next
    assume "boundary (p + 2 + length d) ds r"
    then show ?l
      using boundary_suffix [of p "[d]" ds r] by (simp add: add.assoc)
  qed
qed

section \<open>The abstract log\<close>

text \<open>
  \<open>rb_walk buf p q\<close> lists the entries stored from \<open>p\<close> on, up to \<open>q\<close> or to an end marker.
\<close>

function rb_walk :: "byte list \<Rightarrow> nat \<Rightarrow> nat \<Rightarrow> byte list list" where
  "rb_walk buf p q =
     (if p < q then
        (case u16_at buf p of
           None \<Rightarrow> []
         | Some n \<Rightarrow>
             if n = 0 then []
             else (case mem_read buf (p + 2) n of
                     None \<Rightarrow> []
                   | Some d \<Rightarrow> d # rb_walk buf (p + 2 + n) q))
      else [])"
  by pat_completeness auto
termination
  by (relation "measure (\<lambda>(buf, p, q). q - p)") auto

declare rb_walk.simps [simp del]

text \<open>What is stored from an offset \<open>r\<close> to the head, through the end marker if need be.\<close>

definition rb_entries_from :: "rb \<Rightarrow> nat \<Rightarrow> byte list list" where
  "rb_entries_from rb r =
     (if r \<le> rb_head rb then rb_walk (rb_buf rb) r (rb_head rb)
      else rb_walk (rb_buf rb) r (rb_size rb) @ rb_walk (rb_buf rb) 0 (rb_head rb))"

definition rb_log :: "rb \<Rightarrow> byte list list" where
  "rb_log rb = rb_entries_from rb (rb_tail rb)"

definition rb_unread :: "rb \<Rightarrow> byte list list" where
  "rb_unread rb = rb_entries_from rb (rb_rdtail rb)"

lemma rb_walk_same [simp]: "rb_walk buf p p = []"
  by (subst rb_walk.simps) simp

lemma rb_walk_marker: "u16_at buf p = Some 0 \<Longrightarrow> rb_walk buf p q = []"
  by (subst rb_walk.simps) simp

lemma rb_walk_chain:
  assumes "chain M buf p ds q" and "M < 65536" and "q \<le> q'"
    and "q' = q \<or> u16_at buf q = Some 0"
  shows "rb_walk buf p q' = ds"
  using assms
proof (induction ds arbitrary: p)
  case Nil
  then show ?case by (auto simp: rb_walk_marker)
next
  case (Cons d ds)
  note rd = chain_read [OF Cons.prems(1,2)]
  from Cons.prems(1) have "chain M buf (p + 2 + length d) ds q"
    by (simp add: chain_Cons [of M buf p d ds q])
  then have "rb_walk buf (p + 2 + length d) q' = ds"
    using Cons.prems by (intro Cons.IH)
  then show ?case
    using rd Cons.prems(3) by (subst rb_walk.simps) simp
qed

lemma rb_walk_suffix:
  assumes "chain M buf p (us @ vs) q" and "M < 65536" and "q \<le> q'"
    and "q' = q \<or> u16_at buf q = Some 0"
  shows "rb_walk buf (p + length (lay us)) q' = vs"
  using assms by (intro rb_walk_chain [of M _ _ vs q]) (simp_all add: chain_append)

section \<open>Well-formed buffers\<close>

text \<open>
  Fresh from \<open>rb_init\<close>, with a zero size field at offset 0; linear, all the entries of
  the current lap stored from offset 0 to the head; or wrapped, with the end of the
  previous lap still stored between the tail and an end marker.
\<close>

definition rb_fresh :: "rb \<Rightarrow> bool" where
  "rb_fresh rb \<longleftrightarrow>
     rb_head rb = 0 \<and> rb_tail rb = 0 \<and> rb_rdtail rb = 0 \<and> u16_at (rb_buf rb) 0 = Some 0"

definition rb_linear :: "nat \<Rightarrow> rb \<Rightarrow> byte list list \<Rightarrow> byte list list \<Rightarrow> bool" where
  "rb_linear M rb ds es \<longleftrightarrow>
     chain M (rb_buf rb) 0 (ds @ es) (rb_head rb) \<and> es \<noteq> [] \<and> length ds \<le> 1 \<and>
     rb_tail rb = length (lay ds) \<and> rb_head rb + 2 < rb_size rb \<and>
     boundary 0 (ds @ es) (rb_rdtail rb)"

definition rb_wrapped :: "nat \<Rightarrow> rb \<Rightarrow> byte list list \<Rightarrow> byte list list \<Rightarrow> nat \<Rightarrow> bool" where
  "rb_wrapped M rb os es m \<longleftrightarrow>
     chain M (rb_buf rb) 0 es (rb_head rb) \<and> es \<noteq> [] \<and>
     chain M (rb_buf rb) (rb_tail rb) os m \<and> u16_at (rb_buf rb) m = Some 0 \<and>
     rb_head rb < rb_tail rb \<and> rb_size rb \<le> m + M + 4 \<and>
     (boundary 0 es (rb_rdtail rb) \<or> boundary (rb_tail rb) os (rb_rdtail rb))"

definition rb_inv :: "nat \<Rightarrow> rb \<Rightarrow> bool" where
  "rb_inv M rb \<longleftrightarrow>
     length (rb_buf rb) = rb_size rb \<and> fits M (rb_size rb) \<and>
     (rb_fresh rb \<or> (\<exists>ds es. rb_linear M rb ds es) \<or> (\<exists>os es m. rb_wrapped M rb os es m))"

lemma rb_inv_cases [consumes 1, case_names fresh linear wrapped]:
  assumes "rb_inv M rb"
  obtains (fresh) "length (rb_buf rb) = rb_size rb" "fits M (rb_size rb)" "rb_fresh rb"
  | (linear) ds es where "length (rb_buf rb) = rb_size rb" "fits M (rb_size rb)"
      "rb_linear M rb ds es"
  | (wrapped) os es m where "length (rb_buf rb) = rb_size rb" "fits M (rb_size rb)"
      "rb_wrapped M rb os es m"
  using assms by (auto simp: rb_inv_def)

lemma rb_entries_fresh: "rb_fresh rb \<Longrightarrow> rb_log rb = [] \<and> rb_unread rb = []"
  by (simp add: rb_fresh_def rb_log_def rb_unread_def rb_entries_from_def)

lemma rb_entries_linear:
  assumes "chain M (rb_buf rb) 0 (us @ vs) (rb_head rb)" and "M < 65536"
    and "r = length (lay us)"
  shows "rb_entries_from rb r = vs"
proof -
  have "r \<le> rb_head rb"
    using assms(1,3) by (auto simp: chain_def)
  then show ?thesis
    using rb_walk_suffix [OF assms(1,2), of "rb_head rb"] assms(3)
    by (simp add: rb_entries_from_def)
qed

lemma rb_entries_wrapped:
  assumes "chain M (rb_buf rb) 0 es (rb_head rb)"
    and "chain M (rb_buf rb) t (us @ vs) m" and "u16_at (rb_buf rb) m = Some 0"
    and "rb_head rb < t" and "m \<le> rb_size rb" and "M < 65536"
    and "r = t + length (lay us)"
  shows "rb_entries_from rb r = vs @ es"
  using rb_walk_suffix [OF assms(2,6), of "rb_size rb"]
    rb_walk_suffix [of M "rb_buf rb" 0 "[]" es "rb_head rb" "rb_head rb"] assms
  by (simp add: rb_entries_from_def)

lemma rb_log_linear:
  assumes "rb_linear M rb ds es" and "M < 65536"
  shows "rb_log rb = es"
  using assms by (auto simp: rb_log_def rb_linear_def intro!: rb_entries_linear)

lemma rb_wrapped_marker:
  assumes "rb_wrapped M rb os es m" and "length (rb_buf rb) = rb_size rb"
  shows "m + 2 \<le> rb_size rb" and "rb_tail rb \<le> m" and "rb_head rb + 2 < rb_size rb"
    and "0 < rb_head rb"
proof -
  show 1: "m + 2 \<le> rb_size rb"
    using assms by (auto simp: rb_wrapped_def dest: u16_at_SomeD)
  show 2: "rb_tail rb \<le> m"
    using assms(1) by (auto simp: rb_wrapped_def dest: chain_le)
  show "rb_head rb + 2 < rb_size rb"
    using 1 2 assms(1) by (simp add: rb_wrapped_def)
  show "0 < rb_head rb"
    using assms(1) by (cases es) (auto simp: rb_wrapped_def chain_def)
qed

lemma rb_log_wrapped:
  assumes "rb_wrapped M rb os es m" and "M < 65536" and "length (rb_buf rb) = rb_size rb"
  shows "rb_log rb = os @ es"
  using assms rb_wrapped_marker [OF assms(1,3)]
  by (auto simp: rb_log_def rb_wrapped_def intro!: rb_entries_wrapped [where us = "[]" and m = m])

lemma rb_unread_linear:
  assumes "rb_linear M rb ds es" and "M < 65536"
    and "ds @ es = us @ vs" and "rb_rdtail rb = length (lay us)"
  shows "rb_unread rb = vs"
  using assms by (auto simp: rb_unread_def rb_linear_def intro!: rb_entries_linear)

lemma rb_unread_wrapped:
  assumes "rb_wrapped M rb os es m" and "M < 65536" and "length (rb_buf rb) = rb_size rb"
    and "os = us @ vs" and "rb_rdtail rb = rb_tail rb + length (lay us)"
  shows "rb_unread rb = vs @ es"
  using assms rb_wrapped_marker [OF assms(1,3)]
  by (auto simp: rb_unread_def rb_wrapped_def intro!: rb_entries_wrapped [where us = us and m = m])

lemma rb_unread_wrapped_current:
  assumes "rb_wrapped M rb os es m" and "M < 65536"
    and "es = us @ vs" and "rb_rdtail rb = length (lay us)"
  shows "rb_unread rb = vs"
  using assms by (auto simp: rb_unread_def rb_wrapped_def intro!: rb_entries_linear)

text \<open>Where the reader is.\<close>

lemma rb_linear_reader:
  assumes "rb_linear M rb ds es" and "M < 65536"
  obtains us vs where "ds @ es = us @ vs" "rb_rdtail rb = length (lay us)" "rb_unread rb = vs"
    "rb_head rb = length (lay us) + length (lay vs)"
proof -
  obtain us vs where us: "ds @ es = us @ vs" "rb_rdtail rb = length (lay us)"
    using assms(1) by (auto simp: rb_linear_def boundary_def)
  moreover have "rb_head rb = length (lay us) + length (lay vs)"
    using assms(1) us by (simp add: rb_linear_def chain_def)
  ultimately show thesis using that rb_unread_linear [OF assms us] by blast
qed

lemma rb_wrapped_reader [consumes 3, case_names current old]:
  assumes "rb_wrapped M rb os es m" and "M < 65536" and "length (rb_buf rb) = rb_size rb"
  obtains (current) us vs where "es = us @ vs" "rb_rdtail rb = length (lay us)" "rb_unread rb = vs"
      "rb_head rb = length (lay us) + length (lay vs)"
  | (old) us vs where "os = us @ vs" "rb_rdtail rb = rb_tail rb + length (lay us)" "rb_unread rb = vs @ es"
proof -
  have "boundary 0 es (rb_rdtail rb) \<or> boundary (rb_tail rb) os (rb_rdtail rb)"
    and c: "chain M (rb_buf rb) 0 es (rb_head rb)"
    using assms(1) by (simp_all add: rb_wrapped_def)
  then consider us vs where "es = us @ vs" "rb_rdtail rb = length (lay us)"
    | us vs where "os = us @ vs" "rb_rdtail rb = rb_tail rb + length (lay us)"
    by (auto simp: boundary_def)
  then show thesis
  proof cases
    case 1
    moreover from this have "rb_head rb = length (lay us) + length (lay vs)"
      using c by (simp add: chain_def)
    ultimately show thesis using current rb_unread_wrapped_current [OF assms(1,2) 1] by blast
  next
    case 2
    then show thesis using old rb_unread_wrapped [OF assms 2] by blast
  qed
qed

lemma lay_eq_Nil [simp]: "lay vs = [] \<longleftrightarrow> vs = []"
  by (cases vs) (auto simp: enc_def le16_bytes_def)

section \<open>Consuming entries\<close>

lemma rb_inv_rdtail_cases:
  assumes "rb_inv M rb"
  obtains (empty) "rb_rdtail rb = rb_head rb" "rb_unread rb = []"
  | (current) us d vs where "chain M (rb_buf rb) 0 (us @ d # vs) (rb_head rb)"
      "rb_rdtail rb = length (lay us)" "rb_unread rb = d # vs"
  | (old) us d vs es m where "chain M (rb_buf rb) (rb_tail rb) (us @ d # vs) m"
      "rb_rdtail rb = rb_tail rb + length (lay us)" "rb_unread rb = (d # vs) @ es"
      "rb_head rb < rb_tail rb" "u16_at (rb_buf rb) m = Some 0" "m \<le> rb_size rb"
      "chain M (rb_buf rb) 0 es (rb_head rb)"
  | (marker) d vs where "chain M (rb_buf rb) 0 (d # vs) (rb_head rb)"
      "u16_at (rb_buf rb) (rb_rdtail rb) = Some 0" "rb_unread rb = d # vs"
      "rb_head rb < rb_rdtail rb"
  using assms
proof (cases rule: rb_inv_cases)
  case fresh
  then show thesis
    using empty by (simp add: rb_fresh_def rb_entries_fresh)
next
  case (linear ds es)
  then have M: "M < 65536" by (simp add: fits_def)
  obtain us vs where r: "ds @ es = us @ vs" "rb_rdtail rb = length (lay us)" "rb_unread rb = vs"
    "rb_head rb = length (lay us) + length (lay vs)"
    by (rule rb_linear_reader [OF linear(3) M])
  then have c: "chain M (rb_buf rb) 0 (us @ vs) (rb_head rb)" using linear(3) by (simp add: rb_linear_def)
  show thesis by (cases vs) (use r c empty current in auto)
next
  case (wrapped os es m)
  then have M: "M < 65536" by (simp add: fits_def)
  have c: "chain M (rb_buf rb) 0 es (rb_head rb)" "chain M (rb_buf rb) (rb_tail rb) os m"
    "u16_at (rb_buf rb) m = Some 0" "rb_head rb < rb_tail rb" "es \<noteq> []"
    using wrapped(3) by (auto simp: rb_wrapped_def)
  note mk = rb_wrapped_marker [OF wrapped(3,1)]
  from wrapped(3) M wrapped(1) show thesis
  proof (cases rule: rb_wrapped_reader)
    case r: (current us vs)
    show thesis by (cases vs) (use r c(1) empty current in auto)
  next
    case r: (old us vs)
    show thesis
    proof (cases vs)
      case Nil
      then have "rb_rdtail rb = m" using c(2) r by (auto dest: chain_end)
      moreover obtain d ws where "es = d # ws" using c(5) by (cases es) auto
      ultimately show thesis using c mk r(3) Nil marker by auto
    next
      case (Cons d ws)
      then show thesis using c r mk old by auto
    qed
  qed
qed

lemma rb_inv_width: "rb_inv M rb \<Longrightarrow> M < 65536 \<and> rb_size rb + M + 2 < 4294967296"
  by (auto simp: rb_inv_def fits_def)

lemma rb_log_rdtail [simp]: "rb_log (rb\<lparr>rb_rdtail := r\<rparr>) = rb_log rb"
  by (simp add: rb_log_def rb_entries_from_def)

lemma chain_unique:
  assumes "chain M buf p ds q" and "chain M buf p es q" and "M < 65536"
  shows "ds = es"
  using rb_walk_chain [OF assms(1,3), of q] rb_walk_chain [OF assms(2,3), of q] by simp

lemma chain_marker_unique:
  assumes "chain M buf p ds q" and "u16_at buf q = Some 0"
    and "chain M buf p es q'" and "u16_at buf q' = Some 0" and "M < 65536"
  shows "ds = es"
  using rb_walk_chain [OF assms(1,5), of "max q q'"] rb_walk_chain [OF assms(3,5), of "max q q'"]
    assms(2,4) by simp

lemma rb_inv_set_rdtail:
  assumes inv: "rb_inv M rb" and c: "chain M (rb_buf rb) 0 (us @ vs) (rb_head rb)"
    and r: "r = length (lay us)"
  shows "rb_inv M (rb\<lparr>rb_rdtail := r\<rparr>)"
  using inv
proof (cases rule: rb_inv_cases)
  case fresh
  then have "lay us = []"
    using c by (auto simp: rb_fresh_def chain_def)
  with fresh r show ?thesis
    by (simp add: rb_inv_def rb_fresh_def)
next
  case (linear ds es)
  then have "ds @ es = us @ vs"
    using c chain_unique rb_inv_width [OF inv] by (auto simp: rb_linear_def)
  then have "rb_linear M (rb\<lparr>rb_rdtail := r\<rparr>) ds es"
    using linear(3) r by (auto simp: rb_linear_def boundary_def)
  with linear show ?thesis
    unfolding rb_inv_def by auto
next
  case (wrapped os es m)
  then have "es = us @ vs"
    using c chain_unique rb_inv_width [OF inv] by (auto simp: rb_wrapped_def)
  then have "rb_wrapped M (rb\<lparr>rb_rdtail := r\<rparr>) os es m"
    using wrapped(3) r by (auto simp: rb_wrapped_def boundary_def)
  with wrapped show ?thesis
    unfolding rb_inv_def by auto
qed

lemma rb_inv_set_rdtail_old:
  assumes inv: "rb_inv M rb" and c: "chain M (rb_buf rb) (rb_tail rb) (us @ vs) m'"
    and m': "u16_at (rb_buf rb) m' = Some 0" and lt: "rb_head rb < rb_tail rb"
    and r: "r = rb_tail rb + length (lay us)"
  shows "rb_inv M (rb\<lparr>rb_rdtail := r\<rparr>)"
  using inv
proof (cases rule: rb_inv_cases)
  case fresh
  then show ?thesis using lt by (simp add: rb_fresh_def)
next
  case (linear ds es)
  then show ?thesis
    using lt by (auto simp: rb_linear_def chain_def)
next
  case (wrapped os es m)
  then have "os = us @ vs"
    using c m' chain_marker_unique rb_inv_width [OF inv] by (auto simp: rb_wrapped_def)
  then have "rb_wrapped M (rb\<lparr>rb_rdtail := r\<rparr>) os es m"
    using wrapped(3) r by (auto simp: rb_wrapped_def boundary_def)
  with wrapped show ?thesis
    unfolding rb_inv_def by auto
qed

lemma chain_read_at:
  assumes "chain M buf p (us @ d # vs) q" and "M < 65536"
  shows "u16_at buf (p + length (lay us)) = Some (length d)"
    and "mem_read buf (p + length (lay us) + 2) (length d) = Some d"
    and "0 < length d" and "p + length (lay us) + 2 + length d \<le> q"
    and "p + length (lay (us @ [d])) = p + length (lay us) + 2 + length d"
  using assms chain_read [of M buf "p + length (lay us)" d vs q]
  by (simp_all add: chain_append)

lemma rb_pop_Nil:
  assumes "rb_inv M rb" and "rb_unread rb = []"
  shows "rb_pop alloc rb = Some ((None, 0), rb)"
  using assms(1)
proof (cases rule: rb_inv_rdtail_cases)
  case empty
  then show ?thesis
    by (simp add: rb_pop_def rb_pop_from_def rb_next_size_from_def rb_can_pop_from_def)
qed (use assms(2) in simp_all)

lemma rb_next_size_Nil:
  assumes "rb_inv M rb" and "rb_unread rb = []"
  shows "rb_next_size rb = Some (0, rb)"
  using assms(1)
proof (cases rule: rb_inv_rdtail_cases)
  case empty
  then show ?thesis
    by (simp add: rb_next_size_def rb_next_size_from_def rb_can_pop_from_def)
qed (use assms(2) in simp_all)

text \<open>The entry \<open>d\<close> is stored at the offset \<open>r\<close>, and the reader may be put before or behind it.\<close>

definition rb_entry_at :: "nat \<Rightarrow> rb \<Rightarrow> byte list \<Rightarrow> byte list list \<Rightarrow> nat \<Rightarrow> bool" where
  "rb_entry_at M rb d ds r \<longleftrightarrow>
     mem_read (rb_buf rb) (r + 2) (length d) = Some d \<and> 0 < length d \<and> r + 2 + length d \<le> rb_size rb \<and>
     rb_inv M (rb\<lparr>rb_rdtail := r\<rparr>) \<and> rb_unread (rb\<lparr>rb_rdtail := r\<rparr>) = d # ds \<and>
     rb_inv M (rb\<lparr>rb_rdtail := r + 2 + length d\<rparr>) \<and> rb_unread (rb\<lparr>rb_rdtail := r + 2 + length d\<rparr>) = ds"

lemma rb_entry_at_current:
  assumes inv: "rb_inv M rb" and c: "chain M (rb_buf rb) 0 (us @ d # ds) (rb_head rb)"
    and r: "r = length (lay us)"
  shows "rb_entry_at M rb d ds r"
proof -
  have M: "M < 65536" and len: "length (rb_buf rb) = rb_size rb"
    using inv by (auto simp: rb_inv_def fits_def)
  have c': "chain M (rb_buf rb) 0 ((us @ [d]) @ ds) (rb_head rb)" using c by simp
  have r': "r + 2 + length d = length (lay (us @ [d]))" using r by simp
  have "rb_unread (rb\<lparr>rb_rdtail := r\<rparr>) = d # ds"
    using c M r rb_entries_linear [of M "rb\<lparr>rb_rdtail := r\<rparr>" us "d # ds" r] by (simp add: rb_unread_def)
  moreover have "rb_unread (rb\<lparr>rb_rdtail := r + 2 + length d\<rparr>) = ds"
    using c' M r' rb_entries_linear [of M "rb\<lparr>rb_rdtail := r + 2 + length d\<rparr>" "us @ [d]" ds _]
    by (simp add: rb_unread_def)
  ultimately show ?thesis
    using chain_read_at [OF c M] chain_le [OF c] len r rb_inv_set_rdtail [OF inv c r] rb_inv_set_rdtail [OF inv c' r']
    by (simp add: rb_entry_at_def)
qed

lemma rb_entry_at_old:
  assumes inv: "rb_inv M rb" and c: "chain M (rb_buf rb) (rb_tail rb) (us @ d # vs) m"
    and m: "u16_at (rb_buf rb) m = Some 0" "m \<le> rb_size rb" and lt: "rb_head rb < rb_tail rb"
    and e: "chain M (rb_buf rb) 0 es (rb_head rb)"
    and r: "rb_rdtail rb = rb_tail rb + length (lay us)" and u: "rb_unread rb = d # vs @ es"
  shows "rb_entry_at M rb d (vs @ es) (rb_rdtail rb)"
proof -
  have M: "M < 65536" using inv by (auto simp: rb_inv_def fits_def)
  have c': "chain M (rb_buf rb) (rb_tail rb) ((us @ [d]) @ vs) m" using c by simp
  have r': "rb_rdtail rb + 2 + length d = rb_tail rb + length (lay (us @ [d]))" using r by simp
  have "rb_unread (rb\<lparr>rb_rdtail := rb_rdtail rb + 2 + length d\<rparr>) = vs @ es"
    using rb_entries_wrapped [of M "rb\<lparr>rb_rdtail := rb_rdtail rb + 2 + length d\<rparr>" es "rb_tail rb" "us @ [d]" vs m _]
      e c' m lt r' M by (simp add: rb_unread_def add.assoc)
  then show ?thesis
    using chain_read_at [OF c M, folded r] m(2) inv u rb_inv_set_rdtail_old [OF inv c' m(1) lt r']
    by (simp add: rb_entry_at_def)
qed

text \<open>
  The offset of the next entry: behind an end marker the reader first goes to offset 0.
\<close>

lemma rb_next_entry:
  assumes inv: "rb_inv M rb" and ne: "rb_unread rb = d # ds"
  obtains (entry) r where "rb_next_size_from rb (rb_rdtail rb) = Some (length d, r)" "rb_entry_at M rb d ds r"
proof -
  have M: "M < 65536" using inv by (auto simp: rb_inv_def fits_def)
  from inv show thesis
  proof (cases rule: rb_inv_rdtail_cases)
    case empty
    then show thesis using ne by simp
  next
    case (current us d' vs)
    then have c: "chain M (rb_buf rb) 0 (us @ d # ds) (rb_head rb)" using ne by auto
    show thesis
      using chain_read_at [OF c M] rb_entry_at_current [OF inv c current(2)] current(2)
      by (intro entry) (simp_all add: rb_next_size_from_def rb_can_pop_from_def)
  next
    case (marker d' vs)
    then have c: "chain M (rb_buf rb) 0 ([] @ d # ds) (rb_head rb)" using ne by auto
    have "rb_next_size_from rb (rb_rdtail rb) = Some (length d, 0)"
      using chain_read_at [OF c M] marker(2,4) by (simp add: rb_next_size_from_def rb_can_pop_from_def)
    then show thesis using rb_entry_at_current [OF inv c] by (intro entry) simp_all
  next
    case (old us d' vs es m)
    then have eq: "d' = d" "vs @ es = ds" using ne by auto
    have "rb_entry_at M rb d ds (rb_rdtail rb)"
      using rb_entry_at_old [OF inv old(1,5,6,4,7,2)] old(3) eq by simp
    then show thesis
      using chain_read_at [OF old(1) M] old(2,4) eq
      by (intro entry) (simp_all add: rb_next_size_from_def rb_can_pop_from_def)
  qed
qed

lemma rb_pop_Cons:
  assumes inv: "rb_inv M rb" and ne: "rb_unread rb = d # ds"
  shows "\<exists>rb'. rb_pop True rb = Some ((Some d, length d), rb') \<and> rb_inv M rb' \<and>
           rb_unread rb' = ds \<and> rb_log rb' = rb_log rb"
proof -
  obtain r where n: "rb_next_size_from rb (rb_rdtail rb) = Some (length d, r)" and r: "rb_entry_at M rb d ds r"
    by (rule rb_next_entry [OF assms])
  then have w: "u32 (r + 2) = r + 2" "u32 (r + 2 + length d) = r + 2 + length d"
    using rb_inv_width [OF inv] by (simp_all add: rb_entry_at_def width_simps)
  have "rb_pop True rb = Some ((Some d, length d), rb\<lparr>rb_rdtail := r + 2 + length d\<rparr>)"
    using n r w by (simp add: rb_pop_def rb_pop_from_def rb_entry_at_def Let_def)
  with r show ?thesis by (simp add: rb_entry_at_def)
qed

lemma rb_next_size_Cons:
  assumes inv: "rb_inv M rb" and ne: "rb_unread rb = d # ds"
  shows "\<exists>rb'. rb_next_size rb = Some (length d, rb') \<and> rb_inv M rb' \<and>
           rb_unread rb' = d # ds \<and> rb_log rb' = rb_log rb"
  by (rule rb_next_entry [OF assms]) (simp add: rb_next_size_def rb_entry_at_def)

section \<open>Making room\<close>

text \<open>
  \<open>drag t ds r\<close>: where the read offset \<open>r\<close> ends up when the tail moves from \<open>t\<close> over the
  entries \<open>ds\<close>: it moves along from the moment the two are equal.
\<close>

primrec drag :: "nat \<Rightarrow> byte list list \<Rightarrow> nat \<Rightarrow> nat" where
  "drag t [] r = r"
| "drag t (d # ds) r = drag (t + 2 + length d) ds (if r = t then t + 2 + length d else r)"

lemma drag_behind: "r < t \<Longrightarrow> drag t ds r = r"
  by (induction ds arbitrary: t) simp_all

lemma drag_same: "drag t ds t = t + length (lay ds)"
  by (induction ds arbitrary: t) (simp_all add: add.assoc)

lemma drag_boundary:
  assumes "us @ vs = ds @ es" and "r = t + length (lay us)"
  shows "drag t ds r = (if length us < length ds then t + length (lay ds) else r)"
  using assms
proof (induction ds arbitrary: us t)
  case (Cons d ds)
  show ?case
  proof (cases us)
    case Nil
    then show ?thesis
      using Cons.prems drag_same [of "t + 2 + length d" ds] by simp
  next
    case (Cons u us')
    then have us': "us = d # us'" "us' @ vs = ds @ es"
      using Cons.prems(1) by auto
    moreover have "r = t + 2 + length d + length (lay us')"
      using Cons.prems(2) us' by simp
    ultimately show ?thesis
      using Cons.IH [of us' "t + 2 + length d"] by auto
  qed
qed simp

lemma rb_skip_entry:
  assumes "u16_at (rb_buf rb) (rb_tail rb) = Some n" and "0 < n"
    and "rb_tail rb + 2 + n < 4294967296"
  shows "rb_skip rb = Some (True, rb\<lparr>rb_tail := rb_tail rb + 2 + n\<rparr>)"
  using assms by (simp add: rb_skip_def width_simps add.assoc)

lemma rb_update_twice:
  "rb\<lparr>rb_tail := t, rb_rdtail := r, rb_tail := t', rb_rdtail := r'\<rparr> =
   rb\<lparr>rb_tail := t', rb_rdtail := r'\<rparr>"
  by (cases rb) simp

lemma rb_make_room_enough:
  "\<not> (rb_head rb \<le> rb_tail rb \<and> rb_tail rb \<le> u32 (rb_head rb + e)) \<Longrightarrow>
   rb_make_room e rb = Returns rb"
  by (subst rb_make_room.simps) auto

lemma rb_make_room_entry:
  assumes "rb_head rb \<le> rb_tail rb" and "rb_tail rb \<le> u32 (rb_head rb + e)"
    and "u16_at (rb_buf rb) (rb_tail rb) = Some n" and "0 < n"
    and "rb_tail rb + 2 + n < 4294967296"
  shows "rb_make_room e rb = rb_make_room e
    (rb\<lparr>rb_tail := rb_tail rb + 2 + n,
        rb_rdtail := (if rb_rdtail rb = rb_tail rb then rb_tail rb + 2 + n else rb_rdtail rb)\<rparr>)"
  using assms rb_skip_entry [OF assms(3-5)]
  by (subst rb_make_room.simps) (auto simp: Let_def)

text \<open>The tail moves over entries until the new entry fits in front of it.\<close>

lemma rb_make_room_within:
  assumes "chain M (rb_buf rb) (rb_tail rb) os m" and "rb_head rb \<le> rb_tail rb"
    and "rb_head rb + e < m" and "m < 4294967296" and "M < 65536"
  shows "\<exists>os1 os2. os = os1 @ os2 \<and> rb_head rb + e < rb_tail rb + length (lay os1) \<and>
    rb_make_room e rb = Returns (rb\<lparr>rb_tail := rb_tail rb + length (lay os1),
                                    rb_rdtail := drag (rb_tail rb) os1 (rb_rdtail rb)\<rparr>)"
  using assms
proof (induction os arbitrary: rb)
  case Nil
  then show ?case
    by (simp add: rb_make_room_enough width_simps)
next
  case (Cons d os)
  have u: "u32 (rb_head rb + e) = rb_head rb + e"
    using Cons.prems(3,4) by (simp add: width_simps)
  show ?case
  proof (cases "rb_tail rb \<le> rb_head rb + e")
    case False
    then show ?thesis
      using u by (intro exI [of _ "[]"] exI [of _ "d # os"]) (simp add: rb_make_room_enough)
  next
    case True
    note rd = chain_read [OF Cons.prems(1,5)]
    let ?t = "rb_tail rb + 2 + length d"
    let ?r = "if rb_rdtail rb = rb_tail rb then ?t else rb_rdtail rb"
    obtain rb' where rb': "rb' = rb\<lparr>rb_tail := ?t, rb_rdtail := ?r\<rparr>" by simp
    have sel: "rb_buf rb' = rb_buf rb" "rb_head rb' = rb_head rb" "rb_tail rb' = ?t"
        "rb_rdtail rb' = ?r"
      by (simp_all add: rb')
    have "chain M (rb_buf rb) ?t os m"
      using Cons.prems(1) by (simp add: chain_Cons [of M _ _ d os])
    then have "\<exists>os1 os2. os = os1 @ os2 \<and> rb_head rb' + e < rb_tail rb' + length (lay os1) \<and>
        rb_make_room e rb' = Returns (rb'\<lparr>rb_tail := rb_tail rb' + length (lay os1),
                                rb_rdtail := drag (rb_tail rb') os1 (rb_rdtail rb')\<rparr>)"
      using Cons.prems(2-5) by (intro Cons.IH) (simp_all add: sel)
    then obtain os1 os2 where split: "os = os1 @ os2"
      and lt: "rb_head rb + e < ?t + length (lay os1)"
      and ret: "rb_make_room e rb' = Returns (rb'\<lparr>rb_tail := ?t + length (lay os1),
                      rb_rdtail := drag ?t os1 ?r\<rparr>)"
      unfolding sel by blast
    have "rb_make_room e rb = rb_make_room e rb'"
      unfolding rb' using True u rd(1,3,5) Cons.prems(2,4)
      by (intro rb_make_room_entry) simp_all
    with ret have "rb_make_room e rb = Returns (rb\<lparr>rb_tail := ?t + length (lay os1),
                      rb_rdtail := drag ?t os1 ?r\<rparr>)"
      by (simp only: rb' rb_update_twice)
    with split lt show ?thesis
      by (intro exI [of _ "d # os1"] exI [of _ os2]) (simp add: add.assoc)
  qed
qed

text \<open>
  When even the end of the previous lap is in the way, the tail goes through the end
  marker and over the first entry of the current lap.
\<close>

lemma rb_make_room_crossing:
  assumes "chain M (rb_buf rb) (rb_tail rb) os m" and "u16_at (rb_buf rb) m = Some 0"
    and "chain M (rb_buf rb) 0 (d # es) (rb_head rb)" and "es \<noteq> []"
    and "rb_head rb < rb_tail rb" and "m \<le> rb_head rb + e"
    and "rb_head rb + e < 4294967296" and "M < 65536"
  shows "rb_make_room e rb = Returns (rb\<lparr>rb_tail := 2 + length d,
    rb_rdtail := (if drag (rb_tail rb) os (rb_rdtail rb) = m then 2 + length d
                  else drag (rb_tail rb) os (rb_rdtail rb))\<rparr>)"
  using assms
proof (induction os arbitrary: rb)
  case Nil
  then have t: "rb_tail rb = m" "0 < m" by auto
  have u: "u32 (rb_head rb + e) = rb_head rb + e"
    using Nil.prems(7) by (simp add: width_simps)
  note rd = chain_read [OF Nil.prems(3,8)]
  obtain d' es' where es: "es = d' # es'"
    using Nil.prems(4) by (cases es) auto
  then have short: "2 + length d < rb_head rb"
    using Nil.prems(3) by (simp add: chain_def)
  have "rb_skip rb = Some (True, rb\<lparr>rb_tail := 2 + length d\<rparr>)"
    using Nil.prems(2) t rd(1,4) Nil.prems(8) by (simp add: rb_skip_def width_simps)
  then show ?case
    using t u Nil.prems(5,6) short
    by (subst rb_make_room.simps) (auto simp: Let_def rb_make_room_enough)
next
  case (Cons x os)
  have u: "u32 (rb_head rb + e) = rb_head rb + e"
    using Cons.prems(7) by (simp add: width_simps)
  note rd = chain_read [OF Cons.prems(1,8)]
  let ?t = "rb_tail rb + 2 + length x"
  let ?r = "if rb_rdtail rb = rb_tail rb then ?t else rb_rdtail rb"
  obtain rb' where rb': "rb' = rb\<lparr>rb_tail := ?t, rb_rdtail := ?r\<rparr>" by simp
  have sel: "rb_buf rb' = rb_buf rb" "rb_head rb' = rb_head rb" "rb_tail rb' = ?t"
      "rb_rdtail rb' = ?r"
    by (simp_all add: rb')
  have "chain M (rb_buf rb) ?t os m"
    using Cons.prems(1) by (simp add: chain_Cons [of M _ _ x os])
  then have "rb_make_room e rb' = Returns (rb'\<lparr>rb_tail := 2 + length d,
      rb_rdtail := (if drag (rb_tail rb') os (rb_rdtail rb') = m then 2 + length d
                    else drag (rb_tail rb') os (rb_rdtail rb'))\<rparr>)"
    using Cons.prems(2-8) by (intro Cons.IH) (simp_all add: sel)
  then have ret: "rb_make_room e rb' = Returns (rb\<lparr>rb_tail := 2 + length d,
      rb_rdtail := (if drag ?t os ?r = m then 2 + length d else drag ?t os ?r)\<rparr>)"
    by (simp only: sel) (simp only: rb' rb_update_twice)
  have "rb_make_room e rb = rb_make_room e rb'"
    unfolding rb' using rd(1,3,5) Cons.prems(5-7) u
    by (intro rb_make_room_entry) simp_all
  with ret show ?case by (simp only: drag.simps)
qed

section \<open>Pushing an entry\<close>

lemma append_drop_min: "drop n xs @ ys = drop (min n (length xs)) (xs @ ys)"
  by (cases "n \<le> length xs") simp_all

definition rb_wraps :: "rb \<Rightarrow> byte list \<Rightarrow> bool" where
  "rb_wraps rb d \<longleftrightarrow> rb_size rb - rb_head rb \<le> 2 + length d + 2"

lemma rb_write_entry_ok:
  assumes "rb_head rb + 2 + length d \<le> length (rb_buf rb)"
    and "rb_head rb + 2 + length d < 4294967296"
  shows "rb_write_entry d (length d) rb =
    Some (rb\<lparr>rb_buf := patch (rb_buf rb) (rb_head rb) (enc d),
             rb_head := rb_head rb + 2 + length d\<rparr>)"
proof -
  have "mem_write (patch (rb_buf rb) (rb_head rb) (le16_bytes (length d))) (rb_head rb + 2) d
      = Some (patch (rb_buf rb) (rb_head rb) (enc d))"
    using assms(1) patch_patch_next [of "rb_head rb" "le16_bytes (length d)" d "rb_buf rb"]
    by (simp add: mem_write_def enc_def)
  then show ?thesis
    using assms by (simp add: rb_write_entry_def mem_simps width_simps Let_def)
qed

lemma rb_wrap_no:
  assumes "\<not> rb_wraps rb d" and "rb_head rb \<le> rb_size rb" and "rb_size rb < 4294967296"
  shows "rb_wrap (2 + length d) rb = Some rb"
  using assms by (simp add: rb_wrap_def rb_wraps_def width_simps)

lemma rb_wrap_yes:
  assumes "rb_wraps rb d" and "rb_head rb + 2 \<le> length (rb_buf rb)"
    and "length (rb_buf rb) = rb_size rb" and "rb_size rb < 4294967296"
  shows "rb_wrap (2 + length d) rb =
    Some (rb\<lparr>rb_buf := patch (rb_buf rb) (rb_head rb) (le16_bytes 0),
             rb_tail := (if rb_tail rb \<ge> rb_head rb then 0 else rb_tail rb),
             rb_rdtail := (if rb_rdtail rb \<ge> rb_head rb then 0 else rb_rdtail rb),
             rb_head := 0\<rparr>)"
  using assms by (simp add: rb_wrap_def rb_wraps_def width_simps mem_simps)

lemma rb_push_steps:
  assumes "d \<noteq> []" and "length d < 65536"
    and "rb_wrap (2 + length d) rb = Some rb1"
    and "rb_make_room (2 + length d) rb1 = Returns rb2"
    and "rb_write_entry d (length d) rb2 = Some rb3"
  shows "rb_push rb d (length d) = Returns (0, rb3)"
  using assms by (simp add: rb_push_def width_simps)

text \<open>A push that does not wrap writes the entry at the head, once there is room.\<close>

lemma rb_push_no_wrap:
  assumes nw: "\<not> rb_wraps rb d" and d: "d \<noteq> []" "length d \<le> M" and M: "M < 65536"
    and len: "length (rb_buf rb) = rb_size rb" "rb_size rb < 4294967296"
    and c: "chain M (rb_buf rb) 0 es (rb_head rb)"
    and room: "rb_make_room (2 + length d) rb = Returns (rb\<lparr>rb_tail := t, rb_rdtail := r\<rparr>)"
  obtains rb' where "rb_push rb d (length d) = Returns (0, rb')"
    "rb_buf rb' = patch (rb_buf rb) (rb_head rb) (enc d)" "rb_head rb' = rb_head rb + 2 + length d"
    "rb_tail rb' = t" "rb_rdtail rb' = r" "rb_size rb' = rb_size rb" "length (rb_buf rb') = rb_size rb'"
    "chain M (rb_buf rb') 0 (es @ [d]) (rb_head rb')" "rb_head rb + 2 + length d + 2 < rb_size rb"
proof -
  obtain rb2 where rb2: "rb2 = rb\<lparr>rb_tail := t, rb_rdtail := r\<rparr>" by simp
  obtain rb' where rb': "rb' = rb2\<lparr>rb_buf := patch (rb_buf rb) (rb_head rb) (enc d),
      rb_head := rb_head rb + 2 + length d\<rparr>" by simp
  have sel: "rb_buf rb' = patch (rb_buf rb) (rb_head rb) (enc d)" "rb_head rb' = rb_head rb + 2 + length d"
      "rb_tail rb' = t" "rb_rdtail rb' = r" "rb_size rb' = rb_size rb"
    by (simp_all add: rb' rb2)
  have fit: "rb_head rb + 2 + length d + 2 < rb_size rb"
    using nw chain_le [OF c] len by (simp add: rb_wraps_def)
  have "rb_write_entry d (length d) rb2 = Some rb'"
    using rb_write_entry_ok [of rb2 d] fit len by (simp add: rb' rb2)
  then have "rb_push rb d (length d) = Returns (0, rb')"
    using rb_push_steps [OF d(1) _ rb_wrap_no [OF nw] room] d M len fit unfolding rb2 by simp
  moreover have "chain M (rb_buf rb') 0 (es @ [d]) (rb_head rb')"
    using chain_patch_snoc [OF c, of d] d fit len by (simp add: sel add.assoc)
  ultimately show thesis using that sel fit len by simp
qed

text \<open>What a push of the entry \<open>d\<close> in the state \<open>rb\<close> achieves.\<close>

definition rb_pushed :: "nat \<Rightarrow> rb \<Rightarrow> byte list \<Rightarrow> rb \<Rightarrow> bool" where
  "rb_pushed M rb d rb' \<longleftrightarrow>
     rb_push rb d (length d) = Returns (0, rb') \<and> rb_inv M rb' \<and>
     (\<exists>k. rb_log rb' = drop k (rb_log rb) @ [d]) \<and>
     (rb_unread rb \<noteq> [] \<or> \<not> rb_wraps rb d \<longrightarrow> (\<exists>k. rb_unread rb' = drop k (rb_unread rb) @ [d])) \<and>
     (rb_rdtail rb = rb_head rb \<and> rb_wraps rb d \<and> (rb_tail rb = 0 \<or> rb_head rb < rb_tail rb)
        \<longrightarrow> rb_unread rb' = rb_log rb') \<and>
     (rb_rdtail rb = rb_head rb \<and> rb_wraps rb d \<and> 0 < rb_tail rb \<and> rb_tail rb \<le> rb_head rb
        \<longrightarrow> rb_unread rb' = [d]) \<and>
     (rb_tail rb \<le> rb_head rb \<and> \<not> rb_wraps rb d \<longrightarrow>
        rb_log rb' = rb_log rb @ [d] \<and> rb_unread rb' = rb_unread rb @ [d])"

lemma rb_inv_linearI:
  "length (rb_buf rb) = rb_size rb \<Longrightarrow> fits M (rb_size rb) \<Longrightarrow> rb_linear M rb ds es \<Longrightarrow> rb_inv M rb"
  by (auto simp: rb_inv_def)

lemma rb_inv_wrappedI:
  "length (rb_buf rb) = rb_size rb \<Longrightarrow> fits M (rb_size rb) \<Longrightarrow> rb_wrapped M rb os es m \<Longrightarrow>
   rb_inv M rb"
  by (auto simp: rb_inv_def)

lemma rb_pushed_fresh:
  assumes "length (rb_buf rb) = rb_size rb" and "fits M (rb_size rb)" and "rb_fresh rb"
    and d: "d \<noteq> []" "length d \<le> M"
  shows "\<exists>rb'. rb_pushed M rb d rb'"
proof -
  have z: "rb_head rb = 0" "rb_tail rb = 0" "rb_rdtail rb = 0" "u16_at (rb_buf rb) 0 = Some 0"
    using assms(3) by (simp_all add: rb_fresh_def)
  have f: "M < 65536" "3 * (M + 2) + 2 < rb_size rb" "rb_size rb + M + 2 < 4294967296"
    using assms(2) by (simp_all add: fits_def)
  have nw: "\<not> rb_wraps rb d" using z f d by (simp add: rb_wraps_def)
  let ?rb' = "rb\<lparr>rb_buf := patch (rb_buf rb) 0 (enc d), rb_head := 2 + length d\<rparr>"
  have "rb_make_room (2 + length d) rb = Returns rb"
    using z by (subst rb_make_room.simps) (simp add: rb_skip_def)
  then have push: "rb_push rb d (length d) = Returns (0, ?rb')"
    using rb_push_steps [OF d(1) _ rb_wrap_no [OF nw] _ rb_write_entry_ok [of rb d]] z f d assms(1)
    by simp
  have lin: "rb_linear M ?rb' [] [d]"
    using chain_patch_snoc [of M "rb_buf rb" 0 "[]" 0 d] f d z assms(1)
    by (auto simp: rb_linear_def)
  have inv: "rb_inv M ?rb'"
    using f d assms(1,2) by (intro rb_inv_linearI [OF _ _ lin]) simp_all
  have "rb_log ?rb' = [d]" "rb_unread ?rb' = [d]"
    using rb_log_linear [OF lin f(1)] rb_unread_linear [OF lin f(1), of "[]"] z by simp_all
  then show ?thesis
    using push inv nw rb_entries_fresh [OF assms(3)]
    by (intro exI [of _ ?rb']) (simp add: rb_pushed_def)
qed

text \<open>After the head went back to offset 0: room is made in the lap that just ended.\<close>

lemma drag_split:
  assumes "os1 @ os2 = us @ vs" and "r = t + length (lay us)"
  shows "\<exists>ws. os2 = ws @ drop (length os1 - length us) vs \<and>
    drag t os1 r = t + length (lay os1) + length (lay ws)"
proof (cases "length us < length os1")
  case True
  have "os2 = drop (length os1) (us @ vs)"
    using assms(1) [symmetric] by simp
  with True have "os2 = drop (length os1 - length us) vs" by simp
  with True assms show ?thesis
    using drag_boundary [of us vs os1 os2 r t] by (intro exI [of _ "[]"]) simp
next
  case False
  then obtain ws where "us = os1 @ ws" "os2 = ws @ vs"
    using assms(1) by (auto simp: append_eq_append_conv2)
  with False assms show ?thesis
    using drag_boundary [of us vs os1 os2 r t] by (intro exI [of _ ws]) simp
qed

lemma drag_position:
  assumes "ds @ os1 @ os2 = us @ vs" and "length ds \<le> 1"
    and "t = length (lay ds)" and "r = length (lay us)"
  shows "(length us < length ds \<and> drag t os1 r = 0) \<or>
    (\<exists>us' ws. us = ds @ us' \<and> os2 = ws @ drop (length os1 - length us') vs \<and>
       drag t os1 r = t + length (lay os1) + length (lay ws))"
proof (cases "length us < length ds")
  case True
  then have "us = []" using assms(2) by (cases us) auto
  then have "r = 0" using assms(4) by simp
  moreover have "0 < t" using True assms(3) by (cases ds) auto
  ultimately show ?thesis using True by (simp add: drag_behind)
next
  case False
  let ?us' = "drop (length ds) us"
  have "take (length ds) (us @ vs) = ds" and "drop (length ds) (us @ vs) = os1 @ os2"
    using assms(1) [symmetric] by simp_all
  with False have "take (length ds) us = ds" and split: "os1 @ os2 = ?us' @ vs"
    by simp_all
  then have "us = ds @ ?us'"
    by (metis append_take_drop_id)
  then obtain us' where us': "us = ds @ us'" and split: "os1 @ os2 = us' @ vs"
    using split by blast
  then show ?thesis
    using drag_split [OF split, of r t] assms(3,4) by auto
qed

lemma rb_unread_after_room:
  assumes wr: "rb_wrapped M rb os2 [d] m" and M: "M < 65536"
    and len: "length (rb_buf rb) = rb_size rb"
    and tail: "rb_tail rb = t + length (lay os1)" and rd: "rb_rdtail rb = drag t os1 r"
    and pos: "ds @ os1 @ os2 = us @ vs" "length ds \<le> 1" "t = length (lay ds)" "r = length (lay us)"
  shows "(length us < length ds \<longrightarrow> rb_unread rb = [d]) \<and>
    (us = ds \<longrightarrow> rb_unread rb = os2 @ [d]) \<and> (\<exists>j. rb_unread rb = drop j vs @ [d])"
  using drag_position [OF pos]
proof (elim disjE exE conjE)
  assume "length us < length ds" and "drag t os1 r = 0"
  moreover from this have "rb_unread rb = [d]"
    using rb_unread_wrapped_current [OF wr M, of "[]"] rd by simp
  ultimately show ?thesis
    by (intro conjI impI) (auto intro: exI [of _ "length vs"])
next
  fix us' ws
  assume us': "us = ds @ us'" and os2: "os2 = ws @ drop (length os1 - length us') vs"
    and r: "drag t os1 r = t + length (lay os1) + length (lay ws)"
  have u: "rb_unread rb = drop (length os1 - length us') vs @ [d]"
    using rb_unread_wrapped [OF wr M len os2] rd tail r by simp
  have "us = ds \<longrightarrow> rb_unread rb = os2 @ [d]"
    using u us' pos(1) by auto
  with u us' show ?thesis by auto
qed

lemma rb_push_full_lap:
  assumes len: "length (rb_buf rb) = rb_size rb" and fits: "fits M (rb_size rb)"
    and head: "rb_head rb = 0" and c: "chain M (rb_buf rb) 0 (ds @ es) m"
    and mk: "u16_at (rb_buf rb) m = Some 0" and tail: "rb_tail rb = length (lay ds)"
    and ds: "length ds \<le> 1" and sz: "rb_size rb \<le> m + M + 4"
    and us: "ds @ es = us @ vs" and rd: "rb_rdtail rb = length (lay us)"
    and d: "d \<noteq> []" "length d \<le> M"
  shows "\<exists>rb2 rb' k. rb_make_room (2 + length d) rb = Returns rb2 \<and>
    rb_write_entry d (length d) rb2 = Some rb' \<and> rb_inv M rb' \<and>
    rb_log rb' = drop k es @ [d] \<and> (\<exists>j. rb_unread rb' = drop j vs @ [d]) \<and>
    (us = ds \<longrightarrow> rb_unread rb' = rb_log rb') \<and> (length us < length ds \<longrightarrow> rb_unread rb' = [d])"
proof -
  have f: "M < 65536" "3 * (M + 2) + 2 < rb_size rb" "rb_size rb + M + 2 < 4294967296"
    using fits by (simp_all add: fits_def)
  have m2: "m + 2 \<le> rb_size rb" using mk len by (auto dest: u16_at_SomeD)
  let ?e = "2 + length d"
  have em: "?e < m" using sz f d by simp
  have ces: "chain M (rb_buf rb) (rb_tail rb) es m"
    using c tail by (simp add: chain_append)
  obtain os1 os2 where es: "es = os1 @ os2" and lt: "?e < rb_tail rb + length (lay os1)"
    and room: "rb_make_room ?e rb = Returns (rb\<lparr>rb_tail := rb_tail rb + length (lay os1),
                  rb_rdtail := drag (rb_tail rb) os1 (rb_rdtail rb)\<rparr>)"
    using rb_make_room_within [OF ces, of ?e] head em m2 f by auto
  let ?t = "rb_tail rb + length (lay os1)"
  let ?r = "drag (rb_tail rb) os1 (rb_rdtail rb)"
  obtain rb2 where rb2: "rb2 = rb\<lparr>rb_tail := ?t, rb_rdtail := ?r\<rparr>" by simp
  obtain rb' where rb': "rb' = rb2\<lparr>rb_buf := patch (rb_buf rb) 0 (enc d), rb_head := ?e\<rparr>" by simp
  have sel: "rb_buf rb' = patch (rb_buf rb) 0 (enc d)" "rb_head rb' = ?e" "rb_tail rb' = ?t"
      "rb_rdtail rb' = ?r" "rb_size rb' = rb_size rb"
    by (simp_all add: rb' rb2)
  have stored: "rb_write_entry d (length d) rb2 = Some rb'"
    using rb_write_entry_ok [of rb2 d] head em m2 f len by (simp add: rb' rb2)
  have cur: "chain M (rb_buf rb') 0 [d] ?e"
    using chain_patch_snoc [of M "rb_buf rb" 0 "[]" 0 d] em m2 len d by (simp add: sel)
  have "chain M (rb_buf rb) ?t os2 m"
    using ces es by (simp add: chain_append)
  then have old: "chain M (rb_buf rb') ?t os2 m"
    using lt em m2 len unfolding sel by (intro chain_patch_after) simp_all
  have mk': "u16_at (rb_buf rb') m = Some 0"
    using mk em m2 len by (simp add: sel u16_at_patch_after)
  have pos: "ds @ os1 @ os2 = us @ vs" using us es by simp
  have "boundary 0 [d] ?r \<or> boundary ?t os2 ?r"
    using drag_position [OF pos ds tail rd] by (auto intro: boundaryI)
  then have wr: "rb_wrapped M rb' os2 [d] m"
    using cur old mk' lt sz by (simp add: rb_wrapped_def sel)
  have lens: "length (rb_buf rb') = rb_size rb'"
    using len em m2 by (simp add: sel)
  have inv: "rb_inv M rb'"
    using lens fits by (intro rb_inv_wrappedI [OF _ _ wr]) (simp_all add: sel)
  have log: "rb_log rb' = os2 @ [d]"
    by (rule rb_log_wrapped [OF wr f(1) lens])
  have unread: "(length us < length ds \<longrightarrow> rb_unread rb' = [d]) \<and>
      (us = ds \<longrightarrow> rb_unread rb' = os2 @ [d]) \<and> (\<exists>j. rb_unread rb' = drop j vs @ [d])"
    by (rule rb_unread_after_room [OF wr f(1) lens _ _ pos ds tail rd]) (simp_all add: sel)
  show ?thesis
    using room stored inv unread log es unfolding rb2 [symmetric]
    by (intro exI [of _ rb2] exI [of _ rb'] exI [of _ "length os1"]) auto
qed

lemma rb_linear_tail: "rb_linear M rb ds es \<Longrightarrow> rb_tail rb < rb_head rb"
  by (cases es) (auto simp: rb_linear_def chain_def)

lemma rb_pushed_linear_room:
  assumes len: "length (rb_buf rb) = rb_size rb" and fits: "fits M (rb_size rb)"
    and lin: "rb_linear M rb ds es" and nw: "\<not> rb_wraps rb d"
    and d: "d \<noteq> []" "length d \<le> M"
  shows "\<exists>rb'. rb_pushed M rb d rb'"
proof -
  have f: "M < 65536" "rb_size rb < 4294967296"
    using fits by (simp_all add: fits_def)
  have l: "chain M (rb_buf rb) 0 (ds @ es) (rb_head rb)" "es \<noteq> []" "length ds \<le> 1"
      "rb_tail rb = length (lay ds)" "boundary 0 (ds @ es) (rb_rdtail rb)"
    using lin by (simp_all add: rb_linear_def)
  obtain us vs where us: "ds @ es = us @ vs" "rb_rdtail rb = length (lay us)" "rb_unread rb = vs"
    by (rule rb_linear_reader [OF lin f(1)])
  have lt: "rb_tail rb < rb_head rb" by (rule rb_linear_tail [OF lin])
  have "rb_make_room (2 + length d) rb = Returns (rb\<lparr>rb_tail := rb_tail rb, rb_rdtail := rb_rdtail rb\<rparr>)"
    using lt by (simp add: rb_make_room_enough)
  then obtain rb' where push: "rb_push rb d (length d) = Returns (0, rb')"
    and sel: "rb_tail rb' = rb_tail rb" "rb_rdtail rb' = rb_rdtail rb" "rb_size rb' = rb_size rb"
      "length (rb_buf rb') = rb_size rb'" "rb_head rb' = rb_head rb + 2 + length d"
    and c: "chain M (rb_buf rb') 0 ((ds @ es) @ [d]) (rb_head rb')"
    and fit: "rb_head rb + 2 + length d + 2 < rb_size rb"
    by (rule rb_push_no_wrap [OF nw d f(1) len f(2) l(1)])
  have lin': "rb_linear M rb' ds (es @ [d])"
    using l c boundary_append [OF l(5), of "[d]"] fit sel by (simp add: rb_linear_def)
  have inv: "rb_inv M rb'" using sel fits by (intro rb_inv_linearI [OF _ _ lin']) simp_all
  have "rb_log rb' = rb_log rb @ [d]"
    using rb_log_linear [OF lin' f(1)] rb_log_linear [OF lin f(1)] by simp
  moreover have "rb_unread rb' = rb_unread rb @ [d]"
    using rb_unread_linear [OF lin' f(1), of us "vs @ [d]"] us sel by simp
  ultimately show ?thesis
    using push inv nw lt
    by (intro exI [of _ rb']) (auto simp: rb_pushed_def intro: exI [of _ 0])
qed

text \<open>A push that wraps: the tail and the reader go back to offset 0 when they were at the head or behind it.\<close>

lemma rb_push_wrap:
  assumes len: "length (rb_buf rb) = rb_size rb" and fits: "fits M (rb_size rb)"
    and wraps: "rb_wraps rb d" and d: "d \<noteq> []" "length d \<le> M" and head: "rb_head rb + 2 \<le> rb_size rb"
    and c: "chain M (rb_buf rb) 0 (ds @ es) (rb_head rb)" and ds: "length ds \<le> 1" "ds @ es = us @ vs"
    and t: "(if rb_tail rb \<ge> rb_head rb then 0 else rb_tail rb) = length (lay ds)"
    and r: "(if rb_rdtail rb \<ge> rb_head rb then 0 else rb_rdtail rb) = length (lay us)"
  obtains rb' k j where "rb_push rb d (length d) = Returns (0, rb')" "rb_inv M rb'"
    "rb_log rb' = drop k es @ [d]" "rb_unread rb' = drop j vs @ [d]"
    "us = ds \<longrightarrow> rb_unread rb' = rb_log rb'" "length us < length ds \<longrightarrow> rb_unread rb' = [d]"
proof -
  have f: "M < 65536" "rb_size rb < 4294967296"
    using fits by (simp_all add: fits_def)
  obtain rb1 where rb1: "rb1 = rb\<lparr>rb_buf := patch (rb_buf rb) (rb_head rb) (le16_bytes 0),
      rb_tail := length (lay ds), rb_rdtail := length (lay us), rb_head := 0\<rparr>" by simp
  have sel: "rb_buf rb1 = patch (rb_buf rb) (rb_head rb) (le16_bytes 0)" "rb_head rb1 = 0"
      "rb_tail rb1 = length (lay ds)" "rb_rdtail rb1 = length (lay us)" "rb_size rb1 = rb_size rb"
    by (simp_all add: rb1)
  have wrap: "rb_wrap (2 + length d) rb = Some rb1"
    using rb_wrap_yes [OF wraps _ len f(2)] head len unfolding t r by (simp add: rb1)
  have "\<exists>rb2 rb' k. rb_make_room (2 + length d) rb1 = Returns rb2 \<and>
    rb_write_entry d (length d) rb2 = Some rb' \<and> rb_inv M rb' \<and>
    rb_log rb' = drop k es @ [d] \<and> (\<exists>j. rb_unread rb' = drop j vs @ [d]) \<and>
    (us = ds \<longrightarrow> rb_unread rb' = rb_log rb') \<and> (length us < length ds \<longrightarrow> rb_unread rb' = [d])"
  proof (rule rb_push_full_lap [where m = "rb_head rb"])
    show "length (rb_buf rb1) = rb_size rb1" using len head by (simp add: sel)
    show "chain M (rb_buf rb1) 0 (ds @ es) (rb_head rb)"
      using c head len by (simp add: sel chain_patch_before)
    show "u16_at (rb_buf rb1) (rb_head rb) = Some 0"
      using head len by (simp add: sel u16_at_patch_marker)
    show "rb_size rb1 \<le> rb_head rb + M + 4"
      using wraps d by (simp add: sel rb_wraps_def)
  qed (use fits ds d in \<open>simp_all add: sel\<close>)
  then obtain rb2 rb' k j where st: "rb_make_room (2 + length d) rb1 = Returns rb2"
    "rb_write_entry d (length d) rb2 = Some rb'" and res: "rb_inv M rb'" "rb_log rb' = drop k es @ [d]"
    "rb_unread rb' = drop j vs @ [d]" "us = ds \<longrightarrow> rb_unread rb' = rb_log rb'"
    "length us < length ds \<longrightarrow> rb_unread rb' = [d]"
    by blast
  have "rb_push rb d (length d) = Returns (0, rb')"
    using rb_push_steps [OF d(1) _ wrap st] d f by simp
  then show thesis by (rule that [OF _ res])
qed

lemma rb_pushed_linear_wrap:
  assumes len: "length (rb_buf rb) = rb_size rb" and fits: "fits M (rb_size rb)"
    and lin: "rb_linear M rb ds es" and wraps: "rb_wraps rb d"
    and d: "d \<noteq> []" "length d \<le> M"
  shows "\<exists>rb'. rb_pushed M rb d rb'"
proof -
  have f: "M < 65536" using fits by (simp add: fits_def)
  have l: "chain M (rb_buf rb) 0 (ds @ es) (rb_head rb)" "length ds \<le> 1"
      "rb_tail rb = length (lay ds)" "rb_head rb + 2 \<le> rb_size rb"
    using lin by (simp_all add: rb_linear_def)
  note lt = rb_linear_tail [OF lin]
  obtain us vs where us: "ds @ es = us @ vs" "rb_rdtail rb = length (lay us)" "rb_unread rb = vs"
    "rb_head rb = length (lay us) + length (lay vs)"
    by (rule rb_linear_reader [OF lin f])
  let ?us = "if vs = [] then [] else us" and ?vs = "if vs = [] then ds @ es else vs"
  have split: "ds @ es = ?us @ ?vs" using us(1) by simp
  have t: "(if rb_tail rb \<ge> rb_head rb then 0 else rb_tail rb) = length (lay ds)" using lt l(3) by simp
  have r: "(if rb_rdtail rb \<ge> rb_head rb then 0 else rb_rdtail rb) = length (lay ?us)"
    using us by (cases "vs = []") simp_all
  obtain rb' k j where push: "rb_push rb d (length d) = Returns (0, rb')" and inv: "rb_inv M rb'"
    and log: "rb_log rb' = drop k es @ [d]" and un: "rb_unread rb' = drop j ?vs @ [d]"
    and dup: "?us = ds \<longrightarrow> rb_unread rb' = rb_log rb'" and lag: "length ?us < length ds \<longrightarrow> rb_unread rb' = [d]"
    by (rule rb_push_wrap [OF len fits wraps d l(4,1,2) split t r])
  have caught: "rb_rdtail rb = rb_head rb \<longleftrightarrow> vs = []" using us by auto
  have empty: "rb_tail rb = 0 \<longleftrightarrow> ds = []" using l(3) by simp
  show ?thesis
    using push inv log un dup lag us(3) wraps lt caught empty rb_log_linear [OF lin f]
    by (intro exI [of _ rb']) (auto simp: rb_pushed_def)
qed

lemma rb_pushed_wrapped_room:
  assumes len: "length (rb_buf rb) = rb_size rb" and fits: "fits M (rb_size rb)"
    and wr: "rb_wrapped M rb os es m" and nw: "\<not> rb_wraps rb d"
    and d: "d \<noteq> []" "length d \<le> M" and room: "rb_head rb + (2 + length d) < m"
  shows "\<exists>rb'. rb_pushed M rb d rb'"
proof -
  have f: "M < 65536" "rb_size rb < 4294967296" "rb_size rb + M + 2 < 4294967296"
    using fits by (simp_all add: fits_def)
  note mk = rb_wrapped_marker [OF wr len]
  have w: "chain M (rb_buf rb) 0 es (rb_head rb)" "es \<noteq> []"
      "chain M (rb_buf rb) (rb_tail rb) os m" "u16_at (rb_buf rb) m = Some 0"
      "rb_head rb < rb_tail rb" "rb_size rb \<le> m + M + 4"
    using wr by (simp_all add: rb_wrapped_def)
  let ?e = "2 + length d"
  obtain os1 os2 where os: "os = os1 @ os2"
    and lt: "rb_head rb + ?e < rb_tail rb + length (lay os1)"
    and mr: "rb_make_room ?e rb = Returns (rb\<lparr>rb_tail := rb_tail rb + length (lay os1),
                  rb_rdtail := drag (rb_tail rb) os1 (rb_rdtail rb)\<rparr>)"
    using rb_make_room_within [OF w(3), of ?e] w(5) room mk f by auto
  let ?t = "rb_tail rb + length (lay os1)" and ?r = "drag (rb_tail rb) os1 (rb_rdtail rb)"
  obtain rb' where push: "rb_push rb d (length d) = Returns (0, rb')"
    and sel: "rb_buf rb' = patch (rb_buf rb) (rb_head rb) (enc d)" "rb_head rb' = rb_head rb + 2 + length d"
      "rb_tail rb' = ?t" "rb_rdtail rb' = ?r" "rb_size rb' = rb_size rb"
    and lens: "length (rb_buf rb') = rb_size rb'" and cur: "chain M (rb_buf rb') 0 (es @ [d]) (rb_head rb')"
    by (rule rb_push_no_wrap [OF nw d f(1) len f(2) w(1) mr])
  have "chain M (rb_buf rb) ?t os2 m"
    using w(3) os by (simp add: chain_append)
  then have old: "chain M (rb_buf rb') ?t os2 m"
    using lt room mk len unfolding sel by (intro chain_patch_after) simp_all
  have mk': "u16_at (rb_buf rb') m = Some 0"
    using w(4) room mk len by (simp add: sel u16_at_patch_after)
  have shape: "rb_wrapped M rb' os2 (es @ [d]) m" if "boundary 0 es ?r \<or> boundary ?t os2 ?r"
    using that w(6) old cur mk' lt by (auto simp: rb_wrapped_def sel boundary_append)
  from wr f(1) len
  have "rb_wrapped M rb' os2 (es @ [d]) m \<and> (\<exists>k. rb_unread rb' = drop k (rb_unread rb) @ [d])"
  proof (cases rule: rb_wrapped_reader)
    case us: (current us vs)
    then have r: "?r = length (lay us)" using w(5) by (simp add: drag_behind)
    have "boundary 0 es ?r" using us(1) r by (intro boundaryI [of es us vs]) simp_all
    then have s: "rb_wrapped M rb' os2 (es @ [d]) m" using shape by blast
    have "rb_unread rb' = vs @ [d]"
      using us r by (intro rb_unread_wrapped_current [OF s f(1), of us]) (simp_all add: sel)
    with s us(3) show ?thesis by (auto intro: exI [of _ 0])
  next
    case us: (old us vs)
    obtain ws where ws: "os2 = ws @ drop (length os1 - length us) vs" and r: "?r = ?t + length (lay ws)"
      using drag_split [of os1 os2 us vs] us os by auto
    have s: "rb_wrapped M rb' os2 (es @ [d]) m" using shape boundaryI [OF ws r] by blast
    have "rb_unread rb' = drop (length os1 - length us) vs @ es @ [d]"
      using r by (intro rb_unread_wrapped [OF s f(1) lens ws]) (simp add: sel)
    then have "rb_unread rb' = drop (min (length os1 - length us) (length vs)) (rb_unread rb) @ [d]"
      unfolding us(3) append_assoc [symmetric] append_drop_min .
    with s show ?thesis by blast
  qed
  moreover have "os2 @ es = drop (length os1) (rb_log rb)"
    using rb_log_wrapped [OF wr f(1) len] os by simp
  ultimately show ?thesis
    using push nw w(5) lens fits rb_inv_wrappedI [of rb' M os2 "es @ [d]" m]
      rb_log_wrapped [OF _ f(1) lens, of os2 "es @ [d]" m]
    by (intro exI [of _ rb']) (auto simp: rb_pushed_def sel)
qed

lemma rb_pushed_wrapped_crossing:
  assumes len: "length (rb_buf rb) = rb_size rb" and fits: "fits M (rb_size rb)"
    and wr: "rb_wrapped M rb os es m" and nw: "\<not> rb_wraps rb d"
    and d: "d \<noteq> []" "length d \<le> M" and room: "m \<le> rb_head rb + (2 + length d)"
  shows "\<exists>rb'. rb_pushed M rb d rb'"
proof -
  have f: "M < 65536" "3 * (M + 2) + 2 < rb_size rb" "rb_size rb < 4294967296" "rb_size rb + M + 2 < 4294967296"
    using fits by (simp_all add: fits_def)
  note mk = rb_wrapped_marker [OF wr len]
  have w: "chain M (rb_buf rb) 0 es (rb_head rb)" "es \<noteq> []"
      "chain M (rb_buf rb) (rb_tail rb) os m" "u16_at (rb_buf rb) m = Some 0"
      "rb_head rb < rb_tail rb" "rb_size rb \<le> m + M + 4"
    using wr by (simp_all add: rb_wrapped_def)
  let ?e = "2 + length d"
  have fit: "rb_head rb + ?e + 2 < rb_size rb"
    using nw mk by (simp add: rb_wraps_def)
  obtain d0 es' where es: "es = d0 # es'" using w(2) by (cases es) auto
  have "length d0 \<le> M" using w(1) es by (simp add: chain_def)
  then have es': "es' \<noteq> []"
    using w(1,6) es room f d by (auto simp: chain_def)
  let ?r = "drag (rb_tail rb) os (rb_rdtail rb)"
  let ?r' = "if ?r = m then 2 + length d0 else ?r"
  have mr: "rb_make_room ?e rb = Returns (rb\<lparr>rb_tail := 2 + length d0, rb_rdtail := ?r'\<rparr>)"
    using rb_make_room_crossing [OF w(3,4) _ es' w(5) room _ f(1)] w(1) es fit f by simp
  obtain rb' where push: "rb_push rb d (length d) = Returns (0, rb')"
    and sel: "rb_head rb' = rb_head rb + 2 + length d" "rb_tail rb' = 2 + length d0" "rb_rdtail rb' = ?r'"
      "rb_size rb' = rb_size rb"
    and lens: "length (rb_buf rb') = rb_size rb'" and cur: "chain M (rb_buf rb') 0 (es @ [d]) (rb_head rb')"
    by (rule rb_push_no_wrap [OF nw d f(1) len f(3) w(1) mr])
  have shape: "rb_linear M rb' [d0] (es' @ [d])" if "boundary 0 ([d0] @ (es' @ [d])) ?r'"
    unfolding rb_linear_def using that cur es fit by (simp add: sel)
  from wr f(1) len
  have "rb_linear M rb' [d0] (es' @ [d]) \<and> (\<exists>k. rb_unread rb' = drop k (rb_unread rb) @ [d])"
  proof (cases rule: rb_wrapped_reader)
    case us: (current us vs)
    then have r: "?r' = length (lay us)" using w(5) mk(2) by (simp add: drag_behind)
    have split: "[d0] @ (es' @ [d]) = us @ (vs @ [d])" using es us by simp
    have s: "rb_linear M rb' [d0] (es' @ [d])"
      using r by (intro shape boundaryI [OF split]) simp
    have "rb_unread rb' = vs @ [d]"
      using r by (intro rb_unread_linear [OF s f(1) split]) (simp add: sel)
    with s us(3) show ?thesis by (auto intro: exI [of _ 0])
  next
    case us: (old us vs)
    have "?r = m" using drag_split [of os "[]" us vs] us chain_end [OF w(3)] by auto
    then have r: "?r' = 2 + length d0" by simp
    have s: "rb_linear M rb' [d0] (es' @ [d])"
      using r by (intro shape boundaryI [of _ "[d0]"]) simp_all
    have "rb_unread rb' = es' @ [d]"
      using r by (intro rb_unread_linear [OF s f(1), of "[d0]"]) (simp_all add: sel)
    also have "es' = drop (length vs + 1) (rb_unread rb)" using us(3) es by simp
    finally show ?thesis using s by blast
  qed
  moreover have "es' = drop (length os + 1) (rb_log rb)"
    using rb_log_wrapped [OF wr f(1) len] es by simp
  ultimately show ?thesis
    using push nw w(5) lens fits rb_inv_linearI [of rb' M "[d0]" "es' @ [d]"]
      rb_log_linear [OF _ f(1), of rb' "[d0]" "es' @ [d]"]
    by (intro exI [of _ rb']) (auto simp: rb_pushed_def sel)
qed

lemma rb_pushed_wrapped_wrap:
  assumes len: "length (rb_buf rb) = rb_size rb" and fits: "fits M (rb_size rb)"
    and wr: "rb_wrapped M rb os es m" and wraps: "rb_wraps rb d"
    and d: "d \<noteq> []" "length d \<le> M"
  shows "\<exists>rb'. rb_pushed M rb d rb'"
proof -
  have f: "M < 65536" using fits by (simp add: fits_def)
  note mk = rb_wrapped_marker [OF wr len]
  have w: "chain M (rb_buf rb) 0 ([] @ es) (rb_head rb)" "rb_head rb < rb_tail rb"
    using wr by (simp_all add: rb_wrapped_def)
  obtain us vs where us: "[] @ es = us @ vs"
    and r: "(if rb_rdtail rb \<ge> rb_head rb then 0 else rb_rdtail rb) = length (lay us)"
    and unread: "rb_rdtail rb \<noteq> rb_head rb \<longrightarrow> (\<exists>ws. rb_unread rb = ws @ vs)"
    and caught: "rb_rdtail rb = rb_head rb \<longrightarrow> us = [] \<and> rb_unread rb = []"
    using wr f len
  proof (cases rule: rb_wrapped_reader)
    case c: (current us vs)
    show thesis
    proof (cases "vs = []")
      case True
      with c show thesis by (intro that [of "[]" es]) simp_all
    next
      case False
      with c show thesis by (intro that [of us vs]) simp_all
    qed
  next
    case (old us vs)
    with w(2) show thesis by (intro that [of "[]" es]) auto
  qed
  obtain rb' k j where push: "rb_push rb d (length d) = Returns (0, rb')" and inv: "rb_inv M rb'"
    and log': "rb_log rb' = drop k es @ [d]" and un: "rb_unread rb' = drop j vs @ [d]"
    and dup: "us = [] \<longrightarrow> rb_unread rb' = rb_log rb'"
    by (rule rb_push_wrap [OF len fits wraps d _ w(1) _ us _ r]) (use mk w in simp_all)
  have "rb_log rb' = drop (length os + k) (rb_log rb) @ [d]"
    using rb_log_wrapped [OF wr f len] log' by simp
  moreover have "rb_unread rb \<noteq> [] \<longrightarrow> (\<exists>k. rb_unread rb' = drop k (rb_unread rb) @ [d])"
  proof
    assume "rb_unread rb \<noteq> []"
    then obtain ws where "rb_unread rb = ws @ vs" using unread caught by auto
    then have "rb_unread rb' = drop (length ws + j) (rb_unread rb) @ [d]" using un by simp
    then show "\<exists>k. rb_unread rb' = drop k (rb_unread rb) @ [d]" by blast
  qed
  ultimately show ?thesis
    using push inv wraps dup caught w(2)
    unfolding rb_pushed_def by (intro exI [of _ rb'] conjI impI) auto
qed

lemma rb_push_ok:
  assumes inv: "rb_inv M rb" and d: "d \<noteq> []" "length d \<le> M"
  shows "\<exists>rb'. rb_pushed M rb d rb'"
  using inv
proof (cases rule: rb_inv_cases)
  case fresh
  then show ?thesis using rb_pushed_fresh d by blast
next
  case (linear ds es)
  then show ?thesis
    using rb_pushed_linear_room rb_pushed_linear_wrap d by blast
next
  case (wrapped os es m)
  then show ?thesis
    using rb_pushed_wrapped_room rb_pushed_wrapped_crossing rb_pushed_wrapped_wrap d
    by (meson not_less)
qed

text \<open>A trace buffer that was cleared.\<close>

lemma cleared_ring: "u16_at (replicate TRACE_RB_SIZE 0) 0 = Some 0"
proof -
  have "2 \<le> TRACE_RB_SIZE" by (simp add: TRACE_RB_SIZE_def)
  then show ?thesis by (simp add: u16_at_def mem_read_def chunk_def min_def)
qed

end
