(* ===== verification/Trace_Store.thy ===== *)
theory Trace_Store
  imports Prelude
begin

text \<open>
  The interface between the log layer, which stores the firmware's traces, and the
  debugfs reader of \<open>debug.c\<close>, which resets the read position when the traces file is
  opened and then pops entry after entry (\<open>struct debug_trace_ops\<close>): a store keeps a log
  of entries, of which the reader has consumed a part.

  \<open>push_all\<close> and \<open>drain\<close> are the two clients: a producer storing a list of traces and a
  reader popping a number of them.
\<close>

fun push_all :: "('s \<Rightarrow> byte list \<Rightarrow> 's option) \<Rightarrow> 's \<Rightarrow> byte list list \<Rightarrow> 's option" where
  "push_all push s [] = Some s"
| "push_all push s (d # ds) = do { s \<leftarrow> push s d; push_all push s ds }"

fun drain :: "('s \<Rightarrow> (byte list option \<times> 's) option) \<Rightarrow> nat \<Rightarrow> 's \<Rightarrow> (byte list list \<times> 's) option" where
  "drain pop 0 s = Some ([], s)"
| "drain pop (Suc n) s = do {
     (e, s) \<leftarrow> pop s;
     (case e of
        None \<Rightarrow> Some ([], s)
      | Some d \<Rightarrow> do { (ds, s) \<leftarrow> drain pop n s; Some (d # ds, s) }) }"

locale trace_store =
  fixes M :: nat
    and inv :: "'s \<Rightarrow> bool"
    and push :: "'s \<Rightarrow> byte list \<Rightarrow> 's option"
    and pop :: "'s \<Rightarrow> (byte list option \<times> 's) option"
    and reset :: "'s \<Rightarrow> 's"
    and log :: "'s \<Rightarrow> byte list list"
    and unread :: "'s \<Rightarrow> byte list list"
  assumes push_law: "inv s \<Longrightarrow> d \<noteq> [] \<Longrightarrow> length d \<le> M \<Longrightarrow>
      \<exists>s' k. push s d = Some s' \<and> inv s' \<and> log s' = drop k (log s) @ [d]"
    and pop_empty_law: "inv s \<Longrightarrow> unread s = [] \<Longrightarrow> pop s = Some (None, s)"
    and pop_law: "inv s \<Longrightarrow> unread s = d # ds \<Longrightarrow>
      \<exists>s'. pop s = Some (Some d, s') \<and> inv s' \<and> unread s' = ds \<and> log s' = log s"
    and reset_inv_law: "inv s \<Longrightarrow> inv (reset s)"
    and reset_unread_law: "inv s \<Longrightarrow> unread (reset s) = log s"
    and reset_log_law: "inv s \<Longrightarrow> log (reset s) = log s"
begin

lemma push_all_log:
  assumes "inv s" and "\<forall>d \<in> set ds. d \<noteq> [] \<and> length d \<le> M"
  shows "\<exists>s' k. push_all push s ds = Some s' \<and> inv s' \<and> log s' = drop k (log s @ ds) \<and>
           (ds \<noteq> [] \<longrightarrow> k < length (log s @ ds))"
  using assms
proof (induction ds arbitrary: s)
  case Nil
  then show ?case by (auto intro: exI [of _ 0])
next
  case (Cons d ds)
  then obtain s1 k1 where 1: "push s d = Some s1" "inv s1" "log s1 = drop k1 (log s) @ [d]"
    using push_law [of s d] by auto
  obtain s2 k2 where 2: "push_all push s1 ds = Some s2" "inv s2" "log s2 = drop k2 (log s1 @ ds)"
    "ds \<noteq> [] \<longrightarrow> k2 < length (log s1 @ ds)"
    using Cons.IH [OF 1(2)] Cons.prems(2) by auto
  have k2: "k2 < length (log s1 @ ds) \<or> ds = []" using 2(4) by auto
  let ?k1 = "min k1 (length (log s))"
  have eq: "log s1 @ ds = drop ?k1 (log s @ d # ds)"
    using 1(3) by (cases "k1 \<le> length (log s)") simp_all
  show ?case
  proof (cases "ds = []")
    case True
    then have "log s1 = drop ?k1 (log s @ [d])" using eq by simp
    with True 1 show ?thesis by (auto intro!: exI [of _ ?k1])
  next
    case False
    then have "k2 + ?k1 < length (log s @ d # ds)"
      using 2(4) eq by simp
    moreover have "log s2 = drop (k2 + ?k1) (log s @ d # ds)"
      using 2(3) eq by simp
    ultimately show ?thesis using 1 2 by (auto intro!: exI [of _ "k2 + ?k1"])
  qed
qed

lemma drain_unread:
  assumes "inv s"
  shows "\<exists>s'. drain pop n s = Some (take n (unread s), s') \<and> inv s' \<and>
           unread s' = drop n (unread s) \<and> log s' = log s"
  using assms
proof (induction n arbitrary: s)
  case 0
  then show ?case by simp
next
  case (Suc n)
  show ?case
  proof (cases "unread s")
    case Nil
    then show ?thesis using pop_empty_law [OF Suc.prems] Suc.prems by simp
  next
    case (Cons d ds)
    then obtain s1 where "pop s = Some (Some d, s1)" "inv s1" "unread s1 = ds" "log s1 = log s"
      using pop_law [OF Suc.prems] by blast
    with Suc.IH [of s1] Cons show ?thesis by auto
  qed
qed

lemma open_and_drain:
  assumes "inv s" and "length (log s) \<le> n"
  shows "\<exists>s'. drain pop n (reset s) = Some (log s, s') \<and> inv s' \<and> unread s' = []"
  using drain_unread [OF reset_inv_law [OF assms(1)], of n] assms
  by (auto simp: reset_unread_law)

lemma store_then_read:
  assumes "inv s" and "log s = []" and "\<forall>d \<in> set ds. d \<noteq> [] \<and> length d \<le> M"
    and "length ds \<le> n"
  shows "\<exists>s1 s2 k. push_all push s ds = Some s1 \<and> drain pop n (reset s1) = Some (drop k ds, s2) \<and>
           (ds \<noteq> [] \<longrightarrow> k < length ds)"
proof -
  obtain s1 k where 1: "push_all push s ds = Some s1" "inv s1" "log s1 = drop k ds"
    "ds \<noteq> [] \<longrightarrow> k < length ds"
    using push_all_log [OF assms(1,3)] assms(2) by auto
  moreover have "length (log s1) \<le> n"
    using 1(3) assms(4) by simp
  then obtain s2 where "drain pop n (reset s1) = Some (drop k ds, s2)"
    using open_and_drain [OF 1(2), of n] 1(3) by auto
  ultimately show ?thesis by blast
qed

end

end
