(* ===== verification/Rb_Props.thy ===== *)
theory Rb_Props
  imports Rb_Refine Trace_Store
begin

text \<open>
  The properties of the trace ring buffer.  \<open>rb_store_push\<close> and \<open>rb_store_pop\<close> are the two
  operations as their callers use them (the results of \<open>rb_push\<close> and the length of
  \<open>rb_pop\<close> dropped, divergence and faults both \<open>None\<close>), so that the buffer provides the
  interface \<open>trace_store\<close>; \<open>rb_run\<close> runs any sequence of operations.
\<close>

definition rb_store_push :: "rb \<Rightarrow> byte list \<Rightarrow> rb option" where
  "rb_store_push rb d =
     (case rb_push rb d (length d) of Some (Some (_, rb')) \<Rightarrow> Some rb' | _ \<Rightarrow> None)"

definition rb_store_pop :: "rb \<Rightarrow> (byte list option \<times> rb) option" where
  "rb_store_pop rb = map_option (\<lambda>((e, n), rb'). (e, rb')) (rb_pop True rb)"

lemma rb_inv_tail: "rb_inv M rb \<Longrightarrow> rb_inv M (rb_reset rb)"
proof (induction rule: rb_inv_cases)
  case fresh
  then show ?case by (simp add: rb_inv_def rb_fresh_def rb_reset_def)
next
  case (linear ds es)
  then have "rb_linear M (rb_reset rb) ds es"
    by (auto simp: rb_linear_def rb_reset_def intro: boundaryI [of _ ds es])
  with linear show ?case
    by (intro rb_inv_linearI [where ds = ds and es = es]) (simp_all add: rb_reset_def)
next
  case (wrapped os es m)
  then have "rb_wrapped M (rb_reset rb) os es m"
    by (auto simp: rb_wrapped_def rb_reset_def)
  with wrapped show ?case
    by (intro rb_inv_wrappedI [where os = os and es = es and m = m]) (simp_all add: rb_reset_def)
qed

lemma rb_reset_entries: "rb_unread (rb_reset rb) = rb_log rb" "rb_log (rb_reset rb) = rb_log rb"
  by (simp_all add: rb_unread_def rb_log_def rb_reset_def rb_entries_from_def)

interpretation rb_store: trace_store M "rb_inv M" rb_store_push rb_store_pop rb_reset rb_log rb_unread
  for M
proof
  fix rb and d :: "byte list"
  assume "rb_inv M rb" and "d \<noteq> []" and "length d \<le> M"
  then show "\<exists>rb' k. rb_store_push rb d = Some rb' \<and> rb_inv M rb' \<and>
      rb_log rb' = drop k (rb_log rb) @ [d]"
    using rb_push_ok [of M rb d] by (auto simp: rb_pushed_def rb_store_push_def)
next
  fix rb
  assume "rb_inv M rb" and "rb_unread rb = []"
  then show "rb_store_pop rb = Some (None, rb)"
    by (simp add: rb_store_pop_def rb_pop_Nil)
next
  fix rb d ds
  assume "rb_inv M rb" and "rb_unread rb = d # ds"
  then show "\<exists>rb'. rb_store_pop rb = Some (Some d, rb') \<and> rb_inv M rb' \<and>
      rb_unread rb' = ds \<and> rb_log rb' = rb_log rb"
    using rb_pop_Cons [of M rb d ds] by (auto simp: rb_store_pop_def)
qed (simp_all add: rb_inv_tail rb_reset_entries)

section \<open>Running sequences of operations\<close>

datatype rb_op = Push "byte list" | Pop | Next_Size | Reset

fun rb_step :: "rb \<Rightarrow> rb_op \<Rightarrow> (byte list list \<times> rb) run" where
  "rb_step rb (Push d) =
     map_option (map_option (\<lambda>(_, rb'). ([], rb'))) (rb_push rb d (length d))"
| "rb_step rb Pop =
     Some (map_option (\<lambda>((e, _), rb'). (case e of None \<Rightarrow> [] | Some d \<Rightarrow> [d], rb')) (rb_pop True rb))"
| "rb_step rb Next_Size = Some (map_option (\<lambda>(_, rb'). ([], rb')) (rb_next_size rb))"
| "rb_step rb Reset = Returns ([], rb_reset rb)"

fun rb_run :: "rb \<Rightarrow> rb_op list \<Rightarrow> (byte list list \<times> rb) run" where
  "rb_run rb [] = Returns ([], rb)"
| "rb_run rb (x # xs) =
     (case rb_step rb x of
        None \<Rightarrow> None
      | Some None \<Rightarrow> Some None
      | Some (Some (out, rb')) \<Rightarrow>
          map_option (map_option (\<lambda>(out', rb''). (out @ out', rb''))) (rb_run rb' xs))"

definition pushed_by :: "rb_op list \<Rightarrow> byte list set" where
  "pushed_by xs = {d. Push d \<in> set xs}"

definition ops_ok :: "nat \<Rightarrow> rb_op list \<Rightarrow> bool" where
  "ops_ok M xs \<longleftrightarrow> (\<forall>d \<in> pushed_by xs. length d \<le> M)"

lemma pushed_by_simps [simp]:
  "pushed_by [] = {}"
  "pushed_by (Push d # xs) = insert d (pushed_by xs)"
  "pushed_by (Pop # xs) = pushed_by xs"
  "pushed_by (Next_Size # xs) = pushed_by xs"
  "pushed_by (Reset # xs) = pushed_by xs"
  by (auto simp: pushed_by_def)

lemma rb_push_empty_payload: "rb_push rb [] 0 = Returns (1, rb)"
  by (simp add: rb_push_def)

lemma rb_pushed_log_set:
  assumes "rb_pushed M rb d rb'"
  shows "set (rb_log rb') \<subseteq> insert d (set (rb_log rb))"
proof -
  obtain k where "rb_log rb' = drop k (rb_log rb) @ [d]"
    using assms by (auto simp: rb_pushed_def)
  then show ?thesis by (rule set_drop_snoc)
qed

lemma rb_unread_pushed:
  assumes "rb_inv M rb" and "rb_pushed M rb d rb'"
  shows "set (rb_unread rb') \<subseteq> insert d (set (rb_unread rb) \<union> set (rb_log rb))"
proof -
  note log = rb_pushed_log_set [OF assms(2)]
  show ?thesis
  proof (cases "rb_unread rb \<noteq> [] \<or> \<not> rb_wraps rb d")
    case True
    then obtain k where "rb_unread rb' = drop k (rb_unread rb) @ [d]"
      using assms(2) unfolding rb_pushed_def by blast
    then have "set (rb_unread rb') \<subseteq> insert d (set (rb_unread rb))"
      by (rule set_drop_snoc)
    then show ?thesis by auto
  next
    case False
    have "rb_rdtail rb = rb_head rb"
      using assms(1) False by (cases rule: rb_inv_rdtail_cases) simp_all
    with False have "rb_unread rb' = rb_log rb' \<or> rb_unread rb' = [d]"
      using assms(2) unfolding rb_pushed_def by (metis gr0I not_less)
    with log show ?thesis by auto
  qed
qed

lemma rb_step_ok:
  assumes inv: "rb_inv M rb" and ok: "ops_ok M [x]"
  shows "\<exists>out rb'. rb_step rb x = Returns (out, rb') \<and> rb_inv M rb' \<and>
    set out \<union> set (rb_log rb') \<union> set (rb_unread rb')
      \<subseteq> pushed_by [x] \<union> set (rb_log rb) \<union> set (rb_unread rb)"
proof (cases x)
  case (Push d)
  show ?thesis
  proof (cases "d = []")
    case True
    then show ?thesis using Push inv by (auto simp: rb_push_empty_payload)
  next
    case False
    then obtain rb' where p: "rb_pushed M rb d rb'"
      using rb_push_ok [OF inv, of d] ok Push by (auto simp: ops_ok_def)
    with rb_pushed_log_set [OF p] rb_unread_pushed [OF inv p] Push show ?thesis
      by (auto simp: rb_pushed_def)
  qed
next
  case Pop
  show ?thesis
  proof (cases "rb_unread rb")
    case Nil
    then show ?thesis using Pop inv rb_pop_Nil [OF inv] by simp
  next
    case (Cons d ds)
    with Pop rb_pop_Cons [OF inv Cons] show ?thesis by auto
  qed
next
  case Next_Size
  show ?thesis
  proof (cases "rb_unread rb")
    case Nil
    then show ?thesis using Next_Size inv rb_next_size_Nil [OF inv] by simp
  next
    case (Cons d ds)
    with Next_Size rb_next_size_Cons [OF inv Cons] show ?thesis by auto
  qed
next
  case Reset
  then show ?thesis using inv by (simp add: rb_inv_tail rb_reset_entries)
qed

lemma rb_run_ok:
  assumes "rb_inv M rb" and "ops_ok M xs"
  shows "\<exists>out rb'. rb_run rb xs = Returns (out, rb') \<and> rb_inv M rb' \<and>
    set out \<union> set (rb_log rb') \<subseteq> pushed_by xs \<union> set (rb_log rb) \<union> set (rb_unread rb)"
  using assms
proof (induction xs arbitrary: rb)
  case Nil
  then show ?case by simp
next
  case (Cons x xs)
  have xs: "ops_ok M [x]" "ops_ok M xs" "pushed_by (x # xs) = pushed_by [x] \<union> pushed_by xs"
    using Cons.prems(2) by (cases x; auto simp: ops_ok_def)+
  obtain out rb1 where 1: "rb_step rb x = Returns (out, rb1)" "rb_inv M rb1"
    "set out \<union> set (rb_log rb1) \<union> set (rb_unread rb1)
      \<subseteq> pushed_by [x] \<union> set (rb_log rb) \<union> set (rb_unread rb)"
    using rb_step_ok [OF Cons.prems(1) xs(1)] by blast
  obtain out' rb2 where "rb_run rb1 xs = Returns (out', rb2)" "rb_inv M rb2"
    "set out' \<union> set (rb_log rb2) \<subseteq> pushed_by xs \<union> set (rb_log rb1) \<union> set (rb_unread rb1)"
    using Cons.IH [OF 1(2) xs(2)] by blast
  with 1 xs(3) show ?case by auto
qed

lemma rb_init_inv:
  assumes "fits M sz" and "length b = sz" and "u16_at b 0 = Some 0"
  shows "\<exists>rb. rb_init (Some b) sz = Inr rb \<and> rb_inv M rb \<and> rb_log rb = [] \<and> rb_unread rb = []"
  using assms rb_entries_fresh by (auto simp: rb_init_def rb_inv_def rb_fresh_def)

text \<open>
  A state that one iteration of the loop maps to itself is one the loop never leaves.
\<close>

lemma rb_make_room_loops:
  assumes "rb_head rb \<le> rb_tail rb" and "rb_tail rb \<le> u32 (rb_head rb + e)"
    and "rb_skip rb = Some (True, rb)"
  shows "rb_make_room e rb = None"
proof (rule ccontr)
  assume "rb_make_room e rb \<noteq> None"
  then obtain res where res: "rb_make_room e rb = Some res" by blast
  have "rb \<noteq> rb \<or> e \<noteq> e"
  proof (rule rb_make_room.raw_induct [where P = "\<lambda>e' q r. q \<noteq> rb \<or> e' \<noteq> e", OF _ res])
    fix f e' q r
    assume IH: "\<And>e' q r. f e' q = Some r \<Longrightarrow> q \<noteq> rb \<or> e' \<noteq> e"
      and eq: "(if rb_head q \<le> rb_tail q \<and> rb_tail q \<le> u32 (rb_head q + e')
        then case rb_skip q of None \<Rightarrow> Some None
             | Some (skipped, q1) \<Rightarrow>
                 let q2 = if rb_tail q = rb_rdtail q
                          then q1\<lparr>rb_rdtail := rb_tail q1\<rparr> else q1
                 in if skipped then f e' q2 else Some (Some q2)
        else Some (Some q)) = Some r"
    show "q \<noteq> rb \<or> e' \<noteq> e"
    proof (rule ccontr)
      assume "\<not> (q \<noteq> rb \<or> e' \<noteq> e)"
      then have q: "q = rb" "e' = e" by auto
      have same: "(if rb_tail rb = rb_rdtail rb then rb\<lparr>rb_rdtail := rb_tail rb\<rparr> else rb) = rb"
        by (cases rb) simp
      have "f e rb = Some r"
        using eq assms unfolding q by (simp add: Let_def same split del: if_split)
      with IH show False by blast
    qed
  qed
  then show False by simp
qed

section \<open>Properties\<close>






text \<open>A ring of 15 bytes, used in the examples: its buffer fits entries of two bytes.\<close>

definition ring15 :: rb where
  "ring15 = \<lparr>rb_buf = replicate 15 0, rb_size = 15, rb_head = 0, rb_tail = 0, rb_rdtail = 0\<rparr>"

lemma ring15_inv: "rb_inv 2 ring15"
  by (simp add: ring15_def rb_inv_def fits_def rb_fresh_def u16_at_def mem_read_def chunk_def)


text \<open>
  Claim C19. \<open>rb_next_size\<close> and \<open>rb_pop\<close> implement the reader of the abstract log: with
  nothing unread they report size 0 and the null pointer and change nothing; otherwise
  the size reported is that of the oldest unread entry, popping returns exactly that entry
  and leaves the rest unread, and neither changes what is retained.
\<close>

theorem rb_pop_refines_dequeue:
  assumes "rb_inv M rb"
  shows "(case rb_unread rb of
      [] \<Rightarrow> rb_next_size rb = Some (0, rb) \<and> rb_pop alloc rb = Some ((None, 0), rb)
    | d # ds \<Rightarrow>
        (\<exists>rb'. rb_next_size rb = Some (length d, rb') \<and> rb_unread rb' = d # ds \<and>
           rb_log rb' = rb_log rb \<and> rb_inv M rb') \<and>
        (\<exists>rb'. rb_pop True rb = Some ((Some d, length d), rb') \<and> rb_unread rb' = ds \<and>
           rb_log rb' = rb_log rb \<and> rb_inv M rb'))"
proof (cases "rb_unread rb")
  case Nil
  then show ?thesis using rb_pop_Nil [OF assms] rb_next_size_Nil [OF assms] by simp
next
  case (Cons d ds)
  then show ?thesis
    using rb_pop_Cons [OF assms Cons] rb_next_size_Cons [OF assms Cons] by auto
qed

lemma rb_pop_refines_dequeue_witness:
  "case rb_unread ring15 of
      [] \<Rightarrow> rb_next_size ring15 = Some (0, ring15) \<and> rb_pop False ring15 = Some ((None, 0), ring15)
    | d # ds \<Rightarrow>
        (\<exists>rb'. rb_next_size ring15 = Some (length d, rb') \<and> rb_unread rb' = d # ds \<and>
           rb_log rb' = rb_log ring15 \<and> rb_inv 2 rb') \<and>
        (\<exists>rb'. rb_pop True ring15 = Some ((Some d, length d), rb') \<and> rb_unread rb' = ds \<and>
           rb_log rb' = rb_log ring15 \<and> rb_inv 2 rb')"
  by (rule rb_pop_refines_dequeue [OF ring15_inv])

text \<open>
  First in, first out for a lagging reader: when some entry is still unread, or
  the push does not wrap to the start of the buffer, what is unread after a push is what
  was unread before, less some of its oldest entries, followed by the new entry.
\<close>

lemma rb_push_fifo:
  assumes "rb_inv M rb" and "d \<noteq> []" and "length d \<le> M"
    and "rb_unread rb \<noteq> [] \<or> \<not> rb_wraps rb d"
  shows "\<exists>rb' k. rb_push rb d (length d) = Returns (0, rb') \<and>
    rb_unread rb' = drop k (rb_unread rb) @ [d]"
  using rb_push_ok [OF assms(1-3)] assms(4) unfolding rb_pushed_def by blast


text \<open>The example ring after three entries of two bytes were pushed and popped.\<close>

definition ring15_read :: rb where
  "ring15_read = \<lparr>rb_buf = [2, 0, 1, 1, 2, 0, 2, 2, 2, 0, 3, 3, 0, 0, 0], rb_size = 15,
     rb_head = 12, rb_tail = 0, rb_rdtail = 12\<rparr>"


text \<open>
  The memory \<open>rb_init\<close> obtains is not cleared, and the first push looks for
  entries to skip in it: when its first two bytes hold a number \<open>g\<close> greater than the size
  of the first entry, the push leaves the reader, past the head, at offset \<open>2 + g\<close>, where
  nothing was ever written.
\<close>

lemma rb_first_push_uninitialised:
  assumes "fits M sz" and "length b = sz" and "u16_at b 0 = Some g"
    and "d \<noteq> []" and "length d \<le> M" and "length d < g" and "4 + g \<le> sz"
  shows "\<exists>rb rb'. rb_init (Some b) sz = Inr rb \<and> rb_push rb d (length d) = Returns (0, rb') \<and>
    rb_rdtail rb' = 2 + g \<and> rb_head rb' < rb_rdtail rb' \<and>
    u16_at (rb_buf rb') (rb_rdtail rb') = u16_at b (2 + g)"
proof -
  have f: "M < 65536" "3 * (M + 2) + 2 < sz" "sz + M + 2 < 4294967296"
    using assms(1) by (simp_all add: fits_def)
  let ?rb = "\<lparr>rb_buf = b, rb_size = sz, rb_head = 0, rb_tail = 0, rb_rdtail = 0\<rparr>"
  let ?rb1 = "?rb\<lparr>rb_tail := 2 + g, rb_rdtail := 2 + g\<rparr>"
  have "rb_make_room (2 + length d) ?rb = rb_make_room (2 + length d) ?rb1"
    using rb_make_room_entry [of ?rb "2 + length d" g] assms f by simp
  also have "\<dots> = Returns ?rb1"
    using assms f by (intro rb_make_room_enough) (simp add: width_simps)
  finally have room: "rb_make_room (2 + length d) ?rb = Returns ?rb1" .
  have nw: "\<not> rb_wraps ?rb d" using assms f by (simp add: rb_wraps_def)
  have "rb_push ?rb d (length d) =
      Returns (0, ?rb1\<lparr>rb_buf := patch b 0 (enc d), rb_head := 2 + length d\<rparr>)"
    using rb_push_steps [OF assms(4) _ rb_wrap_no [OF nw] room rb_write_entry_ok [of ?rb1 d]]
      assms f by simp
  moreover have "u16_at (patch b 0 (enc d)) (2 + g) = u16_at b (2 + g)"
    using assms f by (intro u16_at_patch_after) simp_all
  ultimately show ?thesis
    using assms(6) by (simp add: rb_init_def)
qed

lemma rb_first_push_uninitialised_witness:
  "\<exists>rb rb'. rb_init (Some [4, 0, 9, 9, 9, 9, 200, 0, 9, 9, 9, 9, 9, 9, 9]) 15 = Inr rb \<and>
    rb_push rb [1, 2] (length [1, 2 :: byte]) = Returns (0, rb') \<and>
    rb_rdtail rb' = 2 + 4 \<and> rb_head rb' < rb_rdtail rb' \<and>
    u16_at (rb_buf rb') (rb_rdtail rb') =
      u16_at [4, 0, 9, 9, 9, 9, 200, 0, 9, 9, 9, 9, 9, 9, 9] (2 + 4)"
  by (rule rb_first_push_uninitialised [where M = 2])
    (simp_all add: fits_def u16_at_def mem_read_def chunk_def)

text \<open>
  Claim C40. The size bound is needed for termination: in a ring of 8 bytes, which
  \<open>rb_init\<close> accepts like any other size, the second push of a two-byte entry never
  returns, because the loop that makes room goes round the only entry for ever.
\<close>

theorem rb_push_diverges_when_too_small:
  "\<exists>rb rb1. rb_init (Some [0, 0, 0, 0, 0, 0, 0, 0]) 8 = Inr rb \<and>
     rb_push rb [1, 1] 2 = Returns (0, rb1) \<and> rb_push rb1 [2, 2] 2 = None"
proof -
  let ?rb = "\<lparr>rb_buf = [0, 0, 0, 0, 0, 0, 0, 0], rb_size = 8, rb_head = 0, rb_tail = 0, rb_rdtail = 0\<rparr>"
  let ?b = "[2, 0, 1, 1, 0, 0, 0, 0] :: byte list"
  let ?rb1 = "\<lparr>rb_buf = ?b, rb_size = 8, rb_head = 4, rb_tail = 0, rb_rdtail = 0\<rparr>"
  let ?rb2 = "\<lparr>rb_buf = ?b, rb_size = 8, rb_head = 0, rb_tail = 0, rb_rdtail = 0\<rparr>"
  let ?rb3 = "\<lparr>rb_buf = ?b, rb_size = 8, rb_head = 0, rb_tail = 4, rb_rdtail = 4\<rparr>"
  note eval = u16_at_def mem_read_def mem_write_def chunk_def patch_def u32_def sub32_def
    le16_bytes_def rb_skip_def
  have "rb_make_room 4 ?rb = Returns ?rb"
    by (subst rb_make_room.simps) (simp add: eval)
  then have 1: "rb_push ?rb [1, 1] 2 = Returns (0, ?rb1)"
    by (simp add: rb_push_def rb_wrap_def rb_write_entry_def eval)
  have "rb_make_room 4 ?rb2 = rb_make_room 4 ?rb3"
    by (subst rb_make_room.simps) (simp add: eval)
  also have "\<dots> = None"
    by (rule rb_make_room_loops) (simp_all add: eval)
  finally have "rb_push ?rb1 [2, 2] 2 = None"
    by (simp add: rb_push_def rb_wrap_def eval)
  with 1 show ?thesis by (simp add: rb_init_def)
qed

end
