(* ===== verification/Kmem.thy ===== *)
theory Kmem
  imports Prelude
begin

text \<open>
  Kernel memory as the driver uses it: \<open>kmalloc\<close>, \<open>kzalloc\<close>, \<open>krealloc\<close> and \<open>kfree\<close>.

  The heap maps the number of an allocation to its bytes.  Whether an allocation succeeds, and
  what uninitialised memory contains, is decided by an oracle: the \<open>k\<close>-th request fails when
  \<open>hp_oracle k\<close> is \<open>None\<close>, and otherwise returns memory filled from \<open>hp_oracle k\<close>.  Properties
  are stated for every oracle.  An access to memory that is not allocated (use after free, out of
  bounds, NULL) and a \<open>kfree\<close> of memory that is not allocated are the value \<open>None\<close>.

  A request of size 0 returns \<open>ZERO_SIZE_PTR\<close>, as in the kernel: not NULL, never dereferenced,
  accepted by \<open>kfree\<close>.
\<close>

datatype kptr = NullPtr | ZeroPtr | Ptr nat

record kheap =
  hp_mem :: "nat \<Rightarrow> byte list option"
  hp_next :: nat
  hp_oracle :: "nat \<Rightarrow> byte list option"

definition fit :: "nat \<Rightarrow> byte list \<Rightarrow> byte list" where
  "fit n junk = take n (junk @ replicate n 0)"

definition heap_bytes :: "kheap \<Rightarrow> kptr \<Rightarrow> byte list option" where
  "heap_bytes h p = (case p of Ptr k \<Rightarrow> hp_mem h k | ZeroPtr \<Rightarrow> Some [] | NullPtr \<Rightarrow> None)"

definition heap_read :: "kheap \<Rightarrow> kptr \<Rightarrow> nat \<Rightarrow> nat \<Rightarrow> byte list option" where
  "heap_read h p off n =
     (if n = 0 then Some []
      else case heap_bytes h p of None \<Rightarrow> None | Some bs \<Rightarrow> mem_read bs off n)"

definition heap_write :: "kheap \<Rightarrow> kptr \<Rightarrow> nat \<Rightarrow> byte list \<Rightarrow> kheap option" where
  "heap_write h p off bs =
     (if bs = [] then Some h
      else case p of
        Ptr k \<Rightarrow> (case hp_mem h k of
            None \<Rightarrow> None
          | Some old \<Rightarrow> (case mem_write old off bs of
                None \<Rightarrow> None
              | Some new \<Rightarrow> Some (h\<lparr>hp_mem := (hp_mem h)(k \<mapsto> new)\<rparr>)))
      | _ \<Rightarrow> None)"

definition kmalloc :: "nat \<Rightarrow> kheap \<Rightarrow> kptr \<times> kheap" where
  "kmalloc n h =
     (if n = 0 then (ZeroPtr, h)
      else case hp_oracle h (hp_next h) of
        None \<Rightarrow> (NullPtr, h\<lparr>hp_next := hp_next h + 1\<rparr>)
      | Some junk \<Rightarrow>
          (Ptr (hp_next h),
           h\<lparr>hp_mem := (hp_mem h)(hp_next h \<mapsto> fit n junk), hp_next := hp_next h + 1\<rparr>))"

text \<open>
  \<open>kzalloc\<close> of a structure the model keeps as a value (a packet, a work item): only the outcome
  of the request matters.
\<close>

definition kzalloc_struct :: "kheap \<Rightarrow> bool \<times> kheap" where
  "kzalloc_struct h = (hp_oracle h (hp_next h) \<noteq> None, h\<lparr>hp_next := hp_next h + 1\<rparr>)"

definition kfree :: "kptr \<Rightarrow> kheap \<Rightarrow> kheap option" where
  "kfree p h =
     (case p of
        Ptr k \<Rightarrow> if hp_mem h k = None then None else Some (h\<lparr>hp_mem := (hp_mem h)(k := None)\<rparr>)
      | _ \<Rightarrow> Some h)"

definition krealloc :: "kptr \<Rightarrow> nat \<Rightarrow> kheap \<Rightarrow> (kptr \<times> kheap) option" where
  "krealloc p n h =
     (if n = 0 then map_option (\<lambda>h'. (ZeroPtr, h')) (kfree p h)
      else case p of
        Ptr k \<Rightarrow> (case hp_mem h k of
            None \<Rightarrow> None
          | Some old \<Rightarrow> (case hp_oracle h (hp_next h) of
                None \<Rightarrow> Some (NullPtr, h\<lparr>hp_next := hp_next h + 1\<rparr>)
              | Some junk \<Rightarrow>
                  Some (Ptr (hp_next h),
                        h\<lparr>hp_mem := ((hp_mem h)(k := None))(hp_next h \<mapsto> fit n (take n old @ junk)),
                          hp_next := hp_next h + 1\<rparr>)))
      | _ \<Rightarrow> Some (kmalloc n h))"

text \<open>Allocations are numbered in order: no number at or above \<open>hp_next\<close> is in use.\<close>

definition heap_ok :: "kheap \<Rightarrow> bool" where
  "heap_ok h \<longleftrightarrow> (\<forall>k. hp_next h \<le> k \<longrightarrow> hp_mem h k = None)"

text \<open>A heap in which every allocation succeeds and yields zeroed memory, for the witnesses.\<close>

definition empty_heap :: kheap where
  "empty_heap = \<lparr>hp_mem = \<lambda>_. None, hp_next = 0, hp_oracle = \<lambda>_. Some []\<rparr>"

lemma length_fit [simp]: "length (fit n junk) = n"
  by (simp add: fit_def)

lemma heap_ok_empty [simp]: "heap_ok empty_heap"
  by (simp add: heap_ok_def empty_heap_def)

lemma heap_read_0 [simp]: "heap_read h p off 0 = Some []"
  by (simp add: heap_read_def)

lemma heap_write_Nil [simp]: "heap_write h p off [] = Some h"
  by (simp add: heap_write_def)

lemma heap_bytes_simps [simp]:
  "heap_bytes h (Ptr k) = hp_mem h k" "heap_bytes h ZeroPtr = Some []"
  "heap_bytes h NullPtr = None"
  by (simp_all add: heap_bytes_def)

lemma kfree_simps [simp]: "kfree NullPtr h = Some h" "kfree ZeroPtr h = Some h"
  by (simp_all add: kfree_def)

lemma kfree_live [simp]:
  "hp_mem h k = Some bs \<Longrightarrow> kfree (Ptr k) h = Some (h\<lparr>hp_mem := (hp_mem h)(k := None)\<rparr>)"
  by (simp add: kfree_def)

lemma kfree_total:
  assumes "heap_bytes h p = Some bs"
  obtains h' where "kfree p h = Some h'" "hp_next h' = hp_next h" "hp_oracle h' = hp_oracle h"
    "\<And>q. q \<noteq> p \<Longrightarrow> heap_bytes h' q = heap_bytes h q"
  using assms by (cases p) (auto simp: heap_bytes_def split: kptr.splits)

lemma heap_read_bytes:
  "heap_bytes h p = Some bs \<Longrightarrow> off + n \<le> length bs \<Longrightarrow> heap_read h p off n = Some (chunk bs off n)"
  by (simp add: heap_read_def mem_read_def)

lemma heap_read_whole: "heap_bytes h p = Some bs \<Longrightarrow> heap_read h p 0 (length bs) = Some bs"
  by (simp add: heap_read_def)

lemma heap_ok_kmalloc: "heap_ok h \<Longrightarrow> kmalloc n h = (p, h') \<Longrightarrow> heap_ok h'"
  by (auto simp: heap_ok_def kmalloc_def split: if_splits option.splits)

lemma heap_ok_kfree: "heap_ok h \<Longrightarrow> kfree p h = Some h' \<Longrightarrow> heap_ok h'"
  by (auto simp: heap_ok_def kfree_def split: kptr.splits if_splits)

lemma heap_ok_krealloc: "heap_ok h \<Longrightarrow> krealloc p n h = Some (q, h') \<Longrightarrow> heap_ok h'"
  by (auto simp: krealloc_def heap_ok_def kmalloc_def kfree_def
      split: if_splits option.splits kptr.splits)

lemma heap_ok_live: "heap_ok h \<Longrightarrow> hp_mem h k = Some bs \<Longrightarrow> k < hp_next h"
  by (rule ccontr) (simp add: heap_ok_def)

section \<open>Comparing heaps\<close>

text \<open>\<open>same_mem\<close>: requests may have been made, but no memory changed.\<close>

definition same_mem :: "kheap \<Rightarrow> kheap \<Rightarrow> bool" where
  "same_mem h h' \<longleftrightarrow> hp_mem h' = hp_mem h \<and> hp_oracle h' = hp_oracle h \<and> hp_next h \<le> hp_next h'"

lemma same_mem_refl [simp]: "same_mem h h"
  by (simp add: same_mem_def)

lemma same_mem_trans: "same_mem h h' \<Longrightarrow> same_mem h' h'' \<Longrightarrow> same_mem h h''"
  by (auto simp: same_mem_def)

lemma same_mem_kzalloc: "kzalloc_struct h = (ok, h') \<Longrightarrow> same_mem h h'"
  by (auto simp: kzalloc_struct_def same_mem_def)

lemma same_mem_bytes: "same_mem h h' \<Longrightarrow> heap_bytes h' p = heap_bytes h p"
  by (cases p) (simp_all add: same_mem_def)

lemma same_mem_read: "same_mem h h' \<Longrightarrow> heap_read h' p off n = heap_read h p off n"
  by (simp add: heap_read_def same_mem_bytes)

lemma same_mem_heap_ok: "same_mem h h' \<Longrightarrow> heap_ok h \<Longrightarrow> heap_ok h'"
  by (auto simp: same_mem_def heap_ok_def)

definition oracle_total :: "kheap \<Rightarrow> bool" where
  "oracle_total h \<longleftrightarrow> (\<forall>k. hp_oracle h k \<noteq> None)"

lemma oracle_total_same_mem: "same_mem h h' \<Longrightarrow> oracle_total h' = oracle_total h"
  by (simp add: same_mem_def oracle_total_def)

definition live :: "kheap \<Rightarrow> nat set" where
  "live h = {k. hp_mem h k \<noteq> None}"

lemma heap_ok_iff_live: "heap_ok h \<longleftrightarrow> (\<forall>k \<in> live h. k < hp_next h)"
  by (auto simp: heap_ok_def live_def not_less [symmetric])

end
