(* ===== verification/Block.thy ===== *)
theory Block
  imports Kmem
begin

text \<open>
  \<open>struct hsspi_block\<close> of hsspi.h and its allocation in hsspi.c: the memory an upper layer gives
  to the HSSPI core to receive into, or asks it to send.  An upper layer embeds a block in its own
  packet structure; here the packet is an extension of the record, and \<open>container_of\<close> is the
  identity.
\<close>

record hsspi_block =
  blk_data :: kptr
  blk_length :: nat
  blk_size :: nat

abbreviation (input) ENOMEM :: int where "ENOMEM \<equiv> 12"
abbreviation (input) EINVAL :: int where "EINVAL \<equiv> 22"
abbreviation (input) EAGAIN :: int where "EAGAIN \<equiv> 11"
abbreviation (input) EBUSY :: int where "EBUSY \<equiv> 16"
abbreviation (input) EFAULT :: int where "EFAULT \<equiv> 14"
abbreviation (input) EMSGSIZE :: int where "EMSGSIZE \<equiv> 90"
abbreviation (input) ENOSYS :: int where "ENOSYS \<equiv> 38"
abbreviation (input) ENODEV :: int where "ENODEV \<equiv> 19"
abbreviation (input) ERESTARTSYS :: int where "ERESTARTSYS \<equiv> 512"

text \<open>The result is the return code, the block and the heap.\<close>

definition hsspi_init_block ::
  "'a hsspi_block_scheme \<Rightarrow> nat \<Rightarrow> kheap \<Rightarrow> (int \<times> 'a hsspi_block_scheme \<times> kheap) option" where
  "hsspi_init_block blk len h =
     (case krealloc (blk_data blk) len h of
        None \<Rightarrow> None
      | Some (data, h') \<Rightarrow>
          if data = NullPtr then Some (- ENOMEM, blk, h')
          else Some (0, blk\<lparr>blk_data := data, blk_length := len, blk_size := len\<rparr>, h'))"

definition hsspi_deinit_block ::
  "'a hsspi_block_scheme \<Rightarrow> kheap \<Rightarrow> ('a hsspi_block_scheme \<times> kheap) option" where
  "hsspi_deinit_block blk h =
     (case kfree (blk_data blk) h of
        None \<Rightarrow> None
      | Some h' \<Rightarrow> Some (blk\<lparr>blk_data := NullPtr\<rparr>, h'))"

text \<open>A block as the core and the layers exchange it: it owns \<open>blk_size\<close> bytes.\<close>

definition block_holds :: "kheap \<Rightarrow> 'a hsspi_block_scheme \<Rightarrow> byte list \<Rightarrow> bool" where
  "block_holds h blk bs \<longleftrightarrow>
     heap_bytes h (blk_data blk) = Some bs \<and> length bs = blk_length blk \<and> blk_size blk = blk_length blk"

lemma hsspi_init_block_fresh:
  assumes "hsspi_init_block blk len h = Some (rc, blk', h')" and "blk_data blk = NullPtr"
  shows "rc = 0 \<and> (\<exists>bs. block_holds h' blk' bs \<and> length bs = len) \<or> rc = - ENOMEM \<and> blk' = blk"
  using assms
  by (auto simp: hsspi_init_block_def krealloc_def kmalloc_def block_holds_def
      split: if_splits option.splits prod.splits)

lemma hsspi_init_block_total:
  "blk_data blk = NullPtr \<Longrightarrow> \<exists>r. hsspi_init_block blk len h = Some r"
  by (auto simp: hsspi_init_block_def krealloc_def kmalloc_def split: option.splits)

end
