(* ===== verification/Uci.thy ===== *)
theory Uci
  imports Block
begin

unbundle bit_operations_syntax

text \<open>
  The UCI layer (hsspi_uci.c) and the read side of the character device it serves
  (\<open>uci_read\<close> of qm35-spi.c).  A block received from the firmware may hold several UCI packets;
  \<open>uci_received\<close> cuts it into packets that share the block's buffer, the last of which owns it.
\<close>

section \<open>Packets\<close>

text \<open>
  \<open>pk_data\<close> is the pointer \<open>data\<close>: an allocation and an offset in it.  \<open>pk_write_done\<close> is the
  completion a writer waits on, numbered.
\<close>

record uci_packet = hsspi_block +
  pk_write_done :: "nat option"
  pk_data :: "kptr \<times> nat"
  pk_length :: nat
  pk_status :: int

record uci_layer =
  uci_rx_list :: "uci_packet list"

definition zero_packet :: uci_packet where
  "zero_packet = \<lparr>blk_data = NullPtr, blk_length = 0, blk_size = 0, pk_write_done = None,
     pk_data = (NullPtr, 0), pk_length = 0, pk_status = 0\<rparr>"

definition uci_packet_alloc :: "nat \<Rightarrow> kheap \<Rightarrow> (uci_packet option \<times> kheap) option" where
  "uci_packet_alloc len h =
     (let (ok, h1) = kzalloc_struct h in
        if \<not> ok then Some (None, h1)
        else case hsspi_init_block zero_packet (u16 len) h1 of
          None \<Rightarrow> None
        | Some (rc, p, h2) \<Rightarrow>
            if rc \<noteq> 0 then Some (None, h2)
            else Some (Some (p\<lparr>pk_data := (blk_data p, 0), pk_length := blk_length p\<rparr>), h2))"

definition uci_packet_free :: "uci_packet \<Rightarrow> kheap \<Rightarrow> kheap option" where
  "uci_packet_free p h = map_option snd (hsspi_deinit_block p h)"

section \<open>The layer\<close>

definition uci_layer_init :: uci_layer where
  "uci_layer_init = \<lparr>uci_rx_list = []\<rparr>"

fun clear_rx_list :: "uci_packet list \<Rightarrow> kheap \<Rightarrow> kheap option" where
  "clear_rx_list [] h = Some h"
| "clear_rx_list (p # ps) h =
     (case uci_packet_free p h of None \<Rightarrow> None | Some h' \<Rightarrow> clear_rx_list ps h')"

definition uci_unregistered :: "uci_layer \<Rightarrow> kheap \<Rightarrow> (uci_layer \<times> kheap) option" where
  "uci_unregistered uci h =
     (case clear_rx_list (uci_rx_list uci) h of
        None \<Rightarrow> None
      | Some h' \<Rightarrow> Some (uci\<lparr>uci_rx_list := []\<rparr>, h'))"

definition uci_layer_deinit :: "uci_layer \<Rightarrow> kheap \<Rightarrow> (uci_layer \<times> kheap) option" where
  "uci_layer_deinit uci h = uci_unregistered uci h"

definition uci_get :: "uci_layer \<Rightarrow> nat \<Rightarrow> kheap \<Rightarrow> (uci_packet option \<times> uci_layer \<times> kheap) option" where
  "uci_get uci len h = map_option (\<lambda>(p, h'). (p, uci, h')) (uci_packet_alloc len h)"

text \<open>
  \<open>uci_sent\<close> stores the status in the writer's packet and completes the writer; completing NULL is
  a fault.
\<close>

definition uci_sent :: "uci_packet \<Rightarrow> int \<Rightarrow> (uci_packet \<times> nat) option" where
  "uci_sent p status =
     (case pk_write_done p of None \<Rightarrow> None | Some c \<Rightarrow> Some (p\<lparr>pk_status := status\<rparr>, c))"

definition get_payload_size_from_header :: "byte list \<Rightarrow> nat" where
  "get_payload_size_from_header header =
     (let is_data_packet = (drop_bit 5 (header ! 0) AND 7 = 0);
          is_control_packet = (\<not> is_data_packet \<and> drop_bit 7 (header ! 0) = 0)
      in if is_control_packet then unat (header ! 3)
         else unat (header ! 3) * 256 + unat (header ! 2))"

definition UCI_PACKET_HEADER_SIZE :: nat where
  "UCI_PACKET_HEADER_SIZE = 4"

definition rx_add_tail :: "uci_packet \<Rightarrow> uci_layer \<Rightarrow> uci_layer" where
  "rx_add_tail p uci = uci\<lparr>uci_rx_list := uci_rx_list uci @ [p]\<rparr>"

text \<open>
  The loop of \<open>uci_received\<close>.  \<open>readn \<le> len\<close> holds throughout (\<open>uci_split_loop_frames\<close> below), so
  that \<open>blk->length - readn\<close> does not wrap.
\<close>

function uci_split_loop ::
  "kptr \<Rightarrow> nat \<Rightarrow> nat \<Rightarrow> uci_layer \<Rightarrow> kheap \<Rightarrow> (nat \<times> uci_layer \<times> kheap) option" where
  "uci_split_loop data len readn uci h =
     (if len - readn < UCI_PACKET_HEADER_SIZE then Some (readn, uci, h)
      else case heap_read h data readn UCI_PACKET_HEADER_SIZE of
        None \<Rightarrow> None
      | Some header \<Rightarrow>
          let payload_size = get_payload_size_from_header header in
          if len - readn \<le> UCI_PACKET_HEADER_SIZE + payload_size then Some (readn, uci, h)
          else let (ok, h') = kzalloc_struct h in
            if \<not> ok then Some (readn, uci, h')
            else let next = zero_packet\<lparr>pk_data := (data, readn),
                                        pk_length := UCI_PACKET_HEADER_SIZE + payload_size\<rparr> in
              uci_split_loop data len (readn + pk_length next) (rx_add_tail next uci) h')"
  by pat_completeness auto
termination
  by (relation "measure (\<lambda>(data, len, readn, uci, h). len - readn)")
    (auto simp: UCI_PACKET_HEADER_SIZE_def zero_packet_def)

declare uci_split_loop.simps [simp del]

definition uci_received ::
  "uci_layer \<Rightarrow> uci_packet \<Rightarrow> int \<Rightarrow> kheap \<Rightarrow> (uci_layer \<times> kheap) option" where
  "uci_received uci p status h =
     (if status \<noteq> 0 then map_option (\<lambda>h'. (uci, h')) (uci_packet_free p h)
      else case uci_split_loop (blk_data p) (blk_length p) 0 uci h of
        None \<Rightarrow> None
      | Some (readn, uci', h') \<Rightarrow>
          Some (rx_add_tail (p\<lparr>pk_data := (blk_data p, readn), pk_length := blk_length p - readn\<rparr>)
                  uci', h'))"

definition uci_layer_has_data_available :: "uci_layer \<Rightarrow> bool" where
  "uci_layer_has_data_available uci \<longleftrightarrow> uci_rx_list uci \<noteq> []"

text \<open>
  \<open>wait_ret\<close> is what \<open>wait_event_interruptible\<close> returned, used in blocking mode only; the list
  may have changed since, which is why it is not tied to the list here.  The result is the negative
  error or the packet taken off the list.
\<close>

definition uci_layer_read ::
  "uci_layer \<Rightarrow> nat \<Rightarrow> bool \<Rightarrow> int \<Rightarrow> (int + uci_packet) \<times> uci_layer" where
  "uci_layer_read uci max_size non_blocking wait_ret =
     (if \<not> non_blocking \<and> wait_ret \<noteq> 0 then (Inl wait_ret, uci)
      else case uci_rx_list uci of
        [] \<Rightarrow> (Inl (- EAGAIN), uci)
      | p # ps \<Rightarrow>
          if max_size < pk_length p then (Inl (- EMSGSIZE), uci)
          else (Inr p, uci\<lparr>uci_rx_list := ps\<rparr>))"

text \<open>
  \<open>uci_read\<close>: \<open>uncopied\<close> is what \<open>copy_to_user\<close> returns, 0 when all bytes reached the user.  The
  result is the return value, the bytes read from the packet, the layer and the heap.
\<close>

definition uci_read ::
  "uci_layer \<Rightarrow> nat \<Rightarrow> bool \<Rightarrow> int \<Rightarrow> nat \<Rightarrow> kheap \<Rightarrow> (int \<times> byte list \<times> uci_layer \<times> kheap) option" where
  "uci_read uci len non_blocking wait_ret uncopied h =
     (case uci_layer_read uci len non_blocking wait_ret of
        (Inl err, uci') \<Rightarrow> Some (err, [], uci', h)
      | (Inr p, uci') \<Rightarrow>
          (case heap_read h (fst (pk_data p)) (snd (pk_data p)) (pk_length p) of
             None \<Rightarrow> None
           | Some bytes \<Rightarrow>
               (case uci_packet_free p h of
                  None \<Rightarrow> None
                | Some h' \<Rightarrow>
                    Some (if uncopied = 0 then int (pk_length p) else int uncopied,
                          bytes, uci', h'))))"

end
