(* ===== verification/Uci_Frames.thy ===== *)
theory Uci_Frames
  imports Uci
begin

text \<open>
  What the UCI layer promises: the byte string of a received block is cut into UCI packets
  (\<open>uci_frames\<close>), and readers get these byte strings in order.  This theory relates the loop of
  \<open>uci_received\<close> to \<open>uci_frames\<close>, and states the ownership discipline of the receive list: packets
  cut from one block share its buffer, which the last of them owns and frees.
\<close>

section \<open>Cutting a byte string into packets\<close>

definition uci_frame_size :: "byte list \<Rightarrow> nat" where
  "uci_frame_size bs = UCI_PACKET_HEADER_SIZE + get_payload_size_from_header (take 4 bs)"

text \<open>\<open>uci_frames n bs\<close> cuts \<open>bs\<close> at most \<open>n\<close> times.\<close>

fun uci_frames :: "nat \<Rightarrow> byte list \<Rightarrow> byte list list" where
  "uci_frames 0 bs = [bs]"
| "uci_frames (Suc n) bs =
     (if length bs < 4 \<or> length bs \<le> uci_frame_size bs then [bs]
      else take (uci_frame_size bs) bs # uci_frames n (drop (uci_frame_size bs) bs))"

text \<open>A byte string that is exactly one UCI packet.\<close>

definition uci_wf_packet :: "byte list \<Rightarrow> bool" where
  "uci_wf_packet bs \<longleftrightarrow> 4 \<le> length bs \<and> length bs = uci_frame_size bs"

lemma uci_frame_size_ge: "4 \<le> uci_frame_size bs"
  by (simp add: uci_frame_size_def UCI_PACKET_HEADER_SIZE_def)

lemma uci_frame_size_append: "4 \<le> length xs \<Longrightarrow> uci_frame_size (xs @ ys) = uci_frame_size xs"
  by (simp add: uci_frame_size_def)

lemma uci_frames_not_Nil [simp]: "uci_frames n bs \<noteq> []"
  by (cases n) simp_all

lemma concat_uci_frames: "concat (uci_frames n bs) = bs"
  by (induction n bs rule: uci_frames.induct) auto

lemma uci_wf_packet_take:
  "4 \<le> length bs \<Longrightarrow> uci_frame_size bs \<le> length bs \<Longrightarrow> uci_wf_packet (take (uci_frame_size bs) bs)"
proof -
  assume a: "4 \<le> length bs" "uci_frame_size bs \<le> length bs"
  let ?n = "uci_frame_size bs"
  have n: "4 \<le> ?n" by (rule uci_frame_size_ge)
  then have "take 4 (take ?n bs) = take 4 bs" by (simp add: min_absorb1)
  then have "uci_frame_size (take ?n bs) = ?n" by (simp only: uci_frame_size_def)
  with a n show ?thesis by (simp add: uci_wf_packet_def)
qed

lemma uci_frames_butlast_wf: "f \<in> set (butlast (uci_frames n bs)) \<Longrightarrow> uci_wf_packet f"
proof (induction n bs rule: uci_frames.induct)
  case (2 n bs)
  show ?case
  proof (cases "length bs < 4 \<or> length bs \<le> uci_frame_size bs")
    case False
    with 2 show ?thesis using uci_wf_packet_take [of bs] by (auto split: if_splits)
  qed (use 2 in simp)
qed simp

lemma uci_frames_last:
  "length bs \<le> n \<Longrightarrow> f = last (uci_frames n bs) \<Longrightarrow> length f < 4 \<or> length f \<le> uci_frame_size f"
proof (induction n bs rule: uci_frames.induct)
  case (2 n bs)
  then show ?case
    using uci_frame_size_ge [of bs] by (auto split: if_splits)
qed simp

lemma uci_frames_concat:
  "\<lbrakk>ps \<noteq> []; \<forall>p \<in> set ps. uci_wf_packet p; length ps \<le> Suc n\<rbrakk> \<Longrightarrow> uci_frames n (concat ps) = ps"
proof (induction ps arbitrary: n)
  case (Cons p ps)
  show ?case
  proof (cases "ps = []")
    case True
    with Cons.prems show ?thesis
      by (cases n) (auto simp: uci_wf_packet_def)
  next
    case False
    with Cons.prems obtain m where n: "n = Suc m" and m: "length ps \<le> Suc m"
      by (cases n) auto
    from Cons.prems have p: "4 \<le> length p" "uci_frame_size p = length p"
      by (auto simp: uci_wf_packet_def)
    from False Cons.prems obtain q qs where ps: "ps = q # qs" "uci_wf_packet q"
      by (cases ps) auto
    then have "0 < length (concat ps)" by (auto simp: uci_wf_packet_def)
    then have "\<not> (\<forall>xs \<in> set ps. xs = [])" by auto
    with p show ?thesis
      using Cons.IH [OF False _ m] Cons.prems by (auto simp: n uci_frame_size_append)
  qed
qed simp

section \<open>The loop of uci_received\<close>

definition pkt_bytes :: "kheap \<Rightarrow> uci_packet \<Rightarrow> byte list option" where
  "pkt_bytes h p = heap_read h (fst (pk_data p)) (snd (pk_data p)) (pk_length p)"

text \<open>A packet cut from the buffer \<open>data\<close> it does not own.\<close>

definition slice_of :: "kptr \<Rightarrow> uci_packet \<Rightarrow> bool" where
  "slice_of data p \<longleftrightarrow> blk_data p = NullPtr \<and> fst (pk_data p) = data \<and> 0 < pk_length p"

lemma uci_frame_size_drop:
  "readn + 4 \<le> length bs \<Longrightarrow>
   uci_frame_size (drop readn bs) = UCI_PACKET_HEADER_SIZE + get_payload_size_from_header (chunk bs readn 4)"
  by (simp add: uci_frame_size_def chunk_def)

text \<open>What one run of the loop appends, and where it stops.\<close>

definition split_result ::
  "byte list \<Rightarrow> kptr \<Rightarrow> nat \<Rightarrow> uci_layer \<Rightarrow> kheap \<Rightarrow> nat \<times> uci_layer \<times> kheap \<Rightarrow> bool" where
  "split_result bs data readn uci h r =
     (case r of (readn', uci', h') \<Rightarrow>
        \<exists>k slices.
          uci_rx_list uci' = uci_rx_list uci @ slices \<and> same_mem h h' \<and>
          readn \<le> readn' \<and> readn' \<le> length bs \<and>
          (\<forall>p \<in> set slices. slice_of data p) \<and>
          map (pkt_bytes h) slices @ [Some (drop readn' bs)]
            = map Some (uci_frames k (drop readn bs)) \<and>
          (oracle_total h \<longrightarrow> k = length bs - readn))"

lemma split_result_stop:
  assumes "same_mem h h'" "readn \<le> length bs"
    and "oracle_total h \<Longrightarrow> length bs - readn < 4 \<or> length bs - readn \<le> uci_frame_size (drop readn bs)"
  shows "split_result bs data readn uci h (readn, uci, h')"
proof -
  let ?k = "if oracle_total h then length bs - readn else 0"
  have "uci_frames ?k (drop readn bs) = [drop readn bs]"
    using assms(3) by (cases "length bs - readn") auto
  then show ?thesis
    using assms unfolding split_result_def prod.case
    by (intro exI [of _ ?k] exI [of _ "[]"]) simp
qed

lemma uci_frames_enough: "length bs \<le> n \<Longrightarrow> length bs \<le> m \<Longrightarrow> uci_frames n bs = uci_frames m bs"
proof (induction n bs arbitrary: m rule: uci_frames.induct)
  case (1 bs)
  then show ?case by (cases m) auto
next
  case (2 n bs)
  show ?case
  proof (cases m)
    case 0
    with 2 show ?thesis by simp
  next
    case (Suc m')
    have "uci_frames n (drop (uci_frame_size bs) bs) = uci_frames m' (drop (uci_frame_size bs) bs)"
      if "\<not> (length bs < 4 \<or> length bs \<le> uci_frame_size bs)"
      using that 2 Suc uci_frame_size_ge [of bs] by simp
    then show ?thesis by (simp add: Suc)
  qed
qed

lemma split_result_step:
  assumes h': "same_mem h h'" and sz: "sz = uci_frame_size (drop readn bs)"
    and more: "4 \<le> length bs - readn" "sz < length bs - readn"
    and data: "heap_bytes h data = Some bs"
    and nxt: "next = zero_packet\<lparr>pk_data := (data, readn), pk_length := sz\<rparr>"
    and r: "split_result bs data (readn + sz) (rx_add_tail next uci) h' r"
  shows "split_result bs data readn uci h r"
proof -
  obtain readn' uci' h'' where r_eq: "r = (readn', uci', h'')" by (cases r)
  obtain k slices where
    l: "uci_rx_list uci' = uci_rx_list (rx_add_tail next uci) @ slices" and m: "same_mem h' h''"
    and b: "readn + sz \<le> readn'" "readn' \<le> length bs"
    and s: "\<forall>p \<in> set slices. slice_of data p"
    and f: "map (pkt_bytes h') slices @ [Some (drop readn' bs)]
              = map Some (uci_frames k (drop (readn + sz) bs))"
    and t: "oracle_total h' \<longrightarrow> k = length bs - (readn + sz)"
    using r unfolding split_result_def r_eq prod.case by blast
  have pb: "pkt_bytes h' = pkt_bytes h"
    using same_mem_read [OF h'] by (simp add: pkt_bytes_def fun_eq_iff)
  have nb: "pkt_bytes h next = Some (take sz (drop readn bs))"
    using more heap_read_bytes [OF data, of readn sz] by (simp add: pkt_bytes_def nxt chunk_def)
  have sl: "slice_of data next"
    using uci_frame_size_ge [of "drop readn bs"] by (simp add: slice_of_def nxt zero_packet_def sz)
  let ?k = "if oracle_total h then length bs - readn else Suc k"
  have "uci_frames ?k (drop readn bs) = take sz (drop readn bs) # uci_frames k (drop (readn + sz) bs)"
  proof (cases "oracle_total h")
    case True
    then have k: "k = length bs - (readn + sz)" using t oracle_total_same_mem [OF h'] by simp
    obtain j where j: "length bs - readn = Suc j" using more by (cases "length bs - readn") auto
    have "uci_frames j (drop sz (drop readn bs)) = uci_frames k (drop sz (drop readn bs))"
      by (rule uci_frames_enough)
        (use more j k sz uci_frame_size_ge [of "drop readn bs"] in auto)
    then show ?thesis using True j more sz by (simp add: add.commute)
  next
    case False
    then show ?thesis using more sz by (simp add: add.commute)
  qed
  then show ?thesis
    unfolding split_result_def r_eq prod.case
    using l b s f nb sl pb same_mem_trans [OF h' m]
    by (intro exI [of _ ?k] exI [of _ "next # slices"]) (auto simp: rx_add_tail_def)
qed

lemma uci_split_loop_frames:
  assumes "heap_bytes h data = Some bs" "len = length bs" "readn \<le> len"
  shows "\<exists>r. uci_split_loop data len readn uci h = Some r \<and> split_result bs data readn uci h r"
  using assms
proof (induction data len readn uci h rule: uci_split_loop.induct)
  case (1 data len readn uci h)
  let ?payload = "get_payload_size_from_header (chunk bs readn 4)"
  let ?sz = "uci_frame_size (drop readn bs)"
  show ?case
  proof (cases "len - readn < 4")
    case True
    with 1 show ?thesis
      by (subst uci_split_loop.simps) (simp add: UCI_PACKET_HEADER_SIZE_def split_result_stop)
  next
    case ge4: False
    with 1 have hd: "heap_read h data readn UCI_PACKET_HEADER_SIZE = Some (chunk bs readn 4)"
      using heap_read_bytes [of h data bs readn 4] by (simp add: UCI_PACKET_HEADER_SIZE_def)
    have sz: "?sz = UCI_PACKET_HEADER_SIZE + ?payload"
      using ge4 1 by (simp add: uci_frame_size_drop)
    show ?thesis
    proof (cases "len - readn \<le> ?sz")
      case True
      with 1 ge4 hd sz show ?thesis
        by (subst uci_split_loop.simps) (simp add: UCI_PACKET_HEADER_SIZE_def split_result_stop)
    next
      case gt: False
      obtain ok h' where kz: "kzalloc_struct h = (ok, h')" by (cases "kzalloc_struct h")
      have sm: "same_mem h h'" using kz by (rule same_mem_kzalloc)
      show ?thesis
      proof (cases ok)
        case False
        then have "\<not> oracle_total h" using kz by (auto simp: kzalloc_struct_def oracle_total_def)
        then have "split_result bs data readn uci h (readn, uci, h')"
          using 1(3,4) sm by (intro split_result_stop) auto
        with False ge4 gt hd sz kz show ?thesis
          by (subst uci_split_loop.simps) (simp add: UCI_PACKET_HEADER_SIZE_def)
      next
        case True
        let ?next = "zero_packet\<lparr>pk_data := (data, readn), pk_length := ?sz\<rparr>"
        have "\<exists>r. uci_split_loop data len (readn + pk_length ?next) (rx_add_tail ?next uci) h' = Some r
            \<and> split_result bs data (readn + pk_length ?next) (rx_add_tail ?next uci) h' r"
          using ge4 gt sz hd kz True 1(2-4) same_mem_bytes [OF sm]
          by (intro 1(1)) (auto simp: UCI_PACKET_HEADER_SIZE_def)
        then obtain r where
          r: "uci_split_loop data len (readn + ?sz) (rx_add_tail ?next uci) h' = Some r"
            "split_result bs data (readn + ?sz) (rx_add_tail ?next uci) h' r"
          by (auto simp: zero_packet_def)
        have "uci_split_loop data len readn uci h = Some r"
          using ge4 gt sz hd kz True r(1)
          by (subst uci_split_loop.simps) (simp add: UCI_PACKET_HEADER_SIZE_def zero_packet_def)
        moreover have "split_result bs data readn uci h r"
          using split_result_step [OF sm refl _ _ 1(2) refl r(2)] ge4 gt 1(3) by simp
        ultimately show ?thesis by blast
      qed
    qed
  qed
qed

end
