(* ===== verification/Upper_Layer.thy ===== *)
theory Upper_Layer
  imports Block
begin

text \<open>
  The interface between the HSSPI core and an upper layer (\<open>struct hsspi_layer_ops\<close> of hsspi.h):
  the core calls \<open>get\<close> for memory to receive into, lets the SPI transfer fill it, and gives it back
  with \<open>received\<close>.

  A layer owns part of the heap (\<open>owns\<close>).  The locale states what the core may rely on: a block
  from \<open>get\<close> is fresh memory of the requested size; given a block back, the layer accepts it,
  without a memory fault, and keeps its invariant; memory outside the layer and the block is left
  alone.  \<open>received\<close> also returns the blocks it passes to \<open>hsspi_send\<close>.  \<open>msg_ok\<close> restricts the
  messages for which the layer promises this.
\<close>

type_synonym ('l, 'b) get_op =
  "'l \<Rightarrow> nat \<Rightarrow> kheap \<Rightarrow> ('b hsspi_block_scheme option \<times> 'l \<times> kheap) option"
type_synonym ('l, 'b) received_op =
  "'l \<Rightarrow> 'b hsspi_block_scheme \<Rightarrow> int \<Rightarrow> kheap \<Rightarrow>
   ('l \<times> 'b hsspi_block_scheme list \<times> kheap) option"

definition blk_ptr_in :: "'b hsspi_block_scheme \<Rightarrow> nat set \<Rightarrow> bool" where
  "blk_ptr_in b K \<longleftrightarrow> (\<exists>k. blk_data b = Ptr k \<and> k \<in> K)"

definition blk_keys :: "'b hsspi_block_scheme \<Rightarrow> nat set" where
  "blk_keys b = {k. blk_data b = Ptr k}"

text \<open>Memory outside \<open>K\<close> that existed before is unchanged.\<close>

definition frame :: "nat set \<Rightarrow> kheap \<Rightarrow> kheap \<Rightarrow> bool" where
  "frame K h h' \<longleftrightarrow> (\<forall>k. k < hp_next h \<longrightarrow> k \<notin> K \<longrightarrow> hp_mem h' k = hp_mem h k) \<and>
     hp_next h \<le> hp_next h' \<and> hp_oracle h' = hp_oracle h"

definition fresh_block :: "kheap \<Rightarrow> kheap \<Rightarrow> nat \<Rightarrow> 'b hsspi_block_scheme \<Rightarrow> bool" where
  "fresh_block h h' n b \<longleftrightarrow>
     (\<exists>bs. block_holds h' b bs \<and> length bs = n) \<and> (\<forall>k \<in> blk_keys b. hp_next h \<le> k)"

lemma frame_refl [simp]: "frame K h h"
  by (simp add: frame_def)

lemma frame_mono: "frame K h h' \<Longrightarrow> K \<subseteq> K' \<Longrightarrow> frame K' h h'"
  by (auto simp: frame_def)

lemma frame_trans:
  "frame K h h' \<Longrightarrow> frame K' h' h'' \<Longrightarrow> (\<And>k. k \<in> K' \<Longrightarrow> k \<in> K \<or> hp_next h \<le> k) \<Longrightarrow> frame K h h''"
  unfolding frame_def by (metis less_le_trans not_less le_trans)

lemma frame_same_mem: "same_mem h h' \<Longrightarrow> frame K h h'"
  by (auto simp: same_mem_def frame_def)

text \<open>A layer's packet is a block allocated afresh.\<close>

lemma init_block_ok:
  assumes ok: "heap_ok h" and b: "blk_data b = NullPtr"
  shows "\<exists>rc b' h'. hsspi_init_block b n h = Some (rc, b', h') \<and> heap_ok h' \<and> frame {} h h' \<and>
    (if rc = 0 then fresh_block h h' n b' \<and> live h' = live h \<union> blk_keys b'
     else \<not> oracle_total h \<and> live h' = live h)"
proof (cases "n = 0")
  case True
  then show ?thesis using ok b
    by (auto simp: hsspi_init_block_def krealloc_def fresh_block_def block_holds_def blk_keys_def)
next
  case False
  then show ?thesis
  proof (cases "hp_oracle h (hp_next h)")
    case None
    then show ?thesis using False ok b
      by (auto simp: hsspi_init_block_def krealloc_def kmalloc_def heap_ok_def frame_def live_def
          oracle_total_def)
  next
    case (Some junk)
    then show ?thesis using False ok b
      by (auto simp: hsspi_init_block_def krealloc_def kmalloc_def heap_ok_def frame_def live_def
          fresh_block_def block_holds_def blk_keys_def)
  qed
qed

text \<open>The transfer fills a fresh block: the memory that was there before is as it was.\<close>

lemma fill_block:
  assumes "fresh_block h h1 n p" "length bytes = n"
  shows "\<exists>h2. heap_write h1 (blk_data p) 0 bytes = Some h2 \<and> block_holds h2 p bytes \<and>
    frame (blk_keys p) h1 h2 \<and> hp_next h2 = hp_next h1 \<and> hp_oracle h2 = hp_oracle h1 \<and>
    (\<forall>k. k \<notin> blk_keys p \<longrightarrow> hp_mem h2 k = hp_mem h1 k) \<and> live h2 = live h1"
  using assms
  by (cases "blk_data p")
    (auto simp: heap_write_def fresh_block_def block_holds_def mem_write_def patch_def blk_keys_def
      live_def frame_def)

lemma fresh_filled:
  assumes ok: "heap_ok h1" and f: "frame {} h h1" and fr: "fresh_block h h1 n p" and n: "length bytes = n"
  obtains h2 where "heap_write h1 (blk_data p) 0 bytes = Some h2" "block_holds h2 p bytes" "heap_ok h2"
    "frame {} h h2" "hp_next h2 = hp_next h1" "live h2 = live h1" "\<And>k. k \<in> blk_keys p \<Longrightarrow> hp_next h \<le> k"
proof -
  obtain h2 where w: "heap_write h1 (blk_data p) 0 bytes = Some h2" "block_holds h2 p bytes"
    and f2: "frame (blk_keys p) h1 h2" "hp_next h2 = hp_next h1" "live h2 = live h1"
    using fill_block [OF fr n] by blast
  have new: "hp_next h \<le> k" if "k \<in> blk_keys p" for k using fr that by (simp add: fresh_block_def)
  have "heap_ok h2" using ok f2 by (simp add: heap_ok_iff_live)
  moreover have "frame {} h h2" by (rule frame_trans [OF f f2(1)]) (use new in simp)
  ultimately show thesis using that w f2 new by blast
qed

text \<open>
  One reception, as \<open>hsspi_rx\<close> does it: the transfer stores \<open>bytes\<close> in the block and ends with
  \<open>status\<close>.
\<close>

definition rx_cycle ::
  "('l, 'b) get_op \<Rightarrow> ('l, 'b) received_op \<Rightarrow> byte list \<Rightarrow> int \<Rightarrow> 'l \<Rightarrow> kheap \<Rightarrow>
   (bool \<times> 'b hsspi_block_scheme list \<times> 'l \<times> kheap) option" where
  "rx_cycle get received bytes status l h = do {
     (blk, l1, h1) \<leftarrow> get l (length bytes) h;
     case blk of
       None \<Rightarrow> Some (False, [], l1, h1)
     | Some b \<Rightarrow> do {
         h2 \<leftarrow> heap_write h1 (blk_data b) 0 bytes;
         (l2, sends, h3) \<leftarrow> received l1 b status h2;
         Some (True, sends, l2, h3)
       }
   }"

locale upper_layer =
  fixes inv :: "'l \<Rightarrow> kheap \<Rightarrow> bool"
    and owns :: "'l \<Rightarrow> nat set"
    and msg_ok :: "'l \<Rightarrow> byte list \<Rightarrow> bool"
    and get :: "('l, 'b) get_op"
    and received :: "('l, 'b) received_op"
  assumes inv_heap_ok: "inv l h \<Longrightarrow> heap_ok h"
    and inv_live: "inv l h \<Longrightarrow> k \<in> owns l \<Longrightarrow> hp_mem h k \<noteq> None"
    and inv_frame: "\<lbrakk>inv l h; \<And>k. k \<in> owns l \<Longrightarrow> hp_mem h' k = hp_mem h k; heap_ok h'\<rbrakk> \<Longrightarrow> inv l h'"
    and get_ok: "\<lbrakk>inv l h; n < 65536\<rbrakk> \<Longrightarrow>
      \<exists>b h'. get l n h = Some (b, l, h') \<and> inv l h' \<and> frame {} h h' \<and>
        (case b of None \<Rightarrow> True | Some blk \<Rightarrow> fresh_block h h' n blk)"
    and received_ok: "\<lbrakk>inv l h; block_holds h blk bs; length bs < 65536; \<not> blk_ptr_in blk (owns l);
        status = 0 \<Longrightarrow> msg_ok l bs\<rbrakk> \<Longrightarrow>
      \<exists>l' sends h'. received l blk status h = Some (l', sends, h') \<and> inv l' h' \<and>
        frame (owns l \<union> blk_keys blk) h h' \<and>
        owns l' \<subseteq> owns l \<union> blk_keys blk \<union> {k. hp_next h \<le> k}"
begin

lemma live_below: "inv l h \<Longrightarrow> k \<in> owns l \<Longrightarrow> k < hp_next h"
  using inv_heap_ok inv_live by (meson heap_ok_def not_less)

lemma write_keeps_inv:
  assumes inv: "inv l h" and w: "heap_write h p 0 bytes = Some h'" and p: "\<And>k. p = Ptr k \<Longrightarrow> k \<notin> owns l"
  shows "inv l h'"
proof (rule inv_frame [OF inv])
  show "hp_mem h' k = hp_mem h k" if "k \<in> owns l" for k
    using w p that by (auto simp: heap_write_def split: if_splits kptr.splits option.splits)
  show "heap_ok h'"
    using w inv_heap_ok [OF inv]
    by (auto simp: heap_write_def heap_ok_def split: if_splits kptr.splits option.splits)
qed

text \<open>Every reception of every message is handled: no memory fault, and the invariant is kept.\<close>

lemma rx_cycle_ok:
  assumes inv: "inv l h" and len: "length bytes < 65536" and ok: "status = 0 \<Longrightarrow> msg_ok l bytes"
  shows "\<exists>acc sends l' h'. rx_cycle get received bytes status l h = Some (acc, sends, l', h') \<and>
    inv l' h' \<and> frame (owns l) h h' \<and> owns l' \<subseteq> owns l \<union> {k. hp_next h \<le> k}"
proof -
  obtain b h1 where get: "get l (length bytes) h = Some (b, l, h1)" and i1: "inv l h1"
    and f1: "frame {} h h1" and b: "case b of None \<Rightarrow> True | Some blk \<Rightarrow> fresh_block h h1 (length bytes) blk"
    using get_ok [OF inv len] by blast
  show ?thesis
  proof (cases b)
    case None
    with get i1 f1 show ?thesis by (auto simp: rx_cycle_def frame_def)
  next
    case (Some blk)
    with b have f: "fresh_block h h1 (length bytes) blk" by simp
    obtain h2 where h2: "heap_write h1 (blk_data blk) 0 bytes = Some h2" and h2b: "block_holds h2 blk bytes"
      and f2: "frame {} h h2" and fr: "\<And>k. k \<in> blk_keys blk \<Longrightarrow> hp_next h \<le> k"
      by (rule fresh_filled [OF inv_heap_ok [OF i1] f1 f refl]) blast
    have out: "k \<notin> owns l" if "blk_data blk = Ptr k" for k
      using fr [of k] live_below [OF inv, of k] that by (auto simp: blk_keys_def)
    have i2: "inv l h2" using write_keeps_inv [OF i1 h2] out by blast
    have nin: "\<not> blk_ptr_in blk (owns l)" using out by (auto simp: blk_ptr_in_def)
    obtain l' sends h3 where r: "received l blk status h2 = Some (l', sends, h3)" "inv l' h3"
      and f3: "frame (owns l \<union> blk_keys blk) h2 h3"
      and o: "owns l' \<subseteq> owns l \<union> blk_keys blk \<union> {k. hp_next h2 \<le> k}"
      using received_ok [OF i2 h2b len nin, of status] ok by blast
    have "frame (owns l) h h3"
      by (rule frame_trans [OF frame_mono [OF f2] f3]) (use fr in auto)
    moreover have "owns l' \<subseteq> owns l \<union> {k. hp_next h \<le> k}"
      using o fr f2 by (auto simp: frame_def)
    ultimately show ?thesis
      using Some get h2 r by (auto simp: rx_cycle_def)
  qed
qed

end

end
