(* ===== verification/Uci_Props.thy ===== *)
theory Uci_Props
  imports Uci_Frames Upper_Layer
begin

text \<open>
  The UCI layer as a queue of byte strings: the ownership invariant of the receive list, the
  refinement of \<open>uci_received\<close> and \<open>uci_read\<close>, the interpretation of the upper-layer contract, and
  the properties.
\<close>

section \<open>Ownership of the receive list\<close>

text \<open>
  \<open>rx_chain\<close>: a packet that owns no buffer is followed by the packet that owns the buffer it points
  into, and nothing after an owner uses the owner's buffer.
\<close>

fun rx_chain :: "uci_packet list \<Rightarrow> bool" where
  "rx_chain [] = True"
| "rx_chain (p # ps) =
     ((if blk_data p = NullPtr
       then fst (pk_data p) \<noteq> NullPtr \<and> (\<exists>q \<in> set ps. blk_data q = fst (pk_data p))
       else fst (pk_data p) = blk_data p \<and>
         (\<forall>k. blk_data p = Ptr k \<longrightarrow> (\<forall>q \<in> set ps. blk_data q \<noteq> Ptr k \<and> fst (pk_data q) \<noteq> Ptr k)))
      \<and> rx_chain ps)"

definition uci_owns :: "uci_layer \<Rightarrow> nat set" where
  "uci_owns uci = (\<Union>p \<in> set (uci_rx_list uci). blk_keys p)"

definition uci_inv :: "uci_layer \<Rightarrow> kheap \<Rightarrow> bool" where
  "uci_inv uci h \<longleftrightarrow>
     heap_ok h \<and> rx_chain (uci_rx_list uci) \<and>
     (\<forall>p \<in> set (uci_rx_list uci). \<exists>bs.
        heap_bytes h (fst (pk_data p)) = Some bs \<and> snd (pk_data p) + pk_length p \<le> length bs)"

text \<open>The abstract state: the byte strings waiting to be read.\<close>

definition uci_queue :: "uci_layer \<Rightarrow> kheap \<Rightarrow> byte list list" where
  "uci_queue uci h = map (\<lambda>p. the (pkt_bytes h p)) (uci_rx_list uci)"

lemma rx_chain_data_owned:
  "rx_chain ps \<Longrightarrow> p \<in> set ps \<Longrightarrow> fst (pk_data p) = Ptr k \<Longrightarrow> k \<in> (\<Union>q \<in> set ps. blk_keys q)"
  by (induction ps) (auto simp: blk_keys_def split: if_splits)

lemma rx_chain_owner_data:
  "rx_chain ps \<Longrightarrow> p \<in> set ps \<Longrightarrow> blk_data p = Ptr k \<Longrightarrow> fst (pk_data p) = Ptr k"
  by (induction ps) (auto split: if_splits)

lemma rx_chain_append:
  assumes "rx_chain ps" "rx_chain qs"
    and "\<And>q k. q \<in> set qs \<Longrightarrow> blk_data q = Ptr k \<or> fst (pk_data q) = Ptr k \<Longrightarrow>
           k \<notin> (\<Union>p \<in> set ps. blk_keys p)"
  shows "rx_chain (ps @ qs)"
  using assms by (induction ps) (auto simp: blk_keys_def)

lemma rx_chain_group:
  assumes "\<forall>p \<in> set slices. slice_of data p" "blk_data owner = data" "fst (pk_data owner) = data"
    "data \<noteq> NullPtr"
  shows "rx_chain (slices @ [owner])"
  using assms by (induction slices) (auto simp: slice_of_def)

lemma uci_inv_owner_live: "uci_inv uci h \<Longrightarrow> k \<in> uci_owns uci \<Longrightarrow> hp_mem h k \<noteq> None"
  by (fastforce simp: uci_inv_def uci_owns_def blk_keys_def dest: rx_chain_owner_data)

lemma uci_inv_frame:
  assumes inv: "uci_inv uci h" and eq: "\<And>k. k \<in> uci_owns uci \<Longrightarrow> hp_mem h' k = hp_mem h k"
    and ok: "heap_ok h'"
  shows "uci_inv uci h'" "uci_queue uci h' = uci_queue uci h"
proof -
  have b: "heap_bytes h' (fst (pk_data p)) = heap_bytes h (fst (pk_data p))"
    if "p \<in> set (uci_rx_list uci)" for p
    using that eq rx_chain_data_owned [of "uci_rx_list uci" p] inv
    by (cases "fst (pk_data p)") (auto simp: uci_inv_def uci_owns_def)
  then show "uci_inv uci h'" using inv ok by (simp add: uci_inv_def)
  show "uci_queue uci h' = uci_queue uci h"
    using b by (simp add: uci_queue_def pkt_bytes_def heap_read_def)
qed

section \<open>uci_received appends the frames of the block\<close>

lemma pkt_bytes_SomeD:
  assumes "pkt_bytes h p = Some bs" "0 < pk_length p \<or> heap_bytes h (fst (pk_data p)) \<noteq> None"
  shows "length bs = pk_length p"
  using assms mem_read_SomeD by (auto simp: pkt_bytes_def heap_read_def split: if_splits option.splits)

text \<open>The packets cut from one block point into it.\<close>

definition readable :: "kheap \<Rightarrow> uci_packet \<Rightarrow> bool" where
  "readable h q \<longleftrightarrow>
     (\<exists>bs. heap_bytes h (fst (pk_data q)) = Some bs \<and> snd (pk_data q) + pk_length q \<le> length bs)"

lemma group_readable:
  assumes all: "map (pkt_bytes h) qs = map Some fs" and q: "q \<in> set qs"
    and "heap_bytes h (fst (pk_data q)) = Some bs" and "pk_length q = 0 \<longrightarrow> snd (pk_data q) \<le> length bs"
  shows "readable h q"
proof -
  have "pkt_bytes h q \<in> set (map Some fs)"
    using q unfolding all [symmetric] by simp
  then show ?thesis
    using assms(3,4) by (auto simp: readable_def pkt_bytes_def heap_read_def mem_read_def split: if_splits)
qed

lemma uci_received_appends:
  assumes inv: "uci_inv uci h" and blk: "block_holds h p bs" and own: "\<not> blk_ptr_in p (uci_owns uci)"
  shows "\<exists>uci' h' k. uci_received uci p 0 h = Some (uci', h') \<and> uci_inv uci' h' \<and> same_mem h h' \<and>
    uci_queue uci' h' = uci_queue uci h @ uci_frames k bs \<and> (oracle_total h \<longrightarrow> k = length bs) \<and>
    uci_owns uci' = uci_owns uci \<union> blk_keys p"
proof -
  let ?data = "blk_data p"
  have data: "heap_bytes h ?data = Some bs" and len: "blk_length p = length bs"
    using blk by (auto simp: block_holds_def)
  have nn: "?data \<noteq> NullPtr" using data by auto
  obtain readn uci' h' where loop: "uci_split_loop ?data (length bs) 0 uci h = Some (readn, uci', h')"
    and res: "split_result bs ?data 0 uci h (readn, uci', h')"
    using uci_split_loop_frames [OF data refl, of 0 uci] by auto
  obtain k slices where l: "uci_rx_list uci' = uci_rx_list uci @ slices" and m: "same_mem h h'"
    and b: "readn \<le> length bs" and s: "\<forall>q \<in> set slices. slice_of ?data q"
    and f: "map (pkt_bytes h) slices @ [Some (drop readn bs)] = map Some (uci_frames k bs)"
    and t: "oracle_total h \<longrightarrow> k = length bs"
    using res unfolding split_result_def prod.case by auto
  let ?owner = "p\<lparr>pk_data := (?data, readn), pk_length := length bs - readn\<rparr>"
  let ?uci = "rx_add_tail ?owner uci'"
  have r: "uci_received uci p 0 h = Some (?uci, h')"
    by (simp add: uci_received_def len loop)
  have list: "uci_rx_list ?uci = uci_rx_list uci @ slices @ [?owner]"
    by (simp add: rx_add_tail_def l)
  have keys: "blk_keys q = {}" if "q \<in> set slices" for q
    using that s by (auto simp: slice_of_def blk_keys_def)
  have owns: "uci_owns ?uci = uci_owns uci \<union> blk_keys p"
    unfolding uci_owns_def list using keys by (auto simp: blk_keys_def)
  have chain: "rx_chain (uci_rx_list ?uci)"
    unfolding list
  proof (rule rx_chain_append)
    show "rx_chain (uci_rx_list uci)" using inv by (simp add: uci_inv_def)
    show "rx_chain (slices @ [?owner])" using s nn by (intro rx_chain_group [of slices ?data]) auto
    show "j \<notin> (\<Union>q \<in> set (uci_rx_list uci). blk_keys q)"
      if "q \<in> set (slices @ [?owner])" "blk_data q = Ptr j \<or> fst (pk_data q) = Ptr j" for q j
      using that s own by (auto simp: slice_of_def blk_ptr_in_def uci_owns_def)
  qed
  have "heap_read h ?data readn (length bs - readn) = Some (drop readn bs)"
    using heap_read_bytes [OF data, of readn "length bs - readn"] b by (simp add: chunk_def)
  then have ob: "pkt_bytes h ?owner = Some (drop readn bs)" by (simp only: pkt_bytes_def) simp
  then have all: "map (pkt_bytes h) (slices @ [?owner]) = map Some (uci_frames k bs)"
    using f by simp
  have rd: "readable h' q" if q: "q \<in> set (uci_rx_list uci @ slices @ [?owner])" for q
  proof (cases "q \<in> set (uci_rx_list uci)")
    case True
    then show ?thesis using inv by (auto simp: uci_inv_def readable_def same_mem_bytes [OF m])
  next
    case False
    then have "readable h q" using q s data b by (intro group_readable [OF all]) (auto simp: slice_of_def)
    then show ?thesis by (simp add: readable_def same_mem_bytes [OF m])
  qed
  have inv': "uci_inv ?uci h'"
    using inv chain rd same_mem_heap_ok [OF m] by (simp add: uci_inv_def readable_def list)
  have pb: "pkt_bytes h' = pkt_bytes h"
    using same_mem_read [OF m] by (simp add: pkt_bytes_def fun_eq_iff)
  have "map (\<lambda>q. the (pkt_bytes h q)) (slices @ [?owner]) = map the (map Some (uci_frames k bs))"
    unfolding all [symmetric] by simp
  then have "uci_queue ?uci h' = uci_queue uci h @ uci_frames k bs"
    unfolding uci_queue_def list pb by simp
  with r inv' m t owns show ?thesis by blast
qed

section \<open>uci_read takes one packet off the queue\<close>

lemma uci_inv_pkt_bytes:
  assumes "uci_inv uci h" "p \<in> set (uci_rx_list uci)"
  obtains bs where "pkt_bytes h p = Some bs" "length bs = pk_length p"
proof -
  obtain buf where b: "heap_bytes h (fst (pk_data p)) = Some buf"
    "snd (pk_data p) + pk_length p \<le> length buf"
    using assms by (auto simp: uci_inv_def)
  then have "pkt_bytes h p = Some (chunk buf (snd (pk_data p)) (pk_length p))"
    by (simp add: pkt_bytes_def heap_read_bytes)
  with b show thesis using that by simp
qed

text \<open>Memory that is not the layer's is neither changed, nor freed, nor added to.\<close>

definition uci_own_only :: "uci_layer \<Rightarrow> kheap \<Rightarrow> uci_layer \<Rightarrow> kheap \<Rightarrow> bool" where
  "uci_own_only uci h uci' h' \<longleftrightarrow>
     live h' - uci_owns uci' = live h - uci_owns uci \<and>
     (\<forall>k \<in> live h - uci_owns uci. hp_mem h' k = hp_mem h k)"

lemma uci_own_only_refl [simp]: "uci_own_only uci h uci h"
  by (simp add: uci_own_only_def)

lemma uci_own_only_trans:
  "uci_own_only u h u' h' \<Longrightarrow> uci_own_only u' h' u'' h'' \<Longrightarrow> uci_own_only u h u'' h''"
  by (auto simp: uci_own_only_def)

lemma free_first_packet:
  assumes inv: "uci_inv uci h" and l: "uci_rx_list uci = p # ps"
  shows "\<exists>h'. uci_packet_free p h = Some h' \<and> uci_inv (uci\<lparr>uci_rx_list := ps\<rparr>) h' \<and>
    uci_queue (uci\<lparr>uci_rx_list := ps\<rparr>) h' = uci_queue (uci\<lparr>uci_rx_list := ps\<rparr>) h \<and>
    uci_own_only uci h (uci\<lparr>uci_rx_list := ps\<rparr>) h'"
proof -
  let ?u = "uci\<lparr>uci_rx_list := ps\<rparr>"
  have inv0: "uci_inv ?u h" using inv by (auto simp: uci_inv_def l)
  have owns: "uci_owns uci = blk_keys p \<union> uci_owns ?u" by (simp add: uci_owns_def l)
  show ?thesis
  proof (cases "blk_data p")
    case (Ptr k)
    then obtain bs where k: "hp_mem h k = Some bs"
      using uci_inv_owner_live [OF inv, of k] by (auto simp: uci_owns_def l blk_keys_def)
    let ?h = "h\<lparr>hp_mem := (hp_mem h)(k := None)\<rparr>"
    have f: "uci_packet_free p h = Some ?h"
      using k Ptr by (simp add: uci_packet_free_def hsspi_deinit_block_def)
    have nk: "k \<notin> uci_owns ?u"
      using inv Ptr by (auto simp: uci_inv_def l uci_owns_def blk_keys_def)
    have ok: "heap_ok ?h" using inv by (auto simp: uci_inv_def heap_ok_def)
    have eq: "\<And>j. j \<in> uci_owns ?u \<Longrightarrow> hp_mem ?h j = hp_mem h j" using nk by auto
    have "uci_own_only uci h ?u ?h"
      using nk Ptr by (auto simp: uci_own_only_def live_def owns blk_keys_def)
    then show ?thesis
      using uci_inv_frame [OF inv0 eq ok] f by blast
  next
    case NullPtr
    then show ?thesis
      using inv0 by (auto simp: uci_packet_free_def hsspi_deinit_block_def uci_own_only_def owns blk_keys_def)
  next
    case ZeroPtr
    then show ?thesis
      using inv0 by (auto simp: uci_packet_free_def hsspi_deinit_block_def uci_own_only_def owns blk_keys_def)
  qed
qed

lemma uci_read_dequeues:
  assumes inv: "uci_inv uci h" and q: "uci_queue uci h = f # fs" and w: "nb \<or> w = 0"
    and fits: "length f \<le> len"
  shows "\<exists>uci' h'. uci_read uci len nb w uncopied h
      = Some (if uncopied = 0 then int (length f) else int uncopied, f, uci', h') \<and>
    uci_inv uci' h' \<and> uci_queue uci' h' = fs \<and> uci_own_only uci h uci' h'"
proof -
  obtain p ps where l: "uci_rx_list uci = p # ps" using q by (auto simp: uci_queue_def)
  obtain bs where p: "pkt_bytes h p = Some bs" "length bs = pk_length p"
    using uci_inv_pkt_bytes [OF inv, of p] l by auto
  have f: "bs = f" and fs: "uci_queue (uci\<lparr>uci_rx_list := ps\<rparr>) h = fs"
    using q p by (auto simp: uci_queue_def l)
  obtain h' where "uci_packet_free p h = Some h'" "uci_inv (uci\<lparr>uci_rx_list := ps\<rparr>) h'"
    "uci_queue (uci\<lparr>uci_rx_list := ps\<rparr>) h' = fs" "uci_own_only uci h (uci\<lparr>uci_rx_list := ps\<rparr>) h'"
    using free_first_packet [OF inv l] fs by auto
  then show ?thesis
    using w fits p f by (auto simp: uci_read_def uci_layer_read_def l pkt_bytes_def)
qed

lemma uci_read_too_big:
  assumes inv: "uci_inv uci h" and q: "uci_queue uci h = f # fs" and w: "nb \<or> w = 0"
    and big: "len < length f"
  shows "uci_read uci len nb w uncopied h = Some (- EMSGSIZE, [], uci, h)"
proof -
  obtain p ps where l: "uci_rx_list uci = p # ps" using q by (auto simp: uci_queue_def)
  obtain bs where p: "pkt_bytes h p = Some bs" "length bs = pk_length p"
    using uci_inv_pkt_bytes [OF inv, of p] l by auto
  with q have "pk_length p = length f" by (auto simp: uci_queue_def l)
  with w big show ?thesis by (auto simp: uci_read_def uci_layer_read_def l)
qed

lemma uci_read_empty:
  assumes "uci_queue uci h = []" and w: "nb \<or> w = 0"
  shows "uci_read uci len nb w uncopied h = Some (- EAGAIN, [], uci, h)"
  using assms by (auto simp: uci_read_def uci_layer_read_def uci_queue_def)

section \<open>The contract of an upper layer\<close>

lemma uci_packet_alloc_ok:
  assumes ok: "heap_ok h" and n: "n < 65536"
  shows "\<exists>b h'. uci_packet_alloc n h = Some (b, h') \<and> heap_ok h' \<and> frame {} h h' \<and>
    (case b of None \<Rightarrow> \<not> oracle_total h \<and> live h' = live h
     | Some p \<Rightarrow> fresh_block h h' n p \<and> live h' = live h \<union> blk_keys p)"
proof (cases "hp_oracle h (hp_next h)")
  case None
  then show ?thesis using ok
    by (auto simp: uci_packet_alloc_def kzalloc_struct_def heap_ok_def frame_def live_def oracle_total_def)
next
  case (Some j)
  note S = Some
  show ?thesis
  proof (cases "n = 0")
    case True
    with S ok show ?thesis
      by (auto simp: uci_packet_alloc_def kzalloc_struct_def hsspi_init_block_def krealloc_def
          zero_packet_def u16_id heap_ok_def frame_def live_def fresh_block_def block_holds_def
          blk_keys_def)
  next
    case False
    show ?thesis
    proof (cases "hp_oracle h (Suc (hp_next h))")
      case None
      with False S ok n show ?thesis
        by (auto simp: uci_packet_alloc_def kzalloc_struct_def hsspi_init_block_def krealloc_def
            kmalloc_def zero_packet_def u16_id heap_ok_def frame_def live_def oracle_total_def)
    next
      case (Some j')
      with False S ok n show ?thesis
        by (auto simp: uci_packet_alloc_def kzalloc_struct_def hsspi_init_block_def krealloc_def
            kmalloc_def zero_packet_def u16_id heap_ok_def frame_def live_def fresh_block_def
            block_holds_def blk_keys_def)
    qed
  qed
qed

definition uci_received_op :: "(uci_layer, \<lparr>pk_write_done :: nat option, pk_data :: kptr \<times> nat,
    pk_length :: nat, pk_status :: int\<rparr>) received_op" where
  "uci_received_op uci p status h = map_option (\<lambda>(uci', h'). (uci', [], h')) (uci_received uci p status h)"

lemma same_mem_frame: "same_mem h h' \<Longrightarrow> frame K h h'"
  by (auto simp: same_mem_def frame_def)

lemma uci_free_block:
  assumes inv: "uci_inv uci h" and b: "block_holds h p bs" and own: "\<not> blk_ptr_in p (uci_owns uci)"
  shows "\<exists>h'. uci_packet_free p h = Some h' \<and> uci_inv uci h' \<and> uci_queue uci h' = uci_queue uci h \<and>
    frame (blk_keys p) h h' \<and> live h' = live h - blk_keys p \<and>
    (\<forall>k \<in> live h'. hp_mem h' k = hp_mem h k)"
proof (cases "blk_data p")
  case (Ptr k)
  let ?h = "h\<lparr>hp_mem := (hp_mem h)(k := None)\<rparr>"
  have ok: "heap_ok ?h" using inv by (auto simp: uci_inv_def heap_ok_def)
  have eq: "\<And>j. j \<in> uci_owns uci \<Longrightarrow> hp_mem ?h j = hp_mem h j"
    using own Ptr by (auto simp: blk_ptr_in_def)
  show ?thesis
    using uci_inv_frame [OF inv eq ok] b Ptr
    by (auto simp: uci_packet_free_def hsspi_deinit_block_def block_holds_def frame_def blk_keys_def
        live_def)
qed (use inv b in \<open>auto simp: uci_packet_free_def hsspi_deinit_block_def block_holds_def frame_def
        blk_keys_def live_def\<close>)

interpretation uci_ul: upper_layer uci_inv uci_owns "\<lambda>_ _. True" uci_get uci_received_op
proof
  fix uci h k
  assume "uci_inv uci h"
  then show "heap_ok h" by (simp add: uci_inv_def)
next
  fix uci h k
  assume "uci_inv uci h" "k \<in> uci_owns uci"
  then show "hp_mem h k \<noteq> None" by (rule uci_inv_owner_live)
next
  fix uci h h'
  assume "uci_inv uci h" "\<And>k. k \<in> uci_owns uci \<Longrightarrow> hp_mem h' k = hp_mem h k" "heap_ok h'"
  then show "uci_inv uci h'" by (rule uci_inv_frame)
next
  fix uci h n
  assume inv: "uci_inv uci h" and n: "n < (65536 :: nat)"
  obtain b h' where a: "uci_packet_alloc n h = Some (b, h')" "heap_ok h'" "frame {} h h'"
    "case b of None \<Rightarrow> True | Some p \<Rightarrow> fresh_block h h' n p"
    using uci_packet_alloc_ok [OF _ n, of h] inv by (fastforce simp: uci_inv_def split: option.splits)
  have "hp_mem h' k = hp_mem h k" if "k \<in> uci_owns uci" for k
    using a(3) uci_inv_owner_live [OF inv that] heap_ok_live [of h k] inv
    by (auto simp: frame_def uci_inv_def)
  with a uci_inv_frame(1) [OF inv] show "\<exists>b h'. uci_get uci n h = Some (b, uci, h') \<and> uci_inv uci h' \<and>
      frame {} h h' \<and> (case b of None \<Rightarrow> True | Some blk \<Rightarrow> fresh_block h h' n blk)"
    by (fastforce simp: uci_get_def)
next
  fix uci h bs status and blk :: uci_packet
  assume inv: "uci_inv uci h" and b: "block_holds h blk bs" and own: "\<not> blk_ptr_in blk (uci_owns uci)"
  show "\<exists>uci' sends h'. uci_received_op uci blk status h = Some (uci', sends, h') \<and> uci_inv uci' h' \<and>
      frame (uci_owns uci \<union> blk_keys blk) h h' \<and>
      uci_owns uci' \<subseteq> uci_owns uci \<union> blk_keys blk \<union> {k. hp_next h \<le> k}"
  proof (cases "status = 0")
    case True
    then show ?thesis
      using uci_received_appends [OF inv b own] same_mem_frame
      by (fastforce simp: uci_received_op_def)
  next
    case False
    obtain h' where "uci_packet_free blk h = Some h'" "uci_inv uci h'" "frame (blk_keys blk) h h'"
      using uci_free_block [OF inv b own] by blast
    with False show ?thesis by (auto simp: uci_received_op_def uci_received_def frame_def)
  qed
qed

section \<open>Runs of the layer\<close>

text \<open>
  The core delivers blocks and a user process reads.  A step returns the bytes of a block accepted
  by the layer, and the bytes given to the user.
\<close>

datatype uci_event = RxBlock "byte list" int | UserRead nat

fun uci_step :: "uci_event \<Rightarrow> uci_layer \<Rightarrow> kheap \<Rightarrow>
    (byte list \<times> byte list \<times> uci_layer \<times> kheap) option" where
  "uci_step (RxBlock bytes status) uci h = do {
     (acc, _, uci', h') \<leftarrow> rx_cycle uci_get uci_received_op bytes status uci h;
     Some (if acc \<and> status = 0 then bytes else [], [], uci', h')
   }"
| "uci_step (UserRead len) uci h = do {
     (rc, bytes, uci', h') \<leftarrow> uci_read uci len True 0 0 h;
     Some ([], bytes, uci', h')
   }"

fun uci_run :: "uci_event list \<Rightarrow> uci_layer \<Rightarrow> kheap \<Rightarrow>
    (byte list \<times> byte list \<times> uci_layer \<times> kheap) option" where
  "uci_run [] uci h = Some ([], [], uci, h)"
| "uci_run (e # es) uci h = do {
     (rx, rd, uci1, h1) \<leftarrow> uci_step e uci h;
     (rxs, rds, uci2, h2) \<leftarrow> uci_run es uci1 h1;
     Some (rx @ rxs, rd @ rds, uci2, h2)
   }"

fun uci_event_ok :: "uci_event \<Rightarrow> bool" where
  "uci_event_ok (RxBlock bytes status) = (length bytes < 65536)"
| "uci_event_ok (UserRead len) = True"

text \<open>A reception, exactly: what is appended to the queue and which memory is in use afterwards.\<close>

lemma uci_rx_cycle:
  assumes inv: "uci_inv uci h" and n: "length bytes < 65536"
  shows "\<exists>acc uci' h' k. rx_cycle uci_get uci_received_op bytes status uci h = Some (acc, [], uci', h') \<and>
    uci_inv uci' h' \<and>
    uci_queue uci' h' = uci_queue uci h @ (if acc \<and> status = 0 then uci_frames k bytes else []) \<and>
    (oracle_total h \<longrightarrow> acc \<and> k = length bytes) \<and> hp_oracle h' = hp_oracle h \<and>
    uci_own_only uci h uci' h'"
proof -
  have hok: "heap_ok h" using inv by (simp add: uci_inv_def)
  obtain b h1 where a: "uci_packet_alloc (length bytes) h = Some (b, h1)" and ok1: "heap_ok h1"
    and f: "frame {} h h1" and bb: "case b of None \<Rightarrow> \<not> oracle_total h \<and> live h1 = live h
      | Some p \<Rightarrow> fresh_block h h1 (length bytes) p \<and> live h1 = live h \<union> blk_keys p"
    using uci_packet_alloc_ok [OF hok n] by blast
  have old: "hp_mem h1 k = hp_mem h k" if "k \<in> live h" for k
    using f that heap_ok_live [OF hok] by (auto simp: frame_def live_def)
  have sub: "uci_owns uci \<subseteq> live h" using uci_inv_owner_live [OF inv] by (auto simp: live_def)
  have eq1: "\<And>k. k \<in> uci_owns uci \<Longrightarrow> hp_mem h1 k = hp_mem h k" using old sub by blast
  note i1 = uci_inv_frame [OF inv eq1 ok1]
  show ?thesis
  proof (cases b)
    case None
    then show ?thesis
      using a i1 bb f old
      by (auto simp: rx_cycle_def uci_get_def uci_own_only_def frame_def)
  next
    case (Some p)
    then have fr: "fresh_block h h1 (length bytes) p" and lv: "live h1 = live h \<union> blk_keys p"
      using bb by auto
    obtain h2 where w: "heap_write h1 (blk_data p) 0 bytes = Some h2" and bh: "block_holds h2 p bytes"
      and ok2: "heap_ok h2" and f2: "frame {} h h2" and lv2: "live h2 = live h1"
      and low: "\<And>k. k \<in> blk_keys p \<Longrightarrow> hp_next h \<le> k"
      by (rule fresh_filled [OF ok1 f fr refl]) blast
    have new: "blk_keys p \<inter> live h = {}"
      using low heap_ok_live [OF hok] by (fastforce simp: live_def)
    have old2: "hp_mem h2 k = hp_mem h k" if k: "k \<in> live h" for k
      using f2 heap_ok_live [OF hok] k by (auto simp: frame_def live_def)
    have eq2: "\<And>k. k \<in> uci_owns uci \<Longrightarrow> hp_mem h2 k = hp_mem h k" using old2 sub by blast
    note i2 = uci_inv_frame [OF inv eq2 ok2]
    have own: "\<not> blk_ptr_in p (uci_owns uci)" using new sub by (auto simp: blk_ptr_in_def blk_keys_def)
    show ?thesis
    proof (cases "status = 0")
      case True
      obtain uci' h' k where r: "uci_received uci p 0 h2 = Some (uci', h')" "uci_inv uci' h'"
        and sm: "same_mem h2 h'" and q: "uci_queue uci' h' = uci_queue uci h2 @ uci_frames k bytes"
        and t: "oracle_total h2 \<longrightarrow> k = length bytes" and o: "uci_owns uci' = uci_owns uci \<union> blk_keys p"
        using uci_received_appends [OF i2(1) bh own] by blast
      have "live h' = live h \<union> blk_keys p" using sm lv lv2 by (simp add: same_mem_def live_def)
      then have "uci_own_only uci h uci' h'"
        using o old2 sm new by (auto simp: uci_own_only_def same_mem_def)
      then show ?thesis
        using Some True a w r q t i2 f2 sm
        by (auto simp: rx_cycle_def uci_get_def uci_received_op_def frame_def same_mem_def oracle_total_def)
    next
      case False
      obtain h' where r: "uci_packet_free p h2 = Some h'" "uci_inv uci h'" "uci_queue uci h' = uci_queue uci h2"
        and fr': "frame (blk_keys p) h2 h'" and l': "live h' = live h2 - blk_keys p"
        "\<forall>k \<in> live h'. hp_mem h' k = hp_mem h2 k"
        using uci_free_block [OF i2(1) bh own] by blast
      have "live h' = live h" using l'(1) lv lv2 new by blast
      then have "uci_own_only uci h uci h'"
        using l'(2) old2 by (simp add: uci_own_only_def)
      then show ?thesis
        using Some False a w r i2 f2 fr'
        by (auto simp: rx_cycle_def uci_get_def uci_received_op_def uci_received_def frame_def)
    qed
  qed
qed

text \<open>A read returns the first packet or nothing.\<close>

lemma uci_read_step:
  assumes inv: "uci_inv uci h"
  shows "\<exists>rc rd uci' h'. uci_read uci len True 0 0 h = Some (rc, rd, uci', h') \<and> uci_inv uci' h' \<and>
    concat (uci_queue uci h) = rd @ concat (uci_queue uci' h') \<and>
    uci_own_only uci h uci' h'"
proof (cases "uci_queue uci h")
  case Nil
  with inv uci_read_empty [OF Nil, of True] show ?thesis by fastforce
next
  case (Cons f fs)
  show ?thesis
  proof (cases "length f \<le> len")
    case True
    then show ?thesis using uci_read_dequeues [OF inv Cons _ True, of True 0 0] Cons by force
  next
    case False
    then show ?thesis using uci_read_too_big [OF inv Cons, of True 0 len 0] inv by fastforce
  qed
qed

lemma uci_run_ok:
  assumes "uci_inv uci h" "\<forall>e \<in> set es. uci_event_ok e"
  shows "\<exists>rx rd uci' h'. uci_run es uci h = Some (rx, rd, uci', h') \<and> uci_inv uci' h' \<and>
    concat (uci_queue uci h) @ rx = rd @ concat (uci_queue uci' h') \<and> uci_own_only uci h uci' h'"
  using assms
proof (induction es arbitrary: uci h)
  case (Cons e es)
  have "\<exists>rx rd uci1 h1. uci_step e uci h = Some (rx, rd, uci1, h1) \<and> uci_inv uci1 h1 \<and>
    concat (uci_queue uci h) @ rx = rd @ concat (uci_queue uci1 h1) \<and> uci_own_only uci h uci1 h1"
  proof (cases e)
    case (RxBlock bytes status)
    then have n: "length bytes < 65536" using Cons.prems by simp
    from uci_rx_cycle [OF Cons.prems(1) n, of status] RxBlock show ?thesis
      by (fastforce simp: concat_uci_frames)
  next
    case (UserRead len)
    then show ?thesis using uci_read_step [OF Cons.prems(1), of len] by fastforce
  qed
  then obtain rx rd uci1 h1 where s: "uci_step e uci h = Some (rx, rd, uci1, h1)" "uci_inv uci1 h1"
    and c: "concat (uci_queue uci h) @ rx = rd @ concat (uci_queue uci1 h1)"
    and o: "uci_own_only uci h uci1 h1" by blast
  obtain rxs rds uci2 h2 where r: "uci_run es uci1 h1 = Some (rxs, rds, uci2, h2)" "uci_inv uci2 h2"
    and c2: "concat (uci_queue uci1 h1) @ rxs = rds @ concat (uci_queue uci2 h2)"
    and o2: "uci_own_only uci1 h1 uci2 h2"
    using Cons.IH [OF s(2)] Cons.prems by auto
  have "concat (uci_queue uci h) @ rx @ rxs = rd @ rds @ concat (uci_queue uci2 h2)"
    using c c2 by (metis append.assoc)
  then show ?case using s r uci_own_only_trans [OF o o2] by auto
qed simp

lemma clear_rx_list_ok:
  "uci_inv uci h \<Longrightarrow> \<exists>h'. clear_rx_list (uci_rx_list uci) h = Some h' \<and>
     live h' = live h - uci_owns uci \<and> (\<forall>k \<in> live h'. hp_mem h' k = hp_mem h k)"
proof (induction "uci_rx_list uci" arbitrary: uci h)
  case Nil
  then have "uci_rx_list uci = []" by simp
  then show ?case by (simp add: uci_owns_def)
next
  case (Cons p ps)
  let ?u = "uci\<lparr>uci_rx_list := ps\<rparr>"
  have l: "uci_rx_list uci = p # ps" using Cons.hyps(2) by simp
  obtain h1 where f: "uci_packet_free p h = Some h1" "uci_inv ?u h1"
    and o: "uci_own_only uci h ?u h1"
    using free_first_packet [OF Cons.prems l] by blast
  obtain h' where c: "clear_rx_list ps h1 = Some h'" and lv: "live h' = live h1 - uci_owns ?u"
    and eq: "\<forall>k \<in> live h'. hp_mem h' k = hp_mem h1 k"
    using Cons.hyps(1) [of ?u h1] f(2) by auto
  have "live h' = live h - uci_owns uci" using lv o by (simp add: uci_own_only_def)
  moreover have "\<forall>k \<in> live h'. hp_mem h' k = hp_mem h k"
    using eq o lv by (auto simp: uci_own_only_def)
  ultimately show ?case using f c by (simp add: l)
qed

lemma uci_init_inv [simp]:
  "heap_ok h \<Longrightarrow> uci_inv uci_layer_init h" "uci_queue uci_layer_init h = []"
  "uci_owns uci_layer_init = {}"
  by (simp_all add: uci_inv_def uci_layer_init_def uci_queue_def uci_owns_def)

section \<open>Properties\<close>

text \<open>
  Claim C4. No byte is lost, duplicated or reordered.  For every sequence of received blocks (of any
  content and status) and reads by one reader, with any allocation failures, the layer performs no
  use after free, double free or out-of-bounds access; the bytes read so far followed by the bytes
  queued are the bytes of the accepted blocks in order; and once the queue is empty every buffer
  has been freed.
\<close>

theorem uci_stream_integrity:
  assumes "heap_ok h" "\<forall>e \<in> set es. uci_event_ok e"
  shows "\<exists>rx rd uci' h'. uci_run es uci_layer_init h = Some (rx, rd, uci', h') \<and>
    rx = rd @ concat (uci_queue uci' h') \<and>
    (uci_rx_list uci' = [] \<longrightarrow> live h' = live h) \<and>
    (\<forall>k \<in> live h. hp_mem h' k = hp_mem h k)"
proof -
  obtain rx rd uci' h' where r: "uci_run es uci_layer_init h = Some (rx, rd, uci', h')"
    "concat (uci_queue uci_layer_init h) @ rx = rd @ concat (uci_queue uci' h')"
    and o: "uci_own_only uci_layer_init h uci' h'"
    using uci_run_ok [OF uci_init_inv(1) [OF assms(1)] assms(2)] by blast
  have "uci_rx_list uci' = [] \<longrightarrow> uci_owns uci' = {}" by (simp add: uci_owns_def)
  with r o show ?thesis by (auto simp: uci_own_only_def)
qed

theorem uci_stream_integrity_witness:
  "\<exists>rx rd uci' h'.
    uci_run [RxBlock [0x20, 0, 0, 1, 7, 0x21, 0, 0, 0] 0, UserRead 2, RxBlock [1] 5, UserRead 10]
      uci_layer_init empty_heap = Some (rx, rd, uci', h') \<and>
    rx = rd @ concat (uci_queue uci' h') \<and>
    (uci_rx_list uci' = [] \<longrightarrow> live h' = live empty_heap) \<and>
    (\<forall>k \<in> live empty_heap. hp_mem h' k = hp_mem empty_heap k)"
  by (rule uci_stream_integrity) simp_all

text \<open>
  Claim C22. When allocations succeed, a block that is a sequence of well-formed UCI packets is cut
  into exactly these packets: they are appended to the receive queue, in order.
\<close>

theorem uci_received_cuts_packets:
  assumes "uci_inv uci h" "block_holds h p (concat pkts)" "\<not> blk_ptr_in p (uci_owns uci)"
    and "pkts \<noteq> []" "\<forall>q \<in> set pkts. uci_wf_packet q" "oracle_total h"
  shows "\<exists>uci' h'. uci_received uci p 0 h = Some (uci', h') \<and> uci_inv uci' h' \<and>
    uci_queue uci' h' = uci_queue uci h @ pkts"
proof -
  obtain uci' h' where r: "uci_received uci p 0 h = Some (uci', h')" "uci_inv uci' h'"
    "uci_queue uci' h' = uci_queue uci h @ uci_frames (length (concat pkts)) (concat pkts)"
    using uci_received_appends [OF assms(1-3)] assms(6) by blast
  have count: "length qs \<le> length (concat qs)" if "\<forall>q \<in> set qs. 0 < length q" for qs :: "byte list list"
    using that by (induction qs) (auto simp: Suc_le_eq intro: add_strict_increasing add_less_le_mono)
  have "\<forall>q \<in> set pkts. 0 < length q" using assms(5) by (auto simp: uci_wf_packet_def)
  then have "length pkts \<le> Suc (length (concat pkts))" using count le_SucI by blast
  then show ?thesis using r uci_frames_concat [OF assms(4,5)] by auto
qed

definition two_packet_heap :: kheap where
  "two_packet_heap = \<lparr>hp_mem = [0 \<mapsto> [0x20, 0, 0, 1, 7, 0x21, 0, 0, 0]], hp_next = 1,
     hp_oracle = \<lambda>_. Some []\<rparr>"

definition two_packet_block :: uci_packet where
  "two_packet_block = zero_packet\<lparr>blk_data := Ptr 0, blk_length := 9, blk_size := 9\<rparr>"

lemma two_packet_facts:
  "uci_inv uci_layer_init two_packet_heap"
  "block_holds two_packet_heap two_packet_block (concat [[0x20, 0, 0, 1, 7], [0x21, 0, 0, 0]])"
  "oracle_total two_packet_heap"
  "uci_wf_packet [0x20, 0, 0, 1, 7]" "uci_wf_packet [0x21, 0, 0, 0]"
  by (simp_all add: two_packet_heap_def two_packet_block_def zero_packet_def block_holds_def
      oracle_total_def uci_wf_packet_def uci_frame_size_def UCI_PACKET_HEADER_SIZE_def
      get_payload_size_from_header_def heap_ok_def)

theorem uci_received_cuts_packets_witness:
  "\<exists>uci' h'. uci_received uci_layer_init two_packet_block 0 two_packet_heap = Some (uci', h') \<and>
    uci_inv uci' h' \<and>
    uci_queue uci' h' = uci_queue uci_layer_init two_packet_heap @ [[0x20, 0, 0, 1, 7], [0x21, 0, 0, 0]]"
  by (rule uci_received_cuts_packets) (use two_packet_facts in \<open>simp_all add: blk_ptr_in_def\<close>)

text \<open>
  Whatever the firmware sends, every packet the layer cuts off a block is complete, its
  length being what its header says; only the last may be shorter or, when memory ran out, longer.
  With enough memory the last one holds no second packet either.
\<close>

lemma uci_received_packets_complete:
  assumes "uci_inv uci h" "block_holds h p bs" "\<not> blk_ptr_in p (uci_owns uci)"
  shows "\<exists>uci' h' new. uci_received uci p 0 h = Some (uci', h') \<and>
    uci_queue uci' h' = uci_queue uci h @ new \<and> concat new = bs \<and> new \<noteq> [] \<and>
    (\<forall>f \<in> set (butlast new). uci_wf_packet f) \<and>
    (oracle_total h \<longrightarrow> length (last new) < 4 \<or> length (last new) \<le> uci_frame_size (last new))"
proof -
  obtain uci' h' k where r: "uci_received uci p 0 h = Some (uci', h')"
    "uci_queue uci' h' = uci_queue uci h @ uci_frames k bs" "oracle_total h \<longrightarrow> k = length bs"
    using uci_received_appends [OF assms] by blast
  then show ?thesis
    using concat_uci_frames [of k bs] uci_frames_butlast_wf [of _ k bs]
      uci_frames_last [of bs k "last (uci_frames k bs)"]
    by (intro exI [of _ uci'] exI [of _ h'] exI [of _ "uci_frames k bs"]) auto
qed

text \<open>
  \<open>uci_read\<close> on every branch: a packet that fits is returned whole and removed; one that
  does not fit stays queued and the call returns -EMSGSIZE; an empty queue gives -EAGAIN; an
  interrupted wait gives its error.  When \<open>copy_to_user\<close> fails the packet is lost and the number
  of bytes not copied is returned, as if it were a successful read of that length.
\<close>

lemma uci_read_branches:
  assumes "uci_inv uci h"
  shows "\<exists>rc rd uci' h'. uci_read uci len nb w uncopied h = Some (rc, rd, uci', h') \<and> uci_inv uci' h' \<and>
    (if \<not> nb \<and> w \<noteq> 0 then rc = w \<and> uci_queue uci' h' = uci_queue uci h
     else case uci_queue uci h of
       [] \<Rightarrow> rc = - EAGAIN \<and> uci_queue uci' h' = []
     | f # fs \<Rightarrow>
         if len < length f then rc = - EMSGSIZE \<and> uci_queue uci' h' = f # fs
         else rc = (if uncopied = 0 then int (length f) else int uncopied) \<and> rd = f \<and>
              uci_queue uci' h' = fs)"
proof (cases "\<not> nb \<and> w \<noteq> 0")
  case True
  then show ?thesis using assms by (simp add: uci_read_def uci_layer_read_def)
next
  case False
  then have w: "nb \<or> w = 0" by blast
  show ?thesis
  proof (cases "uci_queue uci h")
    case Nil
    with False uci_read_empty [OF Nil w] assms show ?thesis by auto
  next
    case (Cons f fs)
    then show ?thesis
      using False uci_read_too_big [OF assms Cons w, of len] uci_read_dequeues [OF assms Cons w, of len] assms
      by (cases "length f \<le> len") fastforce+
  qed
qed

text \<open>
  Claim C39. Two concurrent readers can use freed memory: when one has taken a packet cut from a
  shared buffer and not yet copied it, and the other takes the packet that owns the buffer, copies
  and frees it, the first one's \<open>copy_to_user\<close> reads freed memory.
\<close>

theorem uci_two_readers_use_after_free:
  assumes "uci_inv uci h" "uci_rx_list uci = p # q # ps" "blk_data p = NullPtr"
    and "fst (pk_data p) = blk_data q" "0 < pk_length p" "blk_data q \<noteq> ZeroPtr"
    and "pk_length p \<le> len" "pk_length q \<le> len"
  shows "\<exists>uci1 rc rd uci2 h'. uci_layer_read uci len True 0 = (Inr p, uci1) \<and>
    uci_read uci1 len True 0 0 h = Some (rc, rd, uci2, h') \<and> pkt_bytes h' p = None"
proof -
  let ?u = "uci\<lparr>uci_rx_list := q # ps\<rparr>"
  have inv1: "uci_inv ?u h" using assms(1,2) by (auto simp: uci_inv_def)
  have "fst (pk_data p) \<noteq> NullPtr" using assms(1-3) by (simp add: uci_inv_def)
  then obtain k where k: "blk_data q = Ptr k" using assms(4,6) by (cases "blk_data q") auto
  obtain bs where q: "pkt_bytes h q = Some bs" "length bs = pk_length q"
    using uci_inv_pkt_bytes [OF inv1, of q] by auto
  obtain m where m: "hp_mem h k = Some m"
    using uci_inv_owner_live [OF inv1, of k] k by (auto simp: uci_owns_def blk_keys_def)
  have r1: "uci_layer_read uci len True 0 = (Inr p, ?u)"
    using assms by (simp add: uci_layer_read_def)
  have "uci_read ?u len True 0 0 h
      = Some (int (pk_length q), bs, uci\<lparr>uci_rx_list := ps\<rparr>, h\<lparr>hp_mem := (hp_mem h)(k := None)\<rparr>)"
    using assms q m k
    by (simp add: uci_read_def uci_layer_read_def pkt_bytes_def uci_packet_free_def hsspi_deinit_block_def)
  moreover have "pkt_bytes (h\<lparr>hp_mem := (hp_mem h)(k := None)\<rparr>) p = None"
    using assms k by (simp add: pkt_bytes_def heap_read_def)
  ultimately show ?thesis using r1 by blast
qed

definition two_slices :: uci_layer where
  "two_slices = \<lparr>uci_rx_list = [zero_packet\<lparr>pk_data := (Ptr 0, 0), pk_length := 5\<rparr>,
     two_packet_block\<lparr>pk_data := (Ptr 0, 5), pk_length := 4\<rparr>]\<rparr>"

theorem uci_two_readers_use_after_free_witness:
  "\<exists>uci1 rc rd uci2 h'.
    uci_layer_read two_slices 64 True 0
      = (Inr (zero_packet\<lparr>pk_data := (Ptr 0, 0), pk_length := 5\<rparr>), uci1) \<and>
    uci_read uci1 64 True 0 0 two_packet_heap = Some (rc, rd, uci2, h') \<and>
    pkt_bytes h' (zero_packet\<lparr>pk_data := (Ptr 0, 0), pk_length := 5\<rparr>) = None"
  by (rule uci_two_readers_use_after_free [where
        q = "two_packet_block\<lparr>pk_data := (Ptr 0, 5), pk_length := 4\<rparr>" and ps = "[]"])
    (simp_all add: two_slices_def zero_packet_def two_packet_block_def two_packet_heap_def
      uci_inv_def heap_ok_def)

text \<open>
  Unregistering or deinitialising the layer frees every queued buffer exactly once and
  leaves an empty queue.
\<close>

lemma uci_deinit_frees_all:
  assumes "uci_inv uci h"
  shows "\<exists>uci' h'. uci_layer_deinit uci h = Some (uci', h') \<and>
    \<not> uci_layer_has_data_available uci' \<and> live h' = live h - uci_owns uci \<and>
    (\<forall>k \<in> live h'. hp_mem h' k = hp_mem h k)"
  using clear_rx_list_ok [OF assms]
  by (auto simp: uci_layer_deinit_def uci_unregistered_def uci_layer_has_data_available_def)

end
