(* ===== verification/Hsspi.thy ===== *)
theory Hsspi
  imports Upper_Layer
begin

unbundle bit_operations_syntax

text \<open>
  The HSSPI core (hsspi.c): the work list and the layer table, the SPI transfer with its retries,
  reception and transmission, the thread that performs all transfers, and the calls made by the
  upper layers, the character device and the interrupt handlers.

  The state record follows \<open>struct hsspi\<close>.  It also holds the heap, the state \<open>hs_up\<close> of the
  registered layers, the disable depth of the SS_IRQ line (\<open>hs_irq_depth\<close>, kept by
  \<open>disable_irq_nosync\<close> and \<open>enable_irq\<close>), and \<open>hs_out\<close>, the sequence of actions that are visible
  outside the core.  A critical section under \<open>lock\<close> is one step.

  The platform is a parameter: \<open>attempt\<close> holds what the environment does during one pass of the
  retry loop of \<open>spi_xfer\<close>: GPIO levels, interrupts that arrive, the outcome of a timed wait, and
  the answer of the SPI controller.
\<close>

section \<open>Data\<close>

record stc_header =
  stc_flags :: byte
  stc_ul :: nat
  stc_length :: nat

definition STC_HOST_WR :: byte where "STC_HOST_WR = 0x80"
definition STC_HOST_PRD :: byte where "STC_HOST_PRD = 0x40"
definition STC_HOST_RD :: byte where "STC_HOST_RD = 0x20"
definition STC_SOC_ODW :: byte where "STC_SOC_ODW = 0x80"
definition STC_SOC_OA :: byte where "STC_SOC_OA = 0x40"
definition STC_SOC_RDY :: byte where "STC_SOC_RDY = 0x20"
definition STC_SOC_ERR :: byte where "STC_SOC_ERR = 0x10"

definition UL_UCI_APP :: nat where "UL_UCI_APP = 2"
definition UL_COREDUMP :: nat where "UL_COREDUMP = 3"
definition UL_LOG :: nat where "UL_LOG = 4"
definition UL_TEST_HSSPI :: nat where "UL_TEST_HSSPI = 5"
definition UL_MAX_IDX :: nat where "UL_MAX_IDX = 6"
definition MAX_SUCCESSIVE_ERRORS :: nat where "MAX_SUCCESSIVE_ERRORS = 5"

text \<open>\<open>lay_ptr\<close> is the address of the layer: the code compares layers by address.\<close>

record hsspi_layer =
  lay_ptr :: nat
  lay_id :: nat

text \<open>The driver's layers as their initialisers describe them to the core, at distinct addresses.\<close>

definition uci_lay :: hsspi_layer where "uci_lay = \<lparr>lay_ptr = 1, lay_id = UL_UCI_APP\<rparr>"
definition coredump_lay :: hsspi_layer where "coredump_lay = \<lparr>lay_ptr = 2, lay_id = UL_COREDUMP\<rparr>"
definition log_lay :: hsspi_layer where "log_lay = \<lparr>lay_ptr = 3, lay_id = UL_LOG\<rparr>"
definition test_hsspi_layer :: hsspi_layer where "test_hsspi_layer = \<lparr>lay_ptr = 4, lay_id = UL_TEST_HSSPI\<rparr>"

datatype 'b hsspi_work =
    HSSPI_WORK_TX "'b hsspi_block_scheme" hsspi_layer
  | HSSPI_WORK_COMPLETION nat

datatype hsspi_state = HSSPI_RUNNING | HSSPI_ERROR | HSSPI_STOPPED

datatype 'b hsspi_out =
    Out_wakeup
  | Out_odw_cleared
  | Out_reset_qm35
  | Out_xfer stc_header int stc_header
  | Out_complete nat
  | Out_queued "'b hsspi_block_scheme" hsspi_layer
  | Out_sent "'b hsspi_block_scheme" hsspi_layer int

record ('l, 'b) hsspi =
  hs_work_list :: "'b hsspi_work list"
  hs_layers :: "hsspi_layer option list"
  hs_state :: hsspi_state
  hs_ss_irq :: bool
  hs_ss_ready :: bool
  hs_ss_busy :: bool
  hs_host :: stc_header
  hs_soc :: stc_header
  hs_waiting_ss_rdy :: bool
  hs_irq_depth :: int
  hs_heap :: kheap
  hs_up :: 'l
  hs_out :: "'b hsspi_out list"

text \<open>The operations of a layer, as the core calls them.\<close>

record ('l, 'b) layer_ops =
  op_get :: "('l, 'b) get_op"
  op_received :: "('l, 'b) received_op"
  op_sent :: "'l \<Rightarrow> 'b hsspi_block_scheme \<Rightarrow> int \<Rightarrow> kheap \<Rightarrow> ('l \<times> kheap) option"

type_synonym ('l, 'b) ops_table = "hsspi_layer \<Rightarrow> ('l, 'b) layer_ops"

definition emit :: "'b hsspi_out \<Rightarrow> ('l, 'b) hsspi \<Rightarrow> ('l, 'b) hsspi" where
  "emit a s = s\<lparr>hs_out := hs_out s @ [a]\<rparr>"

section \<open>Flags and interrupts\<close>

definition hsspi_clear_spi_slave_busy :: "('l, 'b) hsspi \<Rightarrow> ('l, 'b) hsspi" where
  "hsspi_clear_spi_slave_busy s = s\<lparr>hs_ss_busy := False\<rparr>"

definition hsspi_set_spi_slave_busy :: "('l, 'b) hsspi \<Rightarrow> ('l, 'b) hsspi" where
  "hsspi_set_spi_slave_busy s = s\<lparr>hs_ss_busy := True\<rparr>"

definition hsspi_set_spi_slave_ready :: "('l, 'b) hsspi \<Rightarrow> ('l, 'b) hsspi" where
  "hsspi_set_spi_slave_ready s = s\<lparr>hs_ss_ready := True\<rparr>"

definition hsspi_clear_spi_slave_ready :: "('l, 'b) hsspi \<Rightarrow> ('l, 'b) hsspi" where
  "hsspi_clear_spi_slave_ready s = s\<lparr>hs_ss_ready := False\<rparr>"

definition hsspi_set_output_data_waiting :: "('l, 'b) hsspi \<Rightarrow> ('l, 'b) hsspi" where
  "hsspi_set_output_data_waiting s = s\<lparr>hs_ss_irq := True\<rparr>"

text \<open>\<open>hsspi->wakeup\<close>, \<open>hsspi->odw_cleared\<close> (which is \<open>reenable_ss_irq\<close>) and \<open>hsspi->reset_qm35\<close>.\<close>

definition call_wakeup :: "('l, 'b) hsspi \<Rightarrow> ('l, 'b) hsspi" where
  "call_wakeup s = emit Out_wakeup s"

definition reenable_ss_irq :: "('l, 'b) hsspi \<Rightarrow> ('l, 'b) hsspi" where
  "reenable_ss_irq s = emit Out_odw_cleared (s\<lparr>hs_irq_depth := hs_irq_depth s - 1\<rparr>)"

datatype irq = IRQ_SS_READY | IRQ_SS_IRQ | IRQ_EXTON

text \<open>
  The interrupt handlers of qm35-spi.c, as far as they act on the core: \<open>qm35_ss_rdy_handler\<close>,
  \<open>qm35_irq_handler\<close> (only delivered while the line is enabled) and \<open>qm35_exton_handler\<close>.
\<close>

definition qm35_ss_rdy_handler :: "('l, 'b) hsspi \<Rightarrow> ('l, 'b) hsspi" where
  "qm35_ss_rdy_handler s = hsspi_set_spi_slave_ready (hsspi_clear_spi_slave_busy s)"

definition qm35_irq_handler :: "('l, 'b) hsspi \<Rightarrow> ('l, 'b) hsspi" where
  "qm35_irq_handler s = hsspi_set_output_data_waiting (s\<lparr>hs_irq_depth := hs_irq_depth s + 1\<rparr>)"

definition qm35_exton_handler :: "('l, 'b) hsspi \<Rightarrow> ('l, 'b) hsspi" where
  "qm35_exton_handler s =
     (let s1 = hsspi_clear_spi_slave_ready s in
      if hs_waiting_ss_rdy s1 then call_wakeup s1 else s1)"

fun deliver_irq :: "irq \<Rightarrow> ('l, 'b) hsspi \<Rightarrow> ('l, 'b) hsspi" where
  "deliver_irq IRQ_SS_READY s = qm35_ss_rdy_handler s"
| "deliver_irq IRQ_SS_IRQ s = (if hs_irq_depth s = 0 then qm35_irq_handler s else s)"
| "deliver_irq IRQ_EXTON s = qm35_exton_handler s"

definition deliver_irqs :: "irq list \<Rightarrow> ('l, 'b) hsspi \<Rightarrow> ('l, 'b) hsspi" where
  "deliver_irqs irqs s = fold deliver_irq irqs s"

section \<open>The SPI transfer\<close>

record attempt =
  at_irqs_before :: "irq list"
  at_ss_rdy :: bool
  at_exton :: bool
  at_irqs_wait :: "irq list"
  at_signal :: bool
  at_ss_rdy_after :: bool
  at_spi :: "stc_header \<Rightarrow> byte list \<Rightarrow> int \<times> stc_header \<times> byte list"
  at_irqs_xfer :: "irq list"

text \<open>
  \<open>wait_event_interruptible_timeout\<close> returns a positive number when the condition
  (\<open>test_and_clear_bit\<close> of SS_READY) held, 0 on timeout and a negative error on a signal.
\<close>

definition wait_ready_event :: "attempt \<Rightarrow> ('l, 'b) hsspi \<Rightarrow> int \<times> ('l, 'b) hsspi" where
  "wait_ready_event a s =
     (let s1 = deliver_irqs (at_irqs_wait a) s in
      if hs_ss_ready s1 then (1, s1\<lparr>hs_ss_ready := False\<rparr>)
      else (if at_signal a then - ERESTARTSYS else 0, s1))"

definition hsspi_wait_ss_ready :: "attempt \<Rightarrow> ('l, 'b) hsspi \<Rightarrow> int \<times> ('l, 'b) hsspi" where
  "hsspi_wait_ss_ready a s0 =
     (let s = deliver_irqs (at_irqs_before a) (s0\<lparr>hs_waiting_ss_rdy := True\<rparr>) in
      let s = (if \<not> hs_ss_busy s then s\<lparr>hs_ss_ready := False\<rparr> else s) in
      if \<not> hs_ss_busy s \<and> at_ss_rdy a then (0, s)
      else
        let s = (if \<not> at_exton a then call_wakeup s else s);
            (ret, s) = wait_ready_event a s
        in if ret = 0 then (- EAGAIN, s)
           else if ret < 0 then (ret, s)
           else if \<not> at_ss_rdy_after a then (- EAGAIN, s)
           else (0, s\<lparr>hs_waiting_ss_rdy := False\<rparr>))"

definition soc_not_ready :: "stc_header \<Rightarrow> bool" where
  "soc_not_ready h \<longleftrightarrow> stc_flags h AND STC_SOC_RDY = 0 \<or> stc_flags h AND 0x0f \<noteq> 0"

text \<open>
  \<open>spi_sync_transfer\<close> of the header and, unless \<open>length\<close> is 0, of the payload: it reads
  \<open>length\<close> bytes at \<open>tx\<close> and stores \<open>length\<close> bytes at \<open>rx\<close>, where these are not NULL.
\<close>

definition spi_sync_transfer ::
  "attempt \<Rightarrow> kptr \<Rightarrow> kptr \<Rightarrow> nat \<Rightarrow> ('l, 'b) hsspi \<Rightarrow> (int \<times> ('l, 'b) hsspi) option" where
  "spi_sync_transfer a tx rx n s = do {
     tx_bytes \<leftarrow> (if tx = NullPtr then Some [] else heap_read (hs_heap s) tx 0 n);
     let (ret, soc, rx_bytes) = at_spi a (hs_host s) tx_bytes;
     heap \<leftarrow> (if rx = NullPtr then Some (hs_heap s) else heap_write (hs_heap s) rx 0 (fit n rx_bytes));
     Some (ret, deliver_irqs (at_irqs_xfer a)
                  (emit (Out_xfer (hs_host s) ret soc) (s\<lparr>hs_soc := soc, hs_heap := heap\<rparr>)))
   }"

text \<open>One pass through the body of the loop in \<open>spi_xfer\<close>.\<close>

definition xfer_attempt ::
  "attempt \<Rightarrow> kptr \<Rightarrow> kptr \<Rightarrow> nat \<Rightarrow> ('l, 'b) hsspi \<Rightarrow> (int \<times> ('l, 'b) hsspi) option" where
  "xfer_attempt a tx rx n s =
     (let (ret, s) = hsspi_wait_ss_ready a s in
      if ret < 0 then Some (ret, s)
      else do {
        (ret, s) \<leftarrow> spi_sync_transfer a tx rx n (hsspi_set_spi_slave_busy s);
        if ret \<noteq> 0 then Some (ret, s)
        else if soc_not_ready (hs_soc s) then Some (- EAGAIN, call_wakeup s)
        else Some (0, s)
      })"

text \<open>\<open>do { ... } while (ret == -EAGAIN && --retry > 0)\<close>\<close>

fun xfer_loop ::
  "nat \<Rightarrow> (nat \<Rightarrow> attempt) \<Rightarrow> kptr \<Rightarrow> kptr \<Rightarrow> nat \<Rightarrow> ('l, 'b) hsspi \<Rightarrow> (int \<times> ('l, 'b) hsspi) option"
where
  "xfer_loop retry env tx rx n s = do {
     (ret, s) \<leftarrow> xfer_attempt (env 0) tx rx n s;
     if ret = - EAGAIN \<and> 0 < retry - 1 then xfer_loop (retry - 1) (\<lambda>i. env (Suc i)) tx rx n s
     else Some (ret, s)
   }"

declare xfer_loop.simps [simp del]

definition spi_xfer ::
  "(nat \<Rightarrow> attempt) \<Rightarrow> kptr \<Rightarrow> kptr \<Rightarrow> nat \<Rightarrow> ('l, 'b) hsspi \<Rightarrow> (int \<times> ('l, 'b) hsspi) option" where
  "spi_xfer env tx rx n s = do {
     (ret, s) \<leftarrow> xfer_loop 5 env tx rx n (s\<lparr>hs_soc := \<lparr>stc_flags = 0, stc_ul = 0, stc_length = 0\<rparr>\<rparr>);
     Some (ret, s\<lparr>hs_waiting_ss_rdy := False\<rparr>)
   }"

definition check_soc_flag :: "byte \<Rightarrow> bool \<Rightarrow> bool" where
  "check_soc_flag soc_flags is_tx \<longleftrightarrow>
     (let expected = (if is_tx then 0 else STC_SOC_OA)
      in soc_flags AND (STC_SOC_ERR OR STC_SOC_OA) = expected)"

section \<open>The work list and the layer table\<close>

definition layer_id_is_valid :: "nat \<Rightarrow> bool" where
  "layer_id_is_valid ul \<longleftrightarrow> ul < UL_MAX_IDX"

definition get_work :: "('l, 'b) hsspi \<Rightarrow> 'b hsspi_work option \<times> ('l, 'b) hsspi" where
  "get_work s =
     (case hs_work_list s of
        [] \<Rightarrow> (None, s)
      | hw # hws \<Rightarrow> (Some hw, s\<lparr>hs_work_list := hws\<rparr>))"

definition is_txrx_waiting :: "('l, 'b) hsspi \<Rightarrow> bool" where
  "is_txrx_waiting s \<longleftrightarrow> hs_work_list s \<noteq> [] \<or> hs_state s = HSSPI_RUNNING \<and> hs_ss_irq s"

definition work_add_tail :: "'b hsspi_work \<Rightarrow> ('l, 'b) hsspi \<Rightarrow> ('l, 'b) hsspi" where
  "work_add_tail hw s = s\<lparr>hs_work_list := hs_work_list s @ [hw]\<rparr>"

text \<open>\<open>layer\<close> and \<open>blk\<close> may be NULL, which is \<open>None\<close>.\<close>

definition hsspi_send ::
  "hsspi_layer option \<Rightarrow> 'b hsspi_block_scheme option \<Rightarrow> ('l, 'b) hsspi \<Rightarrow> int \<times> ('l, 'b) hsspi" where
  "hsspi_send layer blk s =
     (case (layer, blk) of
        (Some lay, Some b) \<Rightarrow>
          if \<not> layer_id_is_valid (lay_id lay) then (- EINVAL, s)
          else
            let (ok, heap) = kzalloc_struct (hs_heap s); s = s\<lparr>hs_heap := heap\<rparr> in
            if \<not> ok then (- ENOMEM, s)
            else if hs_state s \<noteq> HSSPI_RUNNING then (- EAGAIN, s)
            else if hs_layers s ! lay_id lay \<noteq> Some lay then (- EINVAL, s)
            else (0, emit (Out_queued b lay) (work_add_tail (HSSPI_WORK_TX b lay) s))
      | _ \<Rightarrow> (- EINVAL, s))"

definition hsspi_register :: "hsspi_layer \<Rightarrow> ('l, 'b) hsspi \<Rightarrow> int \<times> ('l, 'b) hsspi" where
  "hsspi_register layer s =
     (if \<not> layer_id_is_valid (lay_id layer) then (- EINVAL, s)
      else if hs_layers s ! lay_id layer \<noteq> None then (- EBUSY, s)
      else (0, s\<lparr>hs_layers := (hs_layers s)[lay_id layer := Some layer]\<rparr>))"

text \<open>
  \<open>hsspi_unregister\<close> and \<open>hsspi_stop\<close> up to the point where they wait for their completion \<open>c\<close>;
  the caller returns once \<open>Out_complete c\<close> has occurred.
\<close>

definition hsspi_unregister :: "hsspi_layer \<Rightarrow> nat \<Rightarrow> ('l, 'b) hsspi \<Rightarrow> int \<times> ('l, 'b) hsspi" where
  "hsspi_unregister layer c s =
     (if \<not> layer_id_is_valid (lay_id layer) then (- EINVAL, s)
      else if hs_layers s ! lay_id layer = Some layer then
        (0, work_add_tail (HSSPI_WORK_COMPLETION c)
              (s\<lparr>hs_layers := (hs_layers s)[lay_id layer := None]\<rparr>))
      else (- EINVAL, s))"

definition hsspi_start :: "('l, 'b) hsspi \<Rightarrow> ('l, 'b) hsspi" where
  "hsspi_start s = s\<lparr>hs_state := HSSPI_RUNNING\<rparr>"

definition hsspi_stop :: "nat \<Rightarrow> ('l, 'b) hsspi \<Rightarrow> ('l, 'b) hsspi" where
  "hsspi_stop c s = work_add_tail (HSSPI_WORK_COMPLETION c) (s\<lparr>hs_state := HSSPI_STOPPED\<rparr>)"

text \<open>
  \<open>hsspi_init\<close> zeroes the structure.  \<open>thread_err\<close> is what \<open>kthread_create\<close> reports.  The two
  headers are allocated without a check; the model has them from the start.
\<close>

definition hsspi_init :: "int \<Rightarrow> kheap \<Rightarrow> 'l \<Rightarrow> int \<times> ('l, 'b) hsspi" where
  "hsspi_init thread_err heap up =
     (if thread_err \<noteq> 0 then thread_err else 0,
      \<lparr>hs_work_list = [], hs_layers = replicate UL_MAX_IDX None, hs_state = HSSPI_STOPPED,
       hs_ss_irq = False, hs_ss_ready = False, hs_ss_busy = False,
       hs_host = \<lparr>stc_flags = 0, stc_ul = 0, stc_length = 0\<rparr>,
       hs_soc = \<lparr>stc_flags = 0, stc_ul = 0, stc_length = 0\<rparr>,
       hs_waiting_ss_rdy = False, hs_irq_depth = 0, hs_heap = heap, hs_up = up, hs_out = []\<rparr>)"

text \<open>\<open>hsspi_deinit\<close>: 0 means that the thread is stopped and the headers are freed.\<close>

definition hsspi_deinit :: "('l, 'b) hsspi \<Rightarrow> int" where
  "hsspi_deinit s =
     (if hs_state s = HSSPI_RUNNING then - EBUSY
      else if \<exists>l \<in> set (hs_layers s). l \<noteq> None then - EBUSY
      else 0)"

section \<open>Reception and transmission\<close>

text \<open>
  The layer's \<open>received\<close> may pass blocks to \<open>hsspi_send\<close>; none of the layers uses the result other
  than to print it.
\<close>

fun send_all :: "hsspi_layer \<Rightarrow> 'b hsspi_block_scheme list \<Rightarrow> ('l, 'b) hsspi \<Rightarrow> ('l, 'b) hsspi" where
  "send_all lay [] s = s"
| "send_all lay (b # bs) s = send_all lay bs (snd (hsspi_send (Some lay) (Some b) s))"

definition layer_get ::
  "('l, 'b) ops_table \<Rightarrow> hsspi_layer \<Rightarrow> nat \<Rightarrow> ('l, 'b) hsspi \<Rightarrow>
   ('b hsspi_block_scheme option \<times> ('l, 'b) hsspi) option" where
  "layer_get ops lay n s = do {
     (b, up, heap) \<leftarrow> op_get (ops lay) (hs_up s) n (hs_heap s);
     Some (b, s\<lparr>hs_up := up, hs_heap := heap\<rparr>)
   }"

definition layer_received ::
  "('l, 'b) ops_table \<Rightarrow> hsspi_layer \<Rightarrow> 'b hsspi_block_scheme \<Rightarrow> int \<Rightarrow> ('l, 'b) hsspi \<Rightarrow>
   ('l, 'b) hsspi option" where
  "layer_received ops lay b status s = do {
     (up, sends, heap) \<leftarrow> op_received (ops lay) (hs_up s) b status (hs_heap s);
     Some (send_all lay sends (s\<lparr>hs_up := up, hs_heap := heap\<rparr>))
   }"

definition layer_sent ::
  "('l, 'b) ops_table \<Rightarrow> hsspi_layer \<Rightarrow> 'b hsspi_block_scheme \<Rightarrow> int \<Rightarrow> ('l, 'b) hsspi \<Rightarrow>
   ('l, 'b) hsspi option" where
  "layer_sent ops lay b status s = do {
     (up, heap) \<leftarrow> op_sent (ops lay) (hs_up s) b status (hs_heap s);
     Some (emit (Out_sent b lay status) (s\<lparr>hs_up := up, hs_heap := heap\<rparr>))
   }"

definition set_host :: "byte \<Rightarrow> nat \<Rightarrow> nat \<Rightarrow> ('l, 'b) hsspi \<Rightarrow> ('l, 'b) hsspi" where
  "set_host flags ul n s = s\<lparr>hs_host := \<lparr>stc_flags = flags, stc_ul = ul, stc_length = n\<rparr>\<rparr>"

text \<open>The transfer of \<open>hsspi_rx\<close>: into a block of the layer when there is one.\<close>

definition rx_transfer ::
  "('l, 'b) ops_table \<Rightarrow> (nat \<Rightarrow> attempt) \<Rightarrow> nat \<Rightarrow> nat \<Rightarrow> ('l, 'b) hsspi \<Rightarrow> (int \<times> ('l, 'b) hsspi) option"
where
  "rx_transfer ops env ul n s =
     (let layer = (if layer_id_is_valid ul then hs_layers s ! ul else None) in
      case layer of
        None \<Rightarrow> spi_xfer env NullPtr NullPtr 0 s
      | Some lay \<Rightarrow> do {
          (blk, s) \<leftarrow> layer_get ops lay n s;
          case blk of
            None \<Rightarrow> spi_xfer env NullPtr NullPtr 0 s
          | Some b \<Rightarrow> do {
              (ret, s) \<leftarrow> spi_xfer env NullPtr (blk_data b) (blk_size b) s;
              s \<leftarrow> layer_received ops lay b ret s;
              Some (ret, s)
            }
        })"

text \<open>What follows the transfer: the checks of the header, and the end of the SS_IRQ condition.\<close>

definition rx_check :: "nat \<Rightarrow> nat \<Rightarrow> ('l, 'b) hsspi \<Rightarrow> int \<times> ('l, 'b) hsspi" where
  "rx_check ul n s =
     (let soc = hs_soc s;
          bad = (\<not> check_soc_flag (stc_flags soc) False \<or> stc_ul soc \<noteq> ul \<or> stc_length soc \<noteq> n);
          ret = (if bad then - 1 else 0)
      in if stc_flags soc AND STC_SOC_ODW = 0 \<and> hs_ss_irq s
         then (ret, reenable_ss_irq (s\<lparr>hs_ss_irq := False\<rparr>))
         else (ret, s))"

definition hsspi_rx ::
  "('l, 'b) ops_table \<Rightarrow> (nat \<Rightarrow> attempt) \<Rightarrow> nat \<Rightarrow> nat \<Rightarrow> ('l, 'b) hsspi \<Rightarrow> (int \<times> ('l, 'b) hsspi) option"
where
  "hsspi_rx ops env ul0 n0 s = do {
     let ul = u8 ul0;
     let n = u16 n0;
     (ret, s) \<leftarrow> rx_transfer ops env ul n (set_host STC_HOST_RD ul n s);
     Some (if ret \<noteq> 0 then (ret, s) else rx_check ul n s)
   }"

text \<open>
  \<open>env\<close> is the environment of the transmission and \<open>env'\<close> that of the reception which follows it
  when SS_IRQ was set.
\<close>

definition hsspi_tx ::
  "('l, 'b) ops_table \<Rightarrow> (nat \<Rightarrow> attempt) \<Rightarrow> (nat \<Rightarrow> attempt) \<Rightarrow> hsspi_layer \<Rightarrow> 'b hsspi_block_scheme \<Rightarrow>
   ('l, 'b) hsspi \<Rightarrow> (int \<times> ('l, 'b) hsspi) option" where
  "hsspi_tx ops env env' lay b s0 = do {
     let flags = (if hs_ss_irq s0 then STC_HOST_WR OR STC_HOST_PRD else STC_HOST_WR);
     (ret, s) \<leftarrow> spi_xfer env (blk_data b) NullPtr (blk_size b) (set_host flags (lay_id lay) (blk_length b) s0);
     s \<leftarrow> layer_sent ops lay b ret s;
     if ret \<noteq> 0 then Some (ret, s)
     else if stc_flags (hs_host s) AND STC_HOST_PRD \<noteq> 0
     then hsspi_rx ops env' (stc_ul (hs_soc s)) (stc_length (hs_soc s)) s
     else Some (ret, s)
   }"

definition hsspi_pre_read ::
  "('l, 'b) ops_table \<Rightarrow> (nat \<Rightarrow> attempt) \<Rightarrow> (nat \<Rightarrow> attempt) \<Rightarrow> ('l, 'b) hsspi \<Rightarrow> (int \<times> ('l, 'b) hsspi) option"
where
  "hsspi_pre_read ops env env' s0 = do {
     (ret, s) \<leftarrow> spi_xfer env NullPtr NullPtr 0 (set_host STC_HOST_PRD 0 0 s0);
     if ret \<noteq> 0 then Some (ret, s)
     else hsspi_rx ops env' (stc_ul (hs_soc s)) (stc_length (hs_soc s)) s
   }"

section \<open>The thread\<close>

text \<open>
  One pass through the loop of \<open>hsspi_thread_fn\<close>.  It returns the exit code when the thread ends
  (a signal, or \<open>kthread_stop\<close>), and waits (\<open>Th_waiting\<close>) while there is nothing to do.
\<close>

record pass_env =
  pe_signal :: bool
  pe_should_stop :: bool
  pe_first :: "nat \<Rightarrow> attempt"
  pe_second :: "nat \<Rightarrow> attempt"

datatype ('l, 'b) thread_result =
    Th_exit int "('l, 'b) hsspi"
  | Th_waiting
  | Th_run "('l, 'b) hsspi" nat

definition count_error :: "int \<Rightarrow> nat \<Rightarrow> ('l, 'b) hsspi \<Rightarrow> ('l, 'b) hsspi \<times> nat" where
  "count_error ret successive_errors s =
     (if ret = 0 then (s, 0)
      else if MAX_SUCCESSIVE_ERRORS < successive_errors + 1 then (emit Out_reset_qm35 s, 0)
      else (s, successive_errors + 1))"

text \<open>What the thread does with the work it took, or without one because SS_IRQ is set.\<close>

definition thread_work ::
  "('l, 'b) ops_table \<Rightarrow> pass_env \<Rightarrow> 'b hsspi_work option \<Rightarrow> ('l, 'b) hsspi \<Rightarrow> nat \<Rightarrow>
   (('l, 'b) hsspi \<times> nat) option" where
  "thread_work ops e hw s errors =
     (case hw of
        Some (HSSPI_WORK_COMPLETION c) \<Rightarrow> Some (emit (Out_complete c) s, errors)
      | Some (HSSPI_WORK_TX b lay) \<Rightarrow> do {
          (ret, s) \<leftarrow> hsspi_tx ops (pe_first e) (pe_second e) lay b s;
          Some (count_error ret errors s)
        }
      | None \<Rightarrow> do {
          (ret, s) \<leftarrow> hsspi_pre_read ops (pe_first e) (pe_second e) s;
          Some (count_error ret errors s)
        })"

definition hsspi_thread_pass ::
  "('l, 'b) ops_table \<Rightarrow> pass_env \<Rightarrow> ('l, 'b) hsspi \<Rightarrow> nat \<Rightarrow> ('l, 'b) thread_result option" where
  "hsspi_thread_pass ops e s errors =
     (if \<not> is_txrx_waiting s \<and> \<not> pe_should_stop e then
        Some (if pe_signal e then Th_exit (- ERESTARTSYS) s else Th_waiting)
      else if pe_should_stop e then Some (Th_exit 0 s)
      else
        let (hw, s) = get_work s in do {
          (s, errors) \<leftarrow> thread_work ops e hw s errors;
          Some (Th_run s errors)
        })"

end
