(* ===== verification/Hsspi_Xfer.thy ===== *)
theory Hsspi_Xfer
  imports Hsspi
begin

text \<open>
  Facts about the SPI transfer: what it leaves alone, what its result means, how often it tries,
  and that it touches no memory but the two buffers.
\<close>

named_theorems core_defs \<open>definitions of the primitive steps of the core\<close>

declare emit_def [core_defs] call_wakeup_def [core_defs] reenable_ss_irq_def [core_defs]
  hsspi_clear_spi_slave_busy_def [core_defs] hsspi_set_spi_slave_busy_def [core_defs]
  hsspi_set_spi_slave_ready_def [core_defs] hsspi_clear_spi_slave_ready_def [core_defs]
  hsspi_set_output_data_waiting_def [core_defs] qm35_ss_rdy_handler_def [core_defs]
  qm35_irq_handler_def [core_defs] qm35_exton_handler_def [core_defs]

section \<open>The SS_IRQ line\<close>

text \<open>
  The line is disabled exactly while the flag SS_IRQ is set: the handler disables it once, and only
  \<open>odw_cleared\<close>, called when the flag is cleared, enables it.
\<close>

definition irq_balanced :: "('l, 'b) hsspi \<Rightarrow> bool" where
  "irq_balanced s \<longleftrightarrow> hs_irq_depth s = (if hs_ss_irq s then 1 else 0)"

section \<open>What a transfer leaves alone\<close>

definition same_core :: "('l, 'b) hsspi \<Rightarrow> ('l, 'b) hsspi \<Rightarrow> bool" where
  "same_core s s' \<longleftrightarrow>
     hs_work_list s' = hs_work_list s \<and> hs_layers s' = hs_layers s \<and> hs_state s' = hs_state s \<and>
     hs_host s' = hs_host s \<and> hs_up s' = hs_up s"

fun quiet_out :: "'b hsspi_out \<Rightarrow> bool" where
  "quiet_out Out_wakeup = True"
| "quiet_out (Out_xfer _ _ _) = True"
| "quiet_out _ = False"

fun is_xfer :: "'b hsspi_out \<Rightarrow> bool" where
  "is_xfer (Out_xfer _ _ _) = True"
| "is_xfer _ = False"

text \<open>Only the bytes at \<open>rx\<close> may change, and not their number.\<close>

definition heap_fill :: "kptr \<Rightarrow> kheap \<Rightarrow> kheap \<Rightarrow> bool" where
  "heap_fill rx h h' \<longleftrightarrow>
     hp_next h' = hp_next h \<and> hp_oracle h' = hp_oracle h \<and>
     (\<forall>k. Ptr k \<noteq> rx \<longrightarrow> hp_mem h' k = hp_mem h k) \<and>
     (\<forall>k. map_option length (hp_mem h' k) = map_option length (hp_mem h k))"

text \<open>\<open>n\<close> bounds the number of transfers made.\<close>

definition xfer_step :: "kptr \<Rightarrow> nat \<Rightarrow> ('l, 'b) hsspi \<Rightarrow> ('l, 'b) hsspi \<Rightarrow> bool" where
  "xfer_step rx n s s' \<longleftrightarrow>
     same_core s s' \<and> (irq_balanced s \<longrightarrow> irq_balanced s') \<and> (hs_ss_irq s \<longrightarrow> hs_ss_irq s') \<and>
     heap_fill rx (hs_heap s) (hs_heap s') \<and>
     (\<exists>outs. hs_out s' = hs_out s @ outs \<and> (\<forall>x \<in> set outs. quiet_out x) \<and>
        length (filter is_xfer outs) \<le> n)"

lemma heap_fill_refl [simp]: "heap_fill rx h h"
  by (simp add: heap_fill_def)

lemma heap_fill_trans: "heap_fill rx h h' \<Longrightarrow> heap_fill rx h' h'' \<Longrightarrow> heap_fill rx h h''"
  by (simp add: heap_fill_def)

lemma xfer_step_refl [simp]: "xfer_step rx n s s"
  by (auto simp: xfer_step_def same_core_def)

lemma xfer_step_trans:
  assumes "xfer_step rx n s s'" "xfer_step rx m s' s''" "n + m \<le> k"
  shows "xfer_step rx k s s''"
proof -
  from assms obtain o1 o2 where "hs_out s' = hs_out s @ o1" "\<forall>x \<in> set o1. quiet_out x"
    "length (filter is_xfer o1) \<le> n" "hs_out s'' = hs_out s' @ o2" "\<forall>x \<in> set o2. quiet_out x"
    "length (filter is_xfer o2) \<le> m"
    unfolding xfer_step_def by blast
  with assms(3) have "\<exists>outs. hs_out s'' = hs_out s @ outs \<and> (\<forall>x \<in> set outs. quiet_out x) \<and>
      length (filter is_xfer outs) \<le> k"
    by (intro exI [of _ "o1 @ o2"]) auto
  with assms(1,2) show ?thesis
    by (auto simp: xfer_step_def same_core_def dest: heap_fill_trans)
qed

lemma xfer_step_mono: "xfer_step rx n s s' \<Longrightarrow> n \<le> m \<Longrightarrow> xfer_step rx m s s'"
  using xfer_step_trans [of rx n s s' "m - n" s' m] by simp

lemma xfer_step_irq: "xfer_step rx 0 s (deliver_irq i s)"
  by (cases i) (auto simp: core_defs xfer_step_def same_core_def irq_balanced_def Let_def)

lemma xfer_step_irqs: "xfer_step rx 0 s (deliver_irqs is s)"
proof (induction "is" arbitrary: s)
  case Nil
  show ?case by (simp add: deliver_irqs_def)
next
  case (Cons i "is")
  have "deliver_irqs (i # is) s = deliver_irqs is (deliver_irq i s)"
    by (simp add: deliver_irqs_def)
  then show ?case
    using xfer_step_trans [OF xfer_step_irq [of rx s i] Cons.IH [of "deliver_irq i s"]] by simp
qed

lemma xfer_step_updates [simp]:
  "xfer_step rx n s (s\<lparr>hs_waiting_ss_rdy := b\<rparr>)" "xfer_step rx n s (s\<lparr>hs_ss_ready := b\<rparr>)"
  "xfer_step rx n s (s\<lparr>hs_soc := c\<rparr>)" "xfer_step rx n s (hsspi_set_spi_slave_busy s)"
  "xfer_step rx n s (call_wakeup s)"
  by (auto simp: core_defs xfer_step_def same_core_def irq_balanced_def)

lemma irqs_keep_soc [simp]: "hs_soc (deliver_irqs is s) = hs_soc s"
proof (induction "is" arbitrary: s)
  case (Cons i "is")
  have "hs_soc (deliver_irq i s) = hs_soc s"
    by (cases i) (simp_all add: core_defs Let_def)
  with Cons show ?case by (simp add: deliver_irqs_def)
qed (simp add: deliver_irqs_def)

lemma wait_step:
  assumes "hsspi_wait_ss_ready a s = (ret, s')"
  shows "xfer_step rx 0 s s'" "hs_soc s' = hs_soc s" "ret \<le> 0"
proof -
  let ?s1 = "deliver_irqs (at_irqs_before a) (s\<lparr>hs_waiting_ss_rdy := True\<rparr>)"
  let ?s2 = "if \<not> hs_ss_busy ?s1 then ?s1\<lparr>hs_ss_ready := False\<rparr> else ?s1"
  let ?s3 = "if \<not> at_exton a then call_wakeup ?s2 else ?s2"
  let ?s4 = "deliver_irqs (at_irqs_wait a) ?s3"
  have 1: "xfer_step rx 0 s ?s1"
    by (rule xfer_step_trans [OF xfer_step_updates(1) xfer_step_irqs]) simp
  have 2: "xfer_step rx 0 s ?s2"
    using 1 xfer_step_trans [OF 1 xfer_step_updates(2), of 0 0] by simp
  have 3: "xfer_step rx 0 s ?s3"
    using 2 xfer_step_trans [OF 2 xfer_step_updates(5), of 0 0] by simp
  have 4: "xfer_step rx 0 s ?s4"
    by (rule xfer_step_trans [OF 3 xfer_step_irqs]) simp
  have 5: "xfer_step rx 0 s (?s4\<lparr>hs_ss_ready := b\<rparr>)" "xfer_step rx 0 s (?s4\<lparr>hs_ss_ready := b, hs_waiting_ss_rdy := c\<rparr>)" for b c
    using xfer_step_trans [OF 4 xfer_step_updates(2), of 0 0]
      xfer_step_trans [OF xfer_step_trans [OF 4 xfer_step_updates(2), of 0 0] xfer_step_updates(1), of 0 0]
    by simp_all
  have soc: "hs_soc ?s1 = hs_soc s" "hs_soc ?s2 = hs_soc s" "hs_soc ?s3 = hs_soc s" "hs_soc ?s4 = hs_soc s"
    by (simp_all add: core_defs)
  have r: "hsspi_wait_ss_ready a s =
    (if \<not> hs_ss_busy ?s2 \<and> at_ss_rdy a then (0, ?s2)
     else if hs_ss_ready ?s4
       then (if \<not> at_ss_rdy_after a then (- EAGAIN, ?s4\<lparr>hs_ss_ready := False\<rparr>)
             else (0, ?s4\<lparr>hs_ss_ready := False, hs_waiting_ss_rdy := False\<rparr>))
     else if at_signal a then (- ERESTARTSYS, ?s4) else (- EAGAIN, ?s4))"
    unfolding hsspi_wait_ss_ready_def wait_ready_event_def Let_def
    by simp
  show "xfer_step rx 0 s s'" "hs_soc s' = hs_soc s" "ret \<le> 0"
    using assms 2 4 5 soc unfolding r by (auto split: if_splits)
qed

section \<open>The transfer and its retries\<close>

definition buf_ok :: "kheap \<Rightarrow> kptr \<Rightarrow> nat \<Rightarrow> bool" where
  "buf_ok h p n \<longleftrightarrow> p = NullPtr \<or> (\<exists>bs. heap_bytes h p = Some bs \<and> length bs = n)"

lemma buf_ok_fill: "heap_fill rx h h' \<Longrightarrow> buf_ok h p n \<Longrightarrow> buf_ok h' p n"
proof (cases p)
  case (Ptr k)
  assume f: "heap_fill rx h h'" and b: "buf_ok h p n"
  have "map_option length (hp_mem h' k) = map_option length (hp_mem h k)"
    using f by (simp add: heap_fill_def)
  then show ?thesis using b by (auto simp: buf_ok_def Ptr map_option_case split: option.splits)
qed (simp_all add: buf_ok_def)

lemma buf_ok_step: "xfer_step rx m s s' \<Longrightarrow> buf_ok (hs_heap s) p n \<Longrightarrow> buf_ok (hs_heap s') p n"
  by (auto simp: xfer_step_def intro: buf_ok_fill)

text \<open>The bytes a transfer sends and the answer it gets.\<close>

definition tx_bytes :: "kptr \<Rightarrow> ('l, 'b) hsspi \<Rightarrow> byte list" where
  "tx_bytes tx s = (case heap_bytes (hs_heap s) tx of None \<Rightarrow> [] | Some bs \<Rightarrow> bs)"

lemma heap_write_fill:
  assumes "heap_bytes h p = Some old" "length bs = length old"
  shows "\<exists>h'. heap_write h p 0 bs = Some h' \<and> heap_fill p h h' \<and> heap_bytes h' p = Some bs"
  using assms
  by (cases "bs = []"; cases p) (auto simp: heap_write_def mem_write_def patch_def heap_fill_def)

lemma transfer_ok:
  assumes tx: "buf_ok (hs_heap s) tx n" and rx: "buf_ok (hs_heap s) rx n"
  obtains ret soc bs s' where "at_spi a (hs_host s) (tx_bytes tx s) = (ret, soc, bs)"
    "spi_sync_transfer a tx rx n s = Some (ret, s')" "xfer_step rx 1 s s'" "hs_soc s' = soc"
    "rx \<noteq> NullPtr \<longrightarrow> heap_bytes (hs_heap s') rx = Some (fit n bs)"
proof -
  obtain ret soc bs where e: "at_spi a (hs_host s) (tx_bytes tx s) = (ret, soc, bs)"
    by (metis prod_cases3)
  have t: "(if tx = NullPtr then Some [] else heap_read (hs_heap s) tx 0 n) = Some (tx_bytes tx s)"
    using tx heap_read_whole [of "hs_heap s" tx] by (auto simp: buf_ok_def tx_bytes_def)
  obtain h where h: "(if rx = NullPtr then Some (hs_heap s) else heap_write (hs_heap s) rx 0 (fit n bs)) = Some h"
    and f: "heap_fill rx (hs_heap s) h" and b: "rx \<noteq> NullPtr \<longrightarrow> heap_bytes h rx = Some (fit n bs)"
  proof (cases "rx = NullPtr")
    case False
    then obtain old where o: "heap_bytes (hs_heap s) rx = Some old" "length old = n"
      using rx by (auto simp: buf_ok_def)
    then obtain h' where "heap_write (hs_heap s) rx 0 (fit n bs) = Some h'" "heap_fill rx (hs_heap s) h'"
      "heap_bytes h' rx = Some (fit n bs)"
      using heap_write_fill [OF o(1), of "fit n bs"] by auto
    with False that [of h'] show thesis by simp
  qed (use that in simp)
  let ?s1 = "emit (Out_xfer (hs_host s) ret soc) (s\<lparr>hs_soc := soc, hs_heap := h\<rparr>)"
  let ?s2 = "deliver_irqs (at_irqs_xfer a) ?s1"
  have r: "spi_sync_transfer a tx rx n s = Some (ret, ?s2)"
    by (simp add: spi_sync_transfer_def t e h)
  have 1: "xfer_step rx 1 s ?s1"
    using f by (auto simp: xfer_step_def same_core_def irq_balanced_def core_defs)
  have 2: "xfer_step rx 1 s ?s2"
    by (rule xfer_step_trans [OF 1 xfer_step_irqs]) simp
  have "xfer_step NullPtr 0 ?s1 ?s2" by (rule xfer_step_irqs)
  then have "hp_mem (hs_heap ?s2) = hp_mem (hs_heap ?s1)"
    by (auto simp: xfer_step_def heap_fill_def)
  then have "heap_bytes (hs_heap ?s2) rx = heap_bytes h rx"
    by (cases rx) (simp_all add: core_defs)
  with that [OF e r 2] b show thesis by (simp add: core_defs)
qed

text \<open>
  What success means: some attempt was answered without error by a ready firmware, the header is
  that answer's, and so are the bytes received.
\<close>

definition xfer_success ::
  "(nat \<Rightarrow> attempt) \<Rightarrow> nat \<Rightarrow> kptr \<Rightarrow> kptr \<Rightarrow> nat \<Rightarrow> ('l, 'b) hsspi \<Rightarrow> ('l, 'b) hsspi \<Rightarrow> bool" where
  "xfer_success env retry tx rx n s s' \<longleftrightarrow>
     \<not> soc_not_ready (hs_soc s') \<and>
     (\<exists>i < retry. \<exists>bs. at_spi (env i) (hs_host s) (tx_bytes tx s) = (0, hs_soc s', bs) \<and>
        (rx \<noteq> NullPtr \<longrightarrow> heap_bytes (hs_heap s') rx = Some (fit n bs)))"

lemma tx_bytes_fill: "xfer_step rx m s s' \<Longrightarrow> tx \<noteq> rx \<or> tx = NullPtr \<Longrightarrow> tx_bytes tx s' = tx_bytes tx s"
  by (cases tx) (auto simp: tx_bytes_def xfer_step_def heap_fill_def)

lemma attempt_ok:
  assumes tx: "buf_ok (hs_heap s) tx n" and rx: "buf_ok (hs_heap s) rx n" and ne: "tx \<noteq> rx \<or> tx = NullPtr"
  shows "\<exists>ret s'. xfer_attempt a tx rx n s = Some (ret, s') \<and> xfer_step rx 1 s s' \<and>
    (ret = 0 \<longrightarrow> \<not> soc_not_ready (hs_soc s') \<and>
      (\<exists>bs. at_spi a (hs_host s) (tx_bytes tx s) = (0, hs_soc s', bs) \<and>
        (rx \<noteq> NullPtr \<longrightarrow> heap_bytes (hs_heap s') rx = Some (fit n bs))))"
proof -
  obtain w s1 where w: "hsspi_wait_ss_ready a s = (w, s1)" by (cases "hsspi_wait_ss_ready a s")
  have st1: "xfer_step rx 0 s s1" by (rule wait_step [OF w])
  show ?thesis
  proof (cases "w < 0")
    case True
    with w st1 xfer_step_mono [OF st1, of 1] show ?thesis by (auto simp: xfer_attempt_def)
  next
    case False
    let ?s2 = "hsspi_set_spi_slave_busy s1"
    have st2: "xfer_step rx 0 s ?s2" by (rule xfer_step_trans [OF st1 xfer_step_updates(4), of 0]) simp
    obtain ret soc bs s3 where e: "at_spi a (hs_host ?s2) (tx_bytes tx ?s2) = (ret, soc, bs)"
      and t: "spi_sync_transfer a tx rx n ?s2 = Some (ret, s3)" and st3: "xfer_step rx 1 ?s2 s3"
      and soc: "hs_soc s3 = soc" and b: "rx \<noteq> NullPtr \<longrightarrow> heap_bytes (hs_heap s3) rx = Some (fit n bs)"
      by (rule transfer_ok [OF buf_ok_step [OF st2 tx] buf_ok_step [OF st2 rx], of a])
    have st: "xfer_step rx 1 s s3" by (rule xfer_step_trans [OF st2 st3]) simp
    have st': "xfer_step rx 1 s (call_wakeup s3)"
      by (rule xfer_step_trans [OF st xfer_step_updates(5), of 0]) simp
    have h: "hs_host ?s2 = hs_host s" "tx_bytes tx ?s2 = tx_bytes tx s"
      using st2 tx_bytes_fill [OF st2 ne] by (simp_all add: xfer_step_def same_core_def)
    show ?thesis
      using False w t st st' e b soc by (auto simp: xfer_attempt_def h)
  qed
qed

lemma xfer_loop_ok:
  assumes "buf_ok (hs_heap s) tx n" "buf_ok (hs_heap s) rx n" "tx \<noteq> rx \<or> tx = NullPtr" "0 < retry"
  shows "\<exists>ret s'. xfer_loop retry env tx rx n s = Some (ret, s') \<and> xfer_step rx retry s s' \<and>
    (ret = 0 \<longrightarrow> xfer_success env retry tx rx n s s')"
  using assms
proof (induction retry arbitrary: env s)
  case (Suc r)
  obtain ret s1 where a: "xfer_attempt (env 0) tx rx n s = Some (ret, s1)" and st: "xfer_step rx 1 s s1"
    and ok: "ret = 0 \<longrightarrow> \<not> soc_not_ready (hs_soc s1) \<and>
      (\<exists>bs. at_spi (env 0) (hs_host s) (tx_bytes tx s) = (0, hs_soc s1, bs) \<and>
        (rx \<noteq> NullPtr \<longrightarrow> heap_bytes (hs_heap s1) rx = Some (fit n bs)))"
    using attempt_ok [OF Suc.prems(1-3), of "env 0"] by blast
  show ?case
  proof (cases "ret = - EAGAIN \<and> 0 < r")
    case True
    let ?env = "\<lambda>i. env (Suc i)"
    obtain ret' s' where l: "xfer_loop r ?env tx rx n s1 = Some (ret', s')" and st': "xfer_step rx r s1 s'"
      and ok': "ret' = 0 \<longrightarrow> xfer_success ?env r tx rx n s1 s'"
      using Suc.IH [OF buf_ok_step [OF st Suc.prems(1)] buf_ok_step [OF st Suc.prems(2)] Suc.prems(3)] True
      by blast
    have h: "hs_host s1 = hs_host s" "tx_bytes tx s1 = tx_bytes tx s"
      using st tx_bytes_fill [OF st Suc.prems(3)] by (simp_all add: xfer_step_def same_core_def)
    have "xfer_success ?env r tx rx n s1 s' \<Longrightarrow> xfer_success env (Suc r) tx rx n s s'"
      unfolding xfer_success_def h by (metis Suc_less_eq)
    with True a l ok' xfer_step_trans [OF st st', of "Suc r"] show ?thesis
      by (subst xfer_loop.simps) simp
  next
    case False
    then have "xfer_loop (Suc r) env tx rx n s = Some (ret, s1)"
      using a by (subst xfer_loop.simps) auto
    moreover have "ret = 0 \<longrightarrow> xfer_success env (Suc r) tx rx n s s1"
      using ok by (auto simp: xfer_success_def)
    ultimately show ?thesis using xfer_step_mono [OF st, of "Suc r"] by auto
  qed
qed simp

lemma spi_xfer_ok:
  assumes "buf_ok (hs_heap s) tx n" "buf_ok (hs_heap s) rx n" "tx \<noteq> rx \<or> tx = NullPtr"
  shows "\<exists>ret s'. spi_xfer env tx rx n s = Some (ret, s') \<and> xfer_step rx 5 s s' \<and>
    \<not> hs_waiting_ss_rdy s' \<and> (ret = 0 \<longrightarrow> xfer_success env 5 tx rx n s s')"
proof -
  let ?s0 = "s\<lparr>hs_soc := \<lparr>stc_flags = 0, stc_ul = 0, stc_length = 0\<rparr>\<rparr>"
  obtain ret s1 where l: "xfer_loop 5 env tx rx n ?s0 = Some (ret, s1)" and st: "xfer_step rx 5 ?s0 s1"
    and ok: "ret = 0 \<longrightarrow> xfer_success env 5 tx rx n ?s0 s1"
    using xfer_loop_ok [of ?s0 tx n rx 5 env] assms by auto
  let ?s' = "s1\<lparr>hs_waiting_ss_rdy := False\<rparr>"
  have "xfer_step rx 5 s s1"
    by (rule xfer_step_trans [OF xfer_step_updates(3) st]) simp
  then have "xfer_step rx 5 s ?s'"
    by (rule xfer_step_trans [OF _ xfer_step_updates(1), of _ _ _ _ 0]) simp
  moreover have "ret = 0 \<longrightarrow> xfer_success env 5 tx rx n s ?s'"
    using ok by (simp add: xfer_success_def tx_bytes_def)
  ultimately show ?thesis using l by (auto simp: spi_xfer_def)
qed

end
