(* ===== verification/Hsspi_Layers.thy ===== *)
theory Hsspi_Layers
  imports Hsspi_Xfer
begin

text \<open>
  The core with layers that keep the contract of \<open>Upper_Layer\<close>: no transfer, whatever the firmware
  answers, makes the core or a layer access memory it should not, the blocks waiting to be sent stay
  intact, and blocks are sent in the order they were queued.
\<close>

section \<open>Blocks waiting to be sent\<close>

type_synonym 'b tx_item = "'b hsspi_block_scheme \<times> hsspi_layer"

fun tx_items :: "'b hsspi_work list \<Rightarrow> 'b tx_item list" where
  "tx_items [] = []"
| "tx_items (HSSPI_WORK_TX b lay # ws) = (b, lay) # tx_items ws"
| "tx_items (HSSPI_WORK_COMPLETION c # ws) = tx_items ws"

fun queued_of :: "'b hsspi_out list \<Rightarrow> 'b tx_item list" where
  "queued_of [] = []"
| "queued_of (Out_queued b lay # os) = (b, lay) # queued_of os"
| "queued_of (_ # os) = queued_of os"

fun sent_of :: "'b hsspi_out list \<Rightarrow> 'b tx_item list" where
  "sent_of [] = []"
| "sent_of (Out_sent b lay st # os) = (b, lay) # sent_of os"
| "sent_of (_ # os) = sent_of os"

lemma tx_items_append [simp]: "tx_items (xs @ ys) = tx_items xs @ tx_items ys"
  by (induction xs rule: tx_items.induct) simp_all

lemma queued_of_append [simp]: "queued_of (xs @ ys) = queued_of xs @ queued_of ys"
  by (induction xs rule: queued_of.induct) simp_all

lemma sent_of_append [simp]: "sent_of (xs @ ys) = sent_of xs @ sent_of ys"
  by (induction xs rule: sent_of.induct) simp_all

lemma quiet_outs: "\<forall>x \<in> set outs. quiet_out x \<Longrightarrow> queued_of outs = [] \<and> sent_of outs = []"
proof (induction outs)
  case (Cons x xs)
  then show ?case by (cases x) auto
qed simp

definition item_keys :: "'b tx_item \<Rightarrow> nat set" where
  "item_keys x = blk_keys (fst x)"

fun disjoint_items :: "'b tx_item list \<Rightarrow> bool" where
  "disjoint_items [] = True"
| "disjoint_items (x # xs) = ((\<forall>y \<in> set xs. item_keys x \<inter> item_keys y = {}) \<and> disjoint_items xs)"

lemma disjoint_items_append:
  "disjoint_items (xs @ ys) \<longleftrightarrow>
   disjoint_items xs \<and> disjoint_items ys \<and> (\<forall>x \<in> set xs. \<forall>y \<in> set ys. item_keys x \<inter> item_keys y = {})"
  by (induction xs) auto

definition table_ok :: "hsspi_layer option list \<Rightarrow> bool" where
  "table_ok ls \<longleftrightarrow> length ls = UL_MAX_IDX \<and>
     (\<forall>i lay. i < UL_MAX_IDX \<longrightarrow> ls ! i = Some lay \<longrightarrow> lay_id lay = i)"

definition layers_ok :: "('l, 'b) hsspi \<Rightarrow> bool" where
  "layers_ok s \<longleftrightarrow> table_ok (hs_layers s)"

lemma table_ok_update:
  "table_ok ls \<Longrightarrow> x = None \<or> x = Some lay \<and> lay_id lay = i \<Longrightarrow> table_ok (ls[i := x])"
  by (cases "i < UL_MAX_IDX") (auto simp: table_ok_def nth_list_update split: if_splits)

text \<open>Blocks are sent in the order in which they were queued, each once; \<open>cur\<close> is being sent.\<close>

definition fifo :: "('l, 'b) hsspi \<Rightarrow> 'b tx_item list \<Rightarrow> bool" where
  "fifo s cur \<longleftrightarrow> queued_of (hs_out s) = sent_of (hs_out s) @ cur @ tx_items (hs_work_list s)"

section \<open>Layers that keep their contract\<close>

definition sends_ok ::
  "(hsspi_layer \<Rightarrow> 'b hsspi_block_scheme \<Rightarrow> bool) \<Rightarrow> hsspi_layer \<Rightarrow> nat set \<Rightarrow> 'b hsspi_block_scheme \<Rightarrow>
   kheap \<Rightarrow> kheap \<Rightarrow> 'b hsspi_block_scheme list \<Rightarrow> bool" where
  "sends_ok tx_ok lay K blk h h' sends \<longleftrightarrow>
     (\<forall>b \<in> set sends. tx_ok lay b \<and> (\<exists>bs. block_holds h' b bs) \<and> blk_keys b \<inter> K = {} \<and>
        blk_keys b \<subseteq> blk_keys blk \<union> {k. hp_next h \<le> k}) \<and>
     disjoint_items (map (\<lambda>b. (b, lay)) sends)"

locale hsspi_layers =
  fixes inv :: "'l \<Rightarrow> kheap \<Rightarrow> bool"
    and owns :: "'l \<Rightarrow> nat set"
    and msg_ok :: "hsspi_layer \<Rightarrow> 'l \<Rightarrow> byte list \<Rightarrow> bool"
    and tx_ok :: "hsspi_layer \<Rightarrow> 'b hsspi_block_scheme \<Rightarrow> bool"
    and ops :: "('l, 'b) ops_table"
  assumes layer: "upper_layer inv owns (msg_ok lay) (op_get (ops lay)) (op_received (ops lay))"
    and received_sends: "\<lbrakk>inv l h; block_holds h blk bs; length bs < 65536; \<not> blk_ptr_in blk (owns l);
        status = 0 \<Longrightarrow> msg_ok lay l bs; op_received (ops lay) l blk status h = Some (l', sends, h')\<rbrakk> \<Longrightarrow>
      sends_ok tx_ok lay (owns l') blk h h' sends"
    and sent_ok: "\<lbrakk>inv l h; block_holds h b bs; \<not> blk_ptr_in b (owns l); tx_ok lay b\<rbrakk> \<Longrightarrow>
      \<exists>l' h'. op_sent (ops lay) l b status h = Some (l', h') \<and> inv l' h' \<and>
        frame (blk_keys b) h h' \<and> owns l' \<subseteq> owns l \<union> blk_keys b"
begin

definition tx_mem :: "'l \<Rightarrow> kheap \<Rightarrow> 'b tx_item list \<Rightarrow> bool" where
  "tx_mem l h items \<longleftrightarrow>
     (\<forall>(b, lay) \<in> set items. tx_ok lay b \<and> (\<exists>bs. block_holds h b bs) \<and> blk_keys b \<inter> owns l = {}) \<and>
     disjoint_items items"

definition sys_inv :: "('l, 'b) hsspi \<Rightarrow> 'b tx_item list \<Rightarrow> bool" where
  "sys_inv s cur \<longleftrightarrow>
     inv (hs_up s) (hs_heap s) \<and> tx_mem (hs_up s) (hs_heap s) (cur @ tx_items (hs_work_list s)) \<and>
     layers_ok s \<and> irq_balanced s \<and> fifo s cur"

lemma inv_ok: "inv l h \<Longrightarrow> heap_ok h"
  by (rule upper_layer.inv_heap_ok [OF layer])

lemma frame_inv:
  "\<lbrakk>inv l h; \<And>k. k \<in> owns l \<Longrightarrow> hp_mem h' k = hp_mem h k; heap_ok h'\<rbrakk> \<Longrightarrow> inv l h'"
  by (rule upper_layer.inv_frame [OF layer])

lemma owns_below: "inv l h \<Longrightarrow> k \<in> owns l \<Longrightarrow> k < hp_next h"
  by (rule upper_layer.live_below [OF layer])

lemma block_keys_below: "heap_ok h \<Longrightarrow> block_holds h b bs \<Longrightarrow> k \<in> blk_keys b \<Longrightarrow> k < hp_next h"
  by (auto simp: block_holds_def blk_keys_def intro: heap_ok_live)

lemma block_holds_frame:
  "block_holds h b bs \<Longrightarrow> (\<And>k. k \<in> blk_keys b \<Longrightarrow> hp_mem h' k = hp_mem h k) \<Longrightarrow> block_holds h' b bs"
  by (cases "blk_data b") (auto simp: block_holds_def blk_keys_def)

text \<open>Memory changes outside the waiting blocks, and growth of the layers' memory elsewhere.\<close>

lemma tx_mem_frame:
  assumes tx: "tx_mem l h items" and hok: "heap_ok h" and f: "frame K h h'"
    and K: "\<And>x. x \<in> set items \<Longrightarrow> item_keys x \<inter> K = {}"
    and o: "\<And>k. k \<in> owns l' \<Longrightarrow> k \<in> owns l \<or> k \<in> K \<or> hp_next h \<le> k"
  shows "tx_mem l' h' items"
proof -
  have "tx_ok lay b \<and> (\<exists>bs. block_holds h' b bs) \<and> blk_keys b \<inter> owns l' = {}"
    if x: "(b, lay) \<in> set items" for b lay
  proof -
    obtain bs where b: "tx_ok lay b" "block_holds h b bs" "blk_keys b \<inter> owns l = {}"
      using tx x by (auto simp: tx_mem_def)
    have bk: "k < hp_next h" "k \<notin> K" if "k \<in> blk_keys b" for k
      using block_keys_below [OF hok b(2) that] K [OF x] that by (auto simp: item_keys_def)
    have "block_holds h' b bs"
      using f bk by (intro block_holds_frame [OF b(2)]) (auto simp: frame_def)
    moreover have "blk_keys b \<inter> owns l' = {}"
    proof (rule ccontr)
      assume "blk_keys b \<inter> owns l' \<noteq> {}"
      then obtain k where k: "k \<in> blk_keys b" "k \<in> owns l'" by blast
      with o [OF k(2)] bk [OF k(1)] b(3) show False by auto
    qed
    ultimately show ?thesis using b by blast
  qed
  then show ?thesis using tx by (auto simp: tx_mem_def)
qed

lemma heap_fill_frame: "heap_fill rx h h' \<Longrightarrow> frame {k. rx = Ptr k} h h'"
  by (auto simp: heap_fill_def frame_def)

lemma heap_fill_ok: "heap_fill rx h h' \<Longrightarrow> heap_ok h \<Longrightarrow> heap_ok h'"
  unfolding heap_fill_def heap_ok_def by (metis map_option_is_None)

text \<open>A transfer that receives into memory which is neither a layer's nor a waiting block's.\<close>

lemma sys_inv_xfer:
  assumes inv: "sys_inv s cur" and st: "xfer_step rx n s s'"
    and rx: "\<And>k. rx = Ptr k \<Longrightarrow> k \<notin> owns (hs_up s) \<and>
      (\<forall>x \<in> set (cur @ tx_items (hs_work_list s)). k \<notin> item_keys x)"
  shows "sys_inv s' cur"
proof -
  have c: "same_core s s'" and f: "heap_fill rx (hs_heap s) (hs_heap s')"
    using st by (auto simp: xfer_step_def)
  have hok: "heap_ok (hs_heap s)" using inv inv_ok by (auto simp: sys_inv_def)
  have own: "hp_mem (hs_heap s') k = hp_mem (hs_heap s) k" if "k \<in> owns (hs_up s)" for k
  proof -
    have "Ptr k \<noteq> rx" using rx [of k] that by auto
    then show ?thesis using f by (simp add: heap_fill_def)
  qed
  have i: "inv (hs_up s) (hs_heap s')"
    by (rule frame_inv [OF _ own heap_fill_ok [OF f hok]]) (use inv in \<open>simp add: sys_inv_def\<close>)
  have t: "tx_mem (hs_up s) (hs_heap s') (cur @ tx_items (hs_work_list s))"
  proof (rule tx_mem_frame [OF _ hok heap_fill_frame [OF f]])
    show "tx_mem (hs_up s) (hs_heap s) (cur @ tx_items (hs_work_list s))"
      using inv by (simp add: sys_inv_def)
    show "item_keys x \<inter> {k. rx = Ptr k} = {}" if "x \<in> set (cur @ tx_items (hs_work_list s))" for x
      using rx that by blast
  qed simp
  obtain outs where o: "hs_out s' = hs_out s @ outs" "queued_of outs = []" "sent_of outs = []"
    using st quiet_outs by (auto simp: xfer_step_def)
  show ?thesis
    using inv i t c o st
    by (simp add: sys_inv_def same_core_def layers_ok_def fifo_def xfer_step_def)
qed

end

end
