(* ===== verification/Hsspi_Work.thy ===== *)
theory Hsspi_Work
  imports Hsspi_Layers
begin

text \<open>
  Reception, transmission and the thread's work keep the invariant \<open>sys_inv\<close> and never fault.
\<close>

text \<open>
  The states of the layers in which the thread may receive during the work \<open>hw\<close>: after a transmission
  the layer has been told that its block was sent.
\<close>

definition ups_at_rx :: "('l, 'b) ops_table \<Rightarrow> 'b hsspi_work option \<Rightarrow> 'l \<Rightarrow> 'l set" where
  "ups_at_rx ops hw up =
     (case hw of
        None \<Rightarrow> {up}
      | Some (HSSPI_WORK_TX b lay) \<Rightarrow> {up'. \<exists>status h h'. op_sent (ops lay) up b status h = Some (up', h')}
      | Some (HSSPI_WORK_COMPLETION c) \<Rightarrow> {})"

context hsspi_layers begin

lemma sys_inv_heap_ok: "sys_inv s cur \<Longrightarrow> heap_ok (hs_heap s)"
  using inv_ok by (auto simp: sys_inv_def)

lemma tx_mem_cong: "same_mem h h' \<Longrightarrow> tx_mem l h items \<Longrightarrow> tx_mem l h' items"
  by (fastforce simp: tx_mem_def same_mem_def intro: block_holds_frame)

lemma tx_mem_item:
  assumes "tx_mem l h items" "(b, lay) \<in> set items"
  obtains bs where "tx_ok lay b" "block_holds h b bs" "blk_keys b \<inter> owns l = {}"
  using assms unfolding tx_mem_def by blast

lemma inv_cong: "same_mem h h' \<Longrightarrow> inv l h \<Longrightarrow> inv l h'"
  using frame_inv [of l h h'] same_mem_heap_ok [of h h'] inv_ok [of l h] by (simp add: same_mem_def)

lemma hsspi_send_cases:
  obtains heap where "same_mem (hs_heap s) heap"
      "snd (hsspi_send (Some lay) (Some b) s) = s\<lparr>hs_heap := heap\<rparr>"
  | heap where "same_mem (hs_heap s) heap" "hs_state s = HSSPI_RUNNING" "lay_id lay < UL_MAX_IDX"
      "hs_layers s ! lay_id lay = Some lay"
      "snd (hsspi_send (Some lay) (Some b) s)
        = s\<lparr>hs_heap := heap, hs_work_list := hs_work_list s @ [HSSPI_WORK_TX b lay],
            hs_out := hs_out s @ [Out_queued b lay]\<rparr>"
proof -
  obtain ok heap where k: "kzalloc_struct (hs_heap s) = (ok, heap)" by (cases "kzalloc_struct (hs_heap s)")
  have m: "same_mem (hs_heap s) heap" using k by (rule same_mem_kzalloc)
  show thesis
  proof (cases "layer_id_is_valid (lay_id lay) \<and> ok \<and> hs_state s = HSSPI_RUNNING \<and>
      hs_layers s ! lay_id lay = Some lay")
    case True
    with k m that(2) [of heap] show thesis
      by (simp add: hsspi_send_def work_add_tail_def emit_def layer_id_is_valid_def)
  next
    case False
    show thesis
    proof (cases "layer_id_is_valid (lay_id lay)")
      case True
      with False k m show thesis
        by (intro that(1) [of heap]) (auto simp: hsspi_send_def Let_def)
    next
      case False
      then show thesis by (intro that(1) [of "hs_heap s"]) (simp_all add: hsspi_send_def)
    qed
  qed
qed

lemma send_one:
  assumes inv: "sys_inv s cur" and b: "tx_ok lay b" "block_holds (hs_heap s) b bs"
    and own: "blk_keys b \<inter> owns (hs_up s) = {}"
    and new: "\<forall>x \<in> set (cur @ tx_items (hs_work_list s)). blk_keys b \<inter> item_keys x = {}"
  shows "sys_inv (snd (hsspi_send (Some lay) (Some b) s)) cur"
proof (rule hsspi_send_cases [of s lay b])
  fix heap
  assume m: "same_mem (hs_heap s) heap" and r: "snd (hsspi_send (Some lay) (Some b) s) = s\<lparr>hs_heap := heap\<rparr>"
  show ?thesis
    using inv tx_mem_cong [OF m] inv_cong [OF m]
    by (simp add: r sys_inv_def layers_ok_def irq_balanced_def fifo_def)
next
  fix heap
  assume m: "same_mem (hs_heap s) heap"
    and r: "snd (hsspi_send (Some lay) (Some b) s) = s\<lparr>hs_heap := heap,
      hs_work_list := hs_work_list s @ [HSSPI_WORK_TX b lay], hs_out := hs_out s @ [Out_queued b lay]\<rparr>"
  have "tx_mem (hs_up s) (hs_heap s) ((cur @ tx_items (hs_work_list s)) @ [(b, lay)])"
    using inv b own new unfolding sys_inv_def tx_mem_def
    by (auto simp: disjoint_items_append item_keys_def)
  then show ?thesis
    using inv tx_mem_cong [OF m] inv_cong [OF m]
    by (simp add: r sys_inv_def layers_ok_def irq_balanced_def fifo_def)
qed

lemma send_keeps:
  "hs_up (snd (hsspi_send (Some lay) (Some b) s)) = hs_up s"
  "hs_soc (snd (hsspi_send (Some lay) (Some b) s)) = hs_soc s"
  "hs_ss_irq (snd (hsspi_send (Some lay) (Some b) s)) = hs_ss_irq s"
  "same_mem (hs_heap s) (hs_heap (snd (hsspi_send (Some lay) (Some b) s)))"
  "set (tx_items (hs_work_list (snd (hsspi_send (Some lay) (Some b) s))))
     \<subseteq> insert (b, lay) (set (tx_items (hs_work_list s)))"
  by (rule hsspi_send_cases [of s lay b]; force)+

lemma send_all_ok:
  assumes "sys_inv s cur" "\<forall>b \<in> set sends. tx_ok lay b \<and> (\<exists>bs. block_holds (hs_heap s) b bs) \<and>
      blk_keys b \<inter> owns (hs_up s) = {} \<and>
      (\<forall>x \<in> set (cur @ tx_items (hs_work_list s)). blk_keys b \<inter> item_keys x = {})"
    "disjoint_items (map (\<lambda>b. (b, lay)) sends)"
  shows "sys_inv (send_all lay sends s) cur"
  using assms
proof (induction sends arbitrary: s)
  case (Cons b sends)
  let ?s = "snd (hsspi_send (Some lay) (Some b) s)"
  obtain bs where bs: "block_holds (hs_heap s) b bs" using Cons.prems by auto
  have 1: "sys_inv ?s cur" using Cons.prems bs by (intro send_one) auto
  have d: "blk_keys b \<inter> blk_keys b' = {}" if "b' \<in> set sends" for b'
    using Cons.prems(3) that by (auto simp: item_keys_def)
  have "tx_ok lay b' \<and> (\<exists>bs. block_holds (hs_heap ?s) b' bs) \<and> blk_keys b' \<inter> owns (hs_up ?s) = {} \<and>
      (\<forall>x \<in> set (cur @ tx_items (hs_work_list ?s)). blk_keys b' \<inter> item_keys x = {})"
    if b': "b' \<in> set sends" for b'
  proof -
    obtain bs' where "block_holds (hs_heap s) b' bs'" using Cons.prems(2) b' by auto
    then have "block_holds (hs_heap ?s) b' bs'"
      using send_keeps(4) [of s lay b] by (auto simp: same_mem_def intro: block_holds_frame)
    moreover have "blk_keys b' \<inter> item_keys x = {}" if "x \<in> set (cur @ tx_items (hs_work_list ?s))" for x
    proof -
      have "x \<in> set (cur @ tx_items (hs_work_list s)) \<or> x = (b, lay)"
        using that send_keeps(5) [of lay b s] by auto
      then show ?thesis
      proof
        assume "x \<in> set (cur @ tx_items (hs_work_list s))"
        then show ?thesis using Cons.prems(2) b' by simp
      next
        assume "x = (b, lay)"
        then show ?thesis using d [OF b'] by (simp add: item_keys_def Int_commute)
      qed
    qed
    ultimately show ?thesis using Cons.prems(2) b' by (auto simp: send_keeps)
  qed
  then show ?case using Cons.IH [OF 1] Cons.prems(3) by simp
qed simp

lemma layer_received_ok:
  assumes inv: "sys_inv s cur" and b: "block_holds (hs_heap s) b bs" and len: "length bs < 65536"
    and own: "\<not> blk_ptr_in b (owns (hs_up s))"
    and new: "\<forall>x \<in> set (cur @ tx_items (hs_work_list s)). blk_keys b \<inter> item_keys x = {}"
    and msg: "status = 0 \<Longrightarrow> msg_ok lay (hs_up s) bs"
  shows "\<exists>s'. layer_received ops lay b status s = Some s' \<and> sys_inv s' cur"
proof -
  have i: "inv (hs_up s) (hs_heap s)" using inv by (simp add: sys_inv_def)
  have hok: "heap_ok (hs_heap s)" by (rule inv_ok [OF i])
  obtain up sends heap where r: "op_received (ops lay) (hs_up s) b status (hs_heap s) = Some (up, sends, heap)"
    and i': "inv up heap" and f: "frame (owns (hs_up s) \<union> blk_keys b) (hs_heap s) heap"
    and o: "owns up \<subseteq> owns (hs_up s) \<union> blk_keys b \<union> {k. hp_next (hs_heap s) \<le> k}"
    using upper_layer.received_ok [OF layer i b len own, of status] msg by blast
  have so: "sends_ok tx_ok lay (owns up) b (hs_heap s) heap sends"
    using received_sends [OF i b len own _ r] msg by blast
  let ?s = "s\<lparr>hs_up := up, hs_heap := heap\<rparr>"
  have t: "tx_mem (hs_up s) (hs_heap s) (cur @ tx_items (hs_work_list s))"
    using inv by (simp add: sys_inv_def)
  have below: "k < hp_next (hs_heap s) \<and> k \<notin> owns (hs_up s)"
    if "x \<in> set (cur @ tx_items (hs_work_list s))" "k \<in> item_keys x" for x k
  proof -
    obtain b' lay' where x: "x = (b', lay')" by (cases x)
    have k: "k \<in> blk_keys b'" using that(2) x by (simp add: item_keys_def)
    have m: "(b', lay') \<in> set (cur @ tx_items (hs_work_list s))" using that(1) x by simp
    obtain bs' where b': "block_holds (hs_heap s) b' bs'" "blk_keys b' \<inter> owns (hs_up s) = {}"
      by (rule tx_mem_item [OF t m])
    have "k < hp_next (hs_heap s)" by (rule block_keys_below [OF hok b'(1) k])
    with b'(2) k show ?thesis by blast
  qed
  have t': "tx_mem up heap (cur @ tx_items (hs_work_list s))"
  proof (rule tx_mem_frame [OF t hok f])
    show "item_keys x \<inter> (owns (hs_up s) \<union> blk_keys b) = {}"
      if "x \<in> set (cur @ tx_items (hs_work_list s))" for x
      using below [OF that] new that by blast
  qed (use o in blast)
  have inv': "sys_inv ?s cur"
    using inv i' t' by (simp add: sys_inv_def layers_ok_def irq_balanced_def fifo_def)
  have "sys_inv (send_all lay sends ?s) cur"
  proof (rule send_all_ok [OF inv'])
    show "disjoint_items (map (\<lambda>b. (b, lay)) sends)" using so by (simp add: sends_ok_def)
    show "\<forall>b \<in> set sends. tx_ok lay b \<and> (\<exists>bs. block_holds (hs_heap ?s) b bs) \<and>
      blk_keys b \<inter> owns (hs_up ?s) = {} \<and>
      (\<forall>x \<in> set (cur @ tx_items (hs_work_list ?s)). blk_keys b \<inter> item_keys x = {})"
    proof (intro ballI conjI)
      fix b' x
      assume b': "b' \<in> set sends" and x: "x \<in> set (cur @ tx_items (hs_work_list ?s))"
      have "blk_keys b' \<subseteq> blk_keys b \<union> {k. hp_next (hs_heap s) \<le> k}"
        using so b' by (auto simp: sends_ok_def)
      with below [of x] x new show "blk_keys b' \<inter> item_keys x = {}" by fastforce
    qed (use so in \<open>auto simp: sends_ok_def\<close>)
  qed
  then show ?thesis using r by (simp add: layer_received_def)
qed

lemma items_below:
  assumes inv: "sys_inv s cur" and x: "x \<in> set (cur @ tx_items (hs_work_list s))" "k \<in> item_keys x"
  shows "k < hp_next (hs_heap s)"
proof -
  obtain b lay where e: "x = (b, lay)" by (cases x)
  have t: "tx_mem (hs_up s) (hs_heap s) (cur @ tx_items (hs_work_list s))"
    using inv by (simp add: sys_inv_def)
  have m: "(b, lay) \<in> set (cur @ tx_items (hs_work_list s))" using x(1) e by simp
  obtain bs where b: "block_holds (hs_heap s) b bs" by (rule tx_mem_item [OF t m])
  show ?thesis
    using block_keys_below [OF sys_inv_heap_ok [OF inv] b] x(2) e by (simp add: item_keys_def)
qed

definition fresh_for :: "('l, 'b) hsspi \<Rightarrow> 'b tx_item list \<Rightarrow> 'b hsspi_block_scheme \<Rightarrow> nat \<Rightarrow> bool" where
  "fresh_for s cur b n \<longleftrightarrow> (\<exists>bs. block_holds (hs_heap s) b bs \<and> length bs = n) \<and>
     blk_keys b \<inter> owns (hs_up s) = {} \<and>
     (\<forall>x \<in> set (cur @ tx_items (hs_work_list s)). blk_keys b \<inter> item_keys x = {})"

lemma layer_get_ok:
  assumes inv: "sys_inv s cur" and n: "n < 65536"
  shows "\<exists>b h. layer_get ops lay n s = Some (b, s\<lparr>hs_heap := h\<rparr>) \<and> sys_inv (s\<lparr>hs_heap := h\<rparr>) cur \<and>
    (\<forall>blk. b = Some blk \<longrightarrow> fresh_for (s\<lparr>hs_heap := h\<rparr>) cur blk n)"
proof -
  have i: "inv (hs_up s) (hs_heap s)" using inv by (simp add: sys_inv_def)
  obtain b h where g: "op_get (ops lay) (hs_up s) n (hs_heap s) = Some (b, hs_up s, h)"
    and i': "inv (hs_up s) h" and f: "frame {} (hs_heap s) h"
    and b: "case b of None \<Rightarrow> True | Some blk \<Rightarrow> fresh_block (hs_heap s) h n blk"
    using upper_layer.get_ok [OF layer i n] by blast
  let ?s = "s\<lparr>hs_heap := h\<rparr>"
  have t: "tx_mem (hs_up s) (hs_heap s) (cur @ tx_items (hs_work_list s))"
    using inv by (simp add: sys_inv_def)
  have "tx_mem (hs_up s) h (cur @ tx_items (hs_work_list s))"
    by (rule tx_mem_frame [OF t inv_ok [OF i] f]) simp_all
  then have inv': "sys_inv ?s cur"
    using inv i' by (simp add: sys_inv_def layers_ok_def irq_balanced_def fifo_def)
  have "fresh_for ?s cur blk n" if "b = Some blk" for blk
  proof -
    have fb: "fresh_block (hs_heap s) h n blk" using b that by simp
    then have new: "hp_next (hs_heap s) \<le> k" if "k \<in> blk_keys blk" for k
      using that by (simp add: fresh_block_def)
    have 1: "blk_keys blk \<inter> owns (hs_up s) = {}" using new owns_below [OF i] by (meson disjoint_iff not_le)
    have 2: "blk_keys blk \<inter> item_keys x = {}" if "x \<in> set (cur @ tx_items (hs_work_list s))" for x
      using new items_below [OF inv that] by (meson disjoint_iff not_le)
    show ?thesis using fb 1 2 by (simp add: fresh_for_def fresh_block_def)
  qed
  moreover have "layer_get ops lay n s = Some (b, ?s)" using g by (simp add: layer_get_def)
  ultimately show ?thesis using inv' by blast
qed

text \<open>What the firmware sends to a layer is a message the layer can handle in each of the states \<open>L\<close>.\<close>

definition msgs_ok :: "'l set \<Rightarrow> (nat \<Rightarrow> attempt) \<Rightarrow> bool" where
  "msgs_ok L env \<longleftrightarrow> (\<forall>i host tx soc bs lay n. at_spi (env i) host tx = (0, soc, bs) \<longrightarrow>
     lay_id lay = stc_ul host \<longrightarrow> (\<forall>l \<in> L. msg_ok lay l (fit n bs)))"

lemma msgs_ok_mono: "msgs_ok L env \<Longrightarrow> L' \<subseteq> L \<Longrightarrow> msgs_ok L' env"
  unfolding msgs_ok_def by blast

lemma sys_inv_set_host [simp]: "sys_inv (set_host f ul n s) cur = sys_inv s cur"
  by (simp add: sys_inv_def set_host_def layers_ok_def irq_balanced_def fifo_def)

lemma empty_xfer_ok:
  assumes inv: "sys_inv s cur"
  shows "\<exists>ret s'. spi_xfer env NullPtr NullPtr 0 s = Some (ret, s') \<and> sys_inv s' cur \<and> hs_up s' = hs_up s"
proof -
  obtain ret s' where r: "spi_xfer env NullPtr NullPtr 0 s = Some (ret, s')" "xfer_step NullPtr 5 s s'"
    using spi_xfer_ok [of s NullPtr 0 NullPtr env] by (auto simp: buf_ok_def)
  then show ?thesis using sys_inv_xfer [OF inv r(2)] by (auto simp: xfer_step_def same_core_def)
qed

lemma block_xfer_ok:
  assumes inv: "sys_inv s cur" and b: "fresh_for s cur b n" and n: "n < 65536"
    and lay: "lay_id lay = stc_ul (hs_host s)" and msgs: "msgs_ok L env" "hs_up s \<in> L"
  shows "\<exists>ret s1 s'. spi_xfer env NullPtr (blk_data b) (blk_size b) s = Some (ret, s1) \<and>
    layer_received ops lay b ret s1 = Some s' \<and> sys_inv s' cur"
proof -
  obtain bs where bs: "block_holds (hs_heap s) b bs" "length bs = n" using b by (auto simp: fresh_for_def)
  then have sz: "blk_size b = n" and ok: "buf_ok (hs_heap s) (blk_data b) n"
    by (auto simp: block_holds_def buf_ok_def)
  obtain ret s1 where x: "spi_xfer env NullPtr (blk_data b) n s = Some (ret, s1)"
    and st: "xfer_step (blk_data b) 5 s s1" and su: "ret = 0 \<longrightarrow> xfer_success env 5 NullPtr (blk_data b) n s s1"
    using spi_xfer_ok [of s NullPtr n "blk_data b" env] ok by (auto simp: buf_ok_def)
  have inv1: "sys_inv s1 cur"
    by (rule sys_inv_xfer [OF inv st]) (use b in \<open>auto simp: fresh_for_def blk_keys_def\<close>)
  have c: "hs_up s1 = hs_up s" "hs_work_list s1 = hs_work_list s"
    using st by (simp_all add: xfer_step_def same_core_def)
  obtain bs1 where b1: "heap_bytes (hs_heap s1) (blk_data b) = Some bs1" "length bs1 = n"
    using buf_ok_step [OF st ok] bs by (auto simp: buf_ok_def block_holds_def)
  then have bh: "block_holds (hs_heap s1) b bs1" using bs by (auto simp: block_holds_def)
  have msg: "msg_ok lay (hs_up s1) bs1" if z: "ret = 0"
  proof -
    have "blk_data b \<noteq> NullPtr" using bs by (auto simp: block_holds_def)
    then obtain i d where "at_spi (env i) (hs_host s) (tx_bytes NullPtr s) = (0, hs_soc s1, d)"
      "bs1 = fit n d"
      using su z b1 by (auto simp: xfer_success_def)
    then show ?thesis using msgs lay c(1) unfolding msgs_ok_def by metis
  qed
  have own: "\<not> blk_ptr_in b (owns (hs_up s1))"
    using b c by (auto simp: fresh_for_def blk_ptr_in_def blk_keys_def)
  have new: "\<forall>x \<in> set (cur @ tx_items (hs_work_list s1)). blk_keys b \<inter> item_keys x = {}"
    using b c by (simp add: fresh_for_def)
  obtain s' where "layer_received ops lay b ret s1 = Some s'" "sys_inv s' cur"
    using layer_received_ok [OF inv1 bh _ own new msg] b1(2) n by auto
  then show ?thesis using x sz by auto
qed

lemma rx_transfer_ok:
  assumes inv: "sys_inv s cur" and n: "n < 65536" and ul: "stc_ul (hs_host s) = ul" and msgs: "msgs_ok {hs_up s} env"
  shows "\<exists>ret s'. rx_transfer ops env ul n s = Some (ret, s') \<and> sys_inv s' cur"
proof (cases "if layer_id_is_valid ul then hs_layers s ! ul else None")
  case None
  then show ?thesis using empty_xfer_ok [OF inv, of env] by (auto simp: rx_transfer_def)
next
  case (Some lay)
  then have lay: "lay_id lay = ul"
    using inv by (auto simp: sys_inv_def layers_ok_def table_ok_def layer_id_is_valid_def split: if_splits)
  obtain b h where g: "layer_get ops lay n s = Some (b, s\<lparr>hs_heap := h\<rparr>)"
    and inv1: "sys_inv (s\<lparr>hs_heap := h\<rparr>) cur"
    and fr: "\<forall>blk. b = Some blk \<longrightarrow> fresh_for (s\<lparr>hs_heap := h\<rparr>) cur blk n"
    using layer_get_ok [OF inv n] by blast
  show ?thesis
  proof (cases b)
    case None
    then show ?thesis using Some g empty_xfer_ok [OF inv1, of env] by (auto simp: rx_transfer_def)
  next
    case (Some blk)
    have "\<exists>ret s1 s'. spi_xfer env NullPtr (blk_data blk) (blk_size blk) (s\<lparr>hs_heap := h\<rparr>) = Some (ret, s1) \<and>
        layer_received ops lay blk ret s1 = Some s' \<and> sys_inv s' cur"
      using Some fr lay ul by (intro block_xfer_ok [OF inv1 _ n _ msgs]) auto
    then show ?thesis
      using \<open>(if layer_id_is_valid ul then hs_layers s ! ul else None) = Some lay\<close> Some g
      by (auto simp: rx_transfer_def)
  qed
qed

lemma sys_inv_rx_check: "sys_inv s cur \<Longrightarrow> sys_inv (snd (rx_check ul n s)) cur"
  by (auto simp: sys_inv_def rx_check_def layers_ok_def irq_balanced_def fifo_def reenable_ss_irq_def
      emit_def Let_def)

lemma hsspi_rx_ok:
  assumes inv: "sys_inv s cur" and msgs: "msgs_ok {hs_up s} env"
  shows "\<exists>ret s'. hsspi_rx ops env ul n s = Some (ret, s') \<and> sys_inv s' cur"
proof -
  let ?s = "set_host STC_HOST_RD (u8 ul) (u16 n) s"
  have h: "stc_ul (hs_host ?s) = u8 ul" by (simp add: set_host_def)
  have i: "sys_inv ?s cur" using inv by simp
  have m: "msgs_ok {hs_up ?s} env" using msgs by (simp add: set_host_def)
  obtain ret s1 where r: "rx_transfer ops env (u8 ul) (u16 n) ?s = Some (ret, s1)" "sys_inv s1 cur"
    using rx_transfer_ok [OF i u16_less h m] by blast
  then show ?thesis
    using sys_inv_rx_check [OF r(2), of "u8 ul" "u16 n"]
    by (cases "rx_check (u8 ul) (u16 n) s1") (simp add: hsspi_rx_def)
qed

lemma hsspi_tx_ok:
  assumes inv: "sys_inv s [(b, lay)]" and msgs: "msgs_ok (ups_at_rx ops (Some (HSSPI_WORK_TX b lay)) (hs_up s)) env'"
  shows "\<exists>ret s'. hsspi_tx ops env env' lay b s = Some (ret, s') \<and> sys_inv s' []"
proof -
  let ?f = "if hs_ss_irq s then STC_HOST_WR OR STC_HOST_PRD else STC_HOST_WR"
  let ?s = "set_host ?f (lay_id lay) (blk_length b) s"
  have i0: "sys_inv ?s [(b, lay)]" using inv by simp
  have t0: "tx_mem (hs_up ?s) (hs_heap ?s) ([(b, lay)] @ tx_items (hs_work_list ?s))"
    using i0 by (simp only: sys_inv_def)
  obtain bs where bs: "tx_ok lay b" "block_holds (hs_heap ?s) b bs" "blk_keys b \<inter> owns (hs_up ?s) = {}"
    by (rule tx_mem_item [OF t0, of b lay]) simp_all
  then have ok: "buf_ok (hs_heap ?s) (blk_data b) (blk_size b)" by (auto simp: block_holds_def buf_ok_def)
  obtain ret s1 where x: "spi_xfer env (blk_data b) NullPtr (blk_size b) ?s = Some (ret, s1)"
    and st: "xfer_step NullPtr 5 ?s s1"
    using spi_xfer_ok [of ?s "blk_data b" "blk_size b" NullPtr env] ok
    by (cases "blk_data b = NullPtr") (auto simp: buf_ok_def)
  have i1: "sys_inv s1 [(b, lay)]" by (rule sys_inv_xfer [OF i0 st]) simp
  have t1: "tx_mem (hs_up s1) (hs_heap s1) ([(b, lay)] @ tx_items (hs_work_list s1))"
    and v1: "inv (hs_up s1) (hs_heap s1)"
    using i1 by (simp_all only: sys_inv_def)
  obtain bs1 where b1: "block_holds (hs_heap s1) b bs1" "blk_keys b \<inter> owns (hs_up s1) = {}"
    by (rule tx_mem_item [OF t1, of b lay]) simp_all
  have own: "\<not> blk_ptr_in b (owns (hs_up s1))" using b1(2) by (auto simp: blk_ptr_in_def blk_keys_def)
  obtain up h where se: "op_sent (ops lay) (hs_up s1) b ret (hs_heap s1) = Some (up, h)" and v2: "inv up h"
    and f: "frame (blk_keys b) (hs_heap s1) h" and o: "owns up \<subseteq> owns (hs_up s1) \<union> blk_keys b"
    using sent_ok [OF v1 b1(1) own bs(1)] by blast
  let ?s2 = "emit (Out_sent b lay ret) (s1\<lparr>hs_up := up, hs_heap := h\<rparr>)"
  have t1': "tx_mem (hs_up s1) (hs_heap s1) (tx_items (hs_work_list s1))"
    and d1: "\<forall>x \<in> set (tx_items (hs_work_list s1)). item_keys x \<inter> blk_keys b = {}"
    using t1 by (auto simp: tx_mem_def item_keys_def)
  have t2: "tx_mem up h (tx_items (hs_work_list s1))"
    by (rule tx_mem_frame [OF t1' inv_ok [OF v1] f]) (use d1 o in auto)
  have i2: "sys_inv ?s2 []"
    using i1 v2 t2 by (simp add: sys_inv_def layers_ok_def irq_balanced_def fifo_def emit_def)
  have "hs_up s1 = hs_up s" using st by (simp add: xfer_step_def same_core_def set_host_def)
  then have m: "msgs_ok {hs_up ?s2} env'"
    using se by (intro msgs_ok_mono [OF msgs]) (auto simp: ups_at_rx_def emit_def)
  show ?thesis
    using x se i2 hsspi_rx_ok [OF i2 m, of "stc_ul (hs_soc s1)" "stc_length (hs_soc s1)"]
    by (auto simp: hsspi_tx_def layer_sent_def Let_def emit_def)
qed

lemma hsspi_pre_read_ok:
  assumes inv: "sys_inv s []" and msgs: "msgs_ok {hs_up s} env'"
  shows "\<exists>ret s'. hsspi_pre_read ops env env' s = Some (ret, s') \<and> sys_inv s' []"
proof -
  have i: "sys_inv (set_host STC_HOST_PRD 0 0 s) []" using inv by simp
  obtain ret s1 where x: "spi_xfer env NullPtr NullPtr 0 (set_host STC_HOST_PRD 0 0 s) = Some (ret, s1)"
    and i1: "sys_inv s1 []" and u: "hs_up s1 = hs_up s"
    using empty_xfer_ok [OF i] by (fastforce simp: set_host_def)
  have m: "msgs_ok {hs_up s1} env'" using msgs u by simp
  show ?thesis
    using x i1 hsspi_rx_ok [OF i1 m, of "stc_ul (hs_soc s1)" "stc_length (hs_soc s1)"]
    by (auto simp: hsspi_pre_read_def)
qed

fun work_items :: "'b hsspi_work option \<Rightarrow> 'b tx_item list" where
  "work_items (Some (HSSPI_WORK_TX b lay)) = [(b, lay)]"
| "work_items _ = []"

lemma sys_inv_emit:
  "sys_inv s cur \<Longrightarrow> queued_of [a] = [] \<Longrightarrow> sent_of [a] = [] \<Longrightarrow> sys_inv (emit a s) cur"
  by (simp add: sys_inv_def layers_ok_def irq_balanced_def fifo_def emit_def del: queued_of.simps sent_of.simps)

lemma sys_inv_count: "sys_inv s cur \<Longrightarrow> sys_inv (fst (count_error ret errors s)) cur"
  by (auto simp: count_error_def intro: sys_inv_emit)

text \<open>The thread's work never faults, whatever the platform does.\<close>

lemma thread_work_ok:
  assumes inv: "sys_inv s (work_items hw)" and msgs: "msgs_ok (ups_at_rx ops hw (hs_up s)) (pe_second e)"
  shows "\<exists>s' errors'. thread_work ops e hw s errors = Some (s', errors') \<and> sys_inv s' []"
proof (cases hw)
  case None
  then obtain ret s1 where p: "hsspi_pre_read ops (pe_first e) (pe_second e) s = Some (ret, s1)" "sys_inv s1 []"
    using hsspi_pre_read_ok [of s "pe_second e" "pe_first e"] msgs inv by (auto simp: ups_at_rx_def)
  then show ?thesis using None sys_inv_count [OF p(2), of ret errors]
    by (cases "count_error ret errors s1") (simp add: thread_work_def)
next
  case (Some w)
  show ?thesis
  proof (cases w)
    case (HSSPI_WORK_TX b lay)
    then obtain ret s1 where p: "hsspi_tx ops (pe_first e) (pe_second e) lay b s = Some (ret, s1)" "sys_inv s1 []"
      using hsspi_tx_ok [of s b lay "pe_second e" "pe_first e"] msgs inv Some by auto
    then show ?thesis using Some HSSPI_WORK_TX sys_inv_count [OF p(2), of ret errors]
      by (cases "count_error ret errors s1") (simp add: thread_work_def)
  next
    case (HSSPI_WORK_COMPLETION c)
    then show ?thesis using Some inv sys_inv_emit [of s "[]" "Out_complete c"] by (simp add: thread_work_def)
  qed
qed

end

end
