(* ===== verification/Hsspi_System.thy ===== *)
theory Hsspi_System
  imports Hsspi_Work
begin

text \<open>
  The core as a transition system: calls from other threads, interrupts, and the two halves of a
  pass of the HSSPI thread (taking a work item, and doing it) interleave in any order.
\<close>

section \<open>Steps\<close>

datatype 'b thread_pc = Th_idle | Th_busy "'b hsspi_work option"

type_synonym ('l, 'b) sys_state = "('l, 'b) hsspi \<times> 'b thread_pc \<times> nat"

text \<open>
  \<open>Ev_memory\<close> is what the rest of the kernel does to the layers and the heap, for instance a user
  process that reads from the UCI device.
\<close>

datatype ('l, 'b) hs_event =
    Ev_send "hsspi_layer option" "'b hsspi_block_scheme option"
  | Ev_register hsspi_layer
  | Ev_unregister hsspi_layer nat
  | Ev_start
  | Ev_stop nat
  | Ev_irq irq
  | Ev_memory 'l kheap
  | Ev_take
  | Ev_work pass_env

inductive hs_step ::
  "('l, 'b) ops_table \<Rightarrow> ('l, 'b) hs_event \<Rightarrow> ('l, 'b) sys_state \<Rightarrow> ('l, 'b) sys_state \<Rightarrow> bool"
  for ops where
  send: "hs_step ops (Ev_send l b) (s, t, n) (snd (hsspi_send l b s), t, n)"
| register: "hs_step ops (Ev_register l) (s, t, n) (snd (hsspi_register l s), t, n)"
| unregister: "hs_step ops (Ev_unregister l c) (s, t, n) (snd (hsspi_unregister l c s), t, n)"
| start: "hs_step ops Ev_start (s, t, n) (hsspi_start s, t, n)"
| stop: "hs_step ops (Ev_stop c) (s, t, n) (hsspi_stop c s, t, n)"
| irq: "hs_step ops (Ev_irq i) (s, t, n) (deliver_irq i s, t, n)"
| memory: "hs_step ops (Ev_memory up h) (s, t, n) (s\<lparr>hs_up := up, hs_heap := h\<rparr>, t, n)"
| take: "is_txrx_waiting s \<Longrightarrow> get_work s = (hw, s') \<Longrightarrow>
    hs_step ops Ev_take (s, Th_idle, n) (s', Th_busy hw, n)"
| work: "thread_work ops e hw s n = Some (s', n') \<Longrightarrow>
    hs_step ops (Ev_work e) (s, Th_busy hw, n) (s', Th_idle, n')"

inductive_cases hs_stepE: "hs_step ops ev st st'"

text \<open>\<open>G\<close> says which events may occur in a state.\<close>

inductive hs_run ::
  "('l, 'b) ops_table \<Rightarrow> (('l, 'b) sys_state \<Rightarrow> ('l, 'b) hs_event \<Rightarrow> bool) \<Rightarrow> ('l, 'b) hs_event list \<Rightarrow>
   ('l, 'b) sys_state \<Rightarrow> ('l, 'b) sys_state \<Rightarrow> bool"
  for ops G where
  run_nil: "hs_run ops G [] st st"
| run_step: "hs_run ops G es st st' \<Longrightarrow> G st' ev \<Longrightarrow> hs_step ops ev st' st'' \<Longrightarrow>
    hs_run ops G (es @ [ev]) st st''"

fun pc_items :: "'b thread_pc \<Rightarrow> 'b tx_item list" where
  "pc_items Th_idle = []"
| "pc_items (Th_busy (Some (HSSPI_WORK_TX b lay))) = [(b, lay)]"
| "pc_items (Th_busy _) = []"

section \<open>Safety of the system\<close>

context hsspi_layers begin

text \<open>
  What the core's callers guarantee: a block passed to \<open>hsspi_send\<close> is an allocated block of the
  right size that nobody else uses; whoever else changes memory keeps the layers' invariant and
  leaves the waiting blocks alone; and the firmware's messages suit the layers in the state in which
  they arrive.
\<close>

definition caller_ok :: "('l, 'b) sys_state \<Rightarrow> ('l, 'b) hs_event \<Rightarrow> bool" where
  "caller_ok st ev =
     (case st of (s, t, n) \<Rightarrow>
        (case ev of
           Ev_send (Some lay) (Some b) \<Rightarrow>
             tx_ok lay b \<and> (\<exists>bs. block_holds (hs_heap s) b bs) \<and> blk_keys b \<inter> owns (hs_up s) = {} \<and>
             (\<forall>x \<in> set (pc_items t @ tx_items (hs_work_list s)). blk_keys b \<inter> item_keys x = {})
         | Ev_memory up h \<Rightarrow> inv up h \<and> tx_mem up h (pc_items t @ tx_items (hs_work_list s))
         | Ev_work e \<Rightarrow> (\<forall>hw. t = Th_busy hw \<longrightarrow> msgs_ok (ups_at_rx ops hw (hs_up s)) (pe_second e))
         | _ \<Rightarrow> True))"

definition sys_ok :: "('l, 'b) sys_state \<Rightarrow> bool" where
  "sys_ok st = (case st of (s, t, n) \<Rightarrow> sys_inv s (pc_items t) \<and> n \<le> MAX_SUCCESSIVE_ERRORS)"

lemma pc_items_busy: "pc_items (Th_busy hw) = work_items hw"
  by (cases hw rule: work_items.cases) simp_all

lemma count_error_bound:
  "count_error ret n s = (s', n') \<Longrightarrow> n' \<le> MAX_SUCCESSIVE_ERRORS"
  by (auto simp: count_error_def MAX_SUCCESSIVE_ERRORS_def split: if_splits)

lemma thread_work_bound:
  "thread_work ops e hw s n = Some (s', n') \<Longrightarrow> n \<le> MAX_SUCCESSIVE_ERRORS \<Longrightarrow> n' \<le> MAX_SUCCESSIVE_ERRORS"
  by (auto simp: thread_work_def split: option.splits hsspi_work.splits Option.bind_splits
      dest: count_error_bound)

lemma step_take:
  assumes "sys_inv s []" "get_work s = (hw, s')"
  shows "sys_inv s' (work_items hw)"
proof (cases "hs_work_list s")
  case Nil
  then show ?thesis using assms by (simp add: get_work_def)
next
  case (Cons w ws)
  then show ?thesis using assms
    by (cases w) (auto simp: get_work_def sys_inv_def layers_ok_def irq_balanced_def fifo_def)
qed

lemma hs_step_ok:
  assumes ok: "sys_ok st" and g: "caller_ok st ev" and st: "hs_step ops ev st st'"
  shows "sys_ok st'"
  using st
proof cases
  case (send l b s t n)
  show ?thesis
  proof (cases "l = None \<or> b = None")
    case True
    then have "snd (hsspi_send l b s) = s" by (auto simp: hsspi_send_def split: option.splits)
    with ok send show ?thesis by simp
  next
    case False
    then obtain lay blk where lb: "l = Some lay" "b = Some blk" by auto
    then obtain bs where "tx_ok lay blk" "block_holds (hs_heap s) blk bs" "blk_keys blk \<inter> owns (hs_up s) = {}"
      "\<forall>x \<in> set (pc_items t @ tx_items (hs_work_list s)). blk_keys blk \<inter> item_keys x = {}"
      using g send by (auto simp: caller_ok_def)
    moreover have "sys_inv s (pc_items t)" using ok send by (simp add: sys_ok_def)
    ultimately have "sys_inv (snd (hsspi_send (Some lay) (Some blk) s)) (pc_items t)"
      by (intro send_one) auto
    then show ?thesis using ok send lb by (simp add: sys_ok_def)
  qed
next
  case (register l s t n)
  then have "sys_inv s (pc_items t)" using ok by (simp add: sys_ok_def)
  then have "sys_inv (snd (hsspi_register l s)) (pc_items t)"
    by (auto simp: hsspi_register_def sys_inv_def layers_ok_def irq_balanced_def fifo_def
        intro: table_ok_update)
  then show ?thesis using ok register by (simp add: sys_ok_def)
next
  case (unregister l c s t n)
  then have "sys_inv s (pc_items t)" using ok by (simp add: sys_ok_def)
  then have "sys_inv (snd (hsspi_unregister l c s)) (pc_items t)"
    by (auto simp: hsspi_unregister_def work_add_tail_def sys_inv_def irq_balanced_def fifo_def
        layers_ok_def intro: table_ok_update)
  then show ?thesis using ok unregister by (simp add: sys_ok_def)
next
  case (irq i s t n)
  then have i: "sys_inv s (pc_items t)" using ok by (simp add: sys_ok_def)
  have "sys_inv (deliver_irq i s) (pc_items t)"
    by (rule sys_inv_xfer [OF i xfer_step_irq [of NullPtr]]) simp
  then show ?thesis using ok irq by (simp add: sys_ok_def)
next
  case (take s hw s' n)
  then show ?thesis using ok step_take [of s hw s'] by (simp add: sys_ok_def pc_items_busy)
next
  case (work e hw s n s' n')
  then have i: "sys_inv s (work_items hw)" and m: "msgs_ok (ups_at_rx ops hw (hs_up s)) (pe_second e)"
    using ok g by (simp_all add: sys_ok_def caller_ok_def pc_items_busy)
  then have "sys_inv s' []" using thread_work_ok [OF i m, of n] work by simp
  then show ?thesis using ok work thread_work_bound [of e hw s n s' n'] by (simp add: sys_ok_def)
next
  case (memory up h s t n)
  then show ?thesis using ok g
    by (simp add: sys_ok_def caller_ok_def sys_inv_def layers_ok_def irq_balanced_def fifo_def)
qed (use ok in \<open>simp_all add: sys_ok_def sys_inv_def layers_ok_def irq_balanced_def fifo_def
      hsspi_start_def hsspi_stop_def work_add_tail_def\<close>)

lemma hs_run_ok: "hs_run ops caller_ok es st st' \<Longrightarrow> sys_ok st \<Longrightarrow> sys_ok st'"
  by (induction rule: hs_run.induct) (auto intro: hs_step_ok)

lemma sys_ok_init: "inv up h \<Longrightarrow> sys_ok (snd (hsspi_init e h up), Th_idle, 0)"
  by (simp add: sys_ok_def sys_inv_def hsspi_init_def tx_mem_def layers_ok_def table_ok_def
      irq_balanced_def fifo_def)

text \<open>In every reachable state the thread can do its work.\<close>

lemma hs_progress:
  assumes "sys_ok (s, Th_busy hw, n)" "msgs_ok (ups_at_rx ops hw (hs_up s)) (pe_second e)"
  shows "\<exists>st'. hs_step ops (Ev_work e) (s, Th_busy hw, n) st'"
proof -
  have "sys_inv s (work_items hw)" using assms(1) by (simp add: sys_ok_def pc_items_busy)
  then obtain s' n' where "thread_work ops e hw s n = Some (s', n')"
    using thread_work_ok [OF _ assms(2)] by blast
  then show ?thesis by (blast intro: hs_step.work)
qed

end

end
