(* ===== verification/Hsspi_Barrier.thy ===== *)
theory Hsspi_Barrier
  imports Hsspi_System
begin

text \<open>
  The completion work item as a barrier: \<open>hsspi_unregister\<close> and \<open>hsspi_stop\<close> queue one and wait
  for it.  Once it has been completed, no work that the call was meant to flush is left, neither in
  the list nor in the hands of the thread.  Nothing is assumed of the layers here.
\<close>

section \<open>The work list only grows by accepted blocks\<close>

fun completes :: "'b hsspi_out list \<Rightarrow> nat list" where
  "completes [] = []"
| "completes (Out_complete c # os) = c # completes os"
| "completes (_ # os) = completes os"

lemma completes_append [simp]: "completes (xs @ ys) = completes xs @ completes ys"
  by (induction xs rule: completes.induct) simp_all

lemma quiet_completes: "\<forall>x \<in> set outs. quiet_out x \<Longrightarrow> completes outs = []"
proof (induction outs)
  case (Cons x xs)
  then show ?case by (cases x) auto
qed simp

definition accepts :: "('l, 'b) hsspi \<Rightarrow> 'b tx_item \<Rightarrow> bool" where
  "accepts s x \<longleftrightarrow> hs_state s = HSSPI_RUNNING \<and> lay_id (snd x) < UL_MAX_IDX \<and>
     hs_layers s ! lay_id (snd x) = Some (snd x)"

definition tx_work :: "'b tx_item \<Rightarrow> 'b hsspi_work" where
  "tx_work x = HSSPI_WORK_TX (fst x) (snd x)"

definition grows :: "('l, 'b) hsspi \<Rightarrow> ('l, 'b) hsspi \<Rightarrow> bool" where
  "grows s s' \<longleftrightarrow> hs_layers s' = hs_layers s \<and> hs_state s' = hs_state s \<and>
     completes (hs_out s') = completes (hs_out s) \<and>
     (\<exists>new. hs_work_list s' = hs_work_list s @ map tx_work new \<and> (\<forall>x \<in> set new. accepts s x))"

lemma grows_refl [simp]: "grows s s"
  by (auto simp: grows_def intro: exI [of _ "[]"])

lemma grows_trans: "grows s s' \<Longrightarrow> grows s' s'' \<Longrightarrow> grows s s''"
proof -
  assume 1: "grows s s'" and 2: "grows s' s''"
  then obtain n1 n2 where n: "hs_work_list s' = hs_work_list s @ map tx_work n1" "\<forall>x \<in> set n1. accepts s x"
    "hs_work_list s'' = hs_work_list s' @ map tx_work n2" "\<forall>x \<in> set n2. accepts s' x"
    by (auto simp: grows_def)
  have "accepts s' = accepts s" using 1 by (simp add: grows_def accepts_def fun_eq_iff)
  with 1 2 n show ?thesis by (auto simp: grows_def intro!: exI [of _ "n1 @ n2"])
qed

text \<open>A step that touches none of the four components.\<close>

lemma grows_same:
  "\<lbrakk>hs_layers s' = hs_layers s; hs_state s' = hs_state s; hs_work_list s' = hs_work_list s;
    completes (hs_out s') = completes (hs_out s)\<rbrakk> \<Longrightarrow> grows s s'"
  by (auto simp: grows_def intro: exI [of _ "[]"])

lemma grows_step: "xfer_step rx n s s' \<Longrightarrow> grows s s'"
  by (rule grows_same) (auto simp: xfer_step_def same_core_def dest: quiet_completes)

lemma grows_transfer: "spi_sync_transfer a tx rx n s = Some (ret, s') \<Longrightarrow> grows s s'"
  by (auto simp: spi_sync_transfer_def emit_def split: Option.bind_splits prod.splits
      intro!: grows_trans [OF grows_same grows_step [OF xfer_step_irqs [of NullPtr]]])

lemma grows_attempt: "xfer_attempt a tx rx n s = Some (ret, s') \<Longrightarrow> grows s s'"
proof -
  assume x: "xfer_attempt a tx rx n s = Some (ret, s')"
  obtain w s1 where w: "hsspi_wait_ss_ready a s = (w, s1)" by (cases "hsspi_wait_ss_ready a s")
  have 1: "grows s s1" by (rule grows_step [OF wait_step(1) [OF w, of NullPtr]])
  have 2: "grows s (hsspi_set_spi_slave_busy s1)"
    by (rule grows_trans [OF 1]) (simp add: grows_same core_defs)
  have 3: "grows s2 (call_wakeup s2)" for s2 :: "('a, 'b) hsspi"
    by (rule grows_same) (simp_all add: core_defs)
  show ?thesis
    using x w 1
    by (auto simp: xfer_attempt_def split: if_splits Option.bind_splits dest!: grows_transfer)
      (meson 2 3 grows_trans)+
qed

lemma grows_loop: "xfer_loop retry env tx rx n s = Some (ret, s') \<Longrightarrow> grows s s'"
proof (induction retry env tx rx n s arbitrary: ret s' rule: xfer_loop.induct)
  case (1 retry env tx rx n s)
  obtain r1 s1 where a: "xfer_attempt (env 0) tx rx n s = Some (r1, s1)"
    using 1(2) by (subst (asm) xfer_loop.simps) (auto split: Option.bind_splits)
  show ?case
  proof (cases "r1 = - EAGAIN \<and> 0 < retry - 1")
    case True
    then have "xfer_loop (retry - 1) (\<lambda>i. env (Suc i)) tx rx n s1 = Some (ret, s')"
      using 1(2) a by (subst (asm) xfer_loop.simps) simp
    then have "grows s1 s'" by (rule 1(1) [OF a refl True])
    then show ?thesis using grows_trans [OF grows_attempt [OF a]] by blast
  next
    case False
    then have "s' = s1" using 1(2) a by (subst (asm) xfer_loop.simps) auto
    then show ?thesis using grows_attempt [OF a] by simp
  qed
qed

lemma grows_xfer: "spi_xfer env tx rx n s = Some (ret, s') \<Longrightarrow> grows s s'"
proof -
  let ?s0 = "s\<lparr>hs_soc := \<lparr>stc_flags = 0, stc_ul = 0, stc_length = 0\<rparr>\<rparr>"
  assume "spi_xfer env tx rx n s = Some (ret, s')"
  then obtain s1 where l: "xfer_loop 5 env tx rx n ?s0 = Some (ret, s1)"
    and s': "s' = s1\<lparr>hs_waiting_ss_rdy := False\<rparr>"
    by (auto simp: spi_xfer_def split: Option.bind_splits)
  have "grows s ?s0" "grows s1 s'" by (simp_all add: grows_same s')
  then show ?thesis using grows_loop [OF l] grows_trans by blast
qed

lemma grows_send: "grows s (snd (hsspi_send l b s))"
proof (cases "l = None \<or> b = None")
  case True
  then show ?thesis by (auto simp: hsspi_send_def split: option.splits)
next
  case False
  then obtain lay blk where lb: "l = Some lay" "b = Some blk" by auto
  obtain ok heap where k: "kzalloc_struct (hs_heap s) = (ok, heap)" by (cases "kzalloc_struct (hs_heap s)")
  show ?thesis
    by (auto simp: lb hsspi_send_def k Let_def grows_def work_add_tail_def emit_def layer_id_is_valid_def
        accepts_def tx_work_def intro: exI [of _ "[]"] intro!: exI [of _ "[(blk, lay)]"])
qed

lemma grows_send_all: "grows s (send_all lay bs s)"
proof (induction bs arbitrary: s)
  case (Cons b bs)
  then show ?case using grows_trans [OF grows_send [of s "Some lay" "Some b"]] by simp
qed simp

lemma grows_received: "layer_received ops lay b st s = Some s' \<Longrightarrow> grows s s'"
  by (auto simp: layer_received_def split: Option.bind_splits
      intro!: grows_trans [OF grows_same grows_send_all])

lemma grows_get: "layer_get ops lay n s = Some (b, s') \<Longrightarrow> grows s s'"
  by (auto simp: layer_get_def split: Option.bind_splits intro!: grows_same)

lemma grows_sent: "layer_sent ops lay b st s = Some s' \<Longrightarrow> grows s s'"
  by (auto simp: layer_sent_def emit_def split: Option.bind_splits intro!: grows_same)

lemma grows_rx_transfer: "rx_transfer ops env ul n s = Some (ret, s') \<Longrightarrow> grows s s'"
  by (auto simp: rx_transfer_def Let_def split: option.splits Option.bind_splits if_splits
      dest!: grows_xfer grows_get grows_received)
    (meson grows_trans)+

lemma grows_rx_check: "grows s (snd (rx_check ul n s))"
  by (auto simp: rx_check_def Let_def reenable_ss_irq_def emit_def intro!: grows_same)

lemma grows_set_host: "grows s (set_host f ul n s)"
  by (auto simp: set_host_def intro!: grows_same)

lemma grows_rx: "hsspi_rx ops env ul n s = Some (ret, s') \<Longrightarrow> grows s s'"
proof -
  assume a: "hsspi_rx ops env ul n s = Some (ret, s')"
  obtain r1 s1 where t: "rx_transfer ops env (u8 ul) (u16 n) (set_host STC_HOST_RD (u8 ul) (u16 n) s)
      = Some (r1, s1)"
    using a by (auto simp: hsspi_rx_def Let_def split: Option.bind_splits)
  have 1: "grows s s1" by (rule grows_trans [OF grows_set_host grows_rx_transfer [OF t]])
  have "s' = s1 \<or> s' = snd (rx_check (u8 ul) (u16 n) s1)"
    using a t by (auto simp: hsspi_rx_def Let_def split: if_splits)
  then show ?thesis using 1 grows_trans [OF 1 grows_rx_check] by auto
qed

lemma grows_tx: "hsspi_tx ops env env' lay b s = Some (ret, s') \<Longrightarrow> grows s s'"
  by (auto simp: hsspi_tx_def Let_def split: Option.bind_splits if_splits
      dest!: grows_xfer grows_sent grows_rx)
    (meson grows_set_host grows_trans)+

lemma grows_pre_read: "hsspi_pre_read ops env env' s = Some (ret, s') \<Longrightarrow> grows s s'"
  by (auto simp: hsspi_pre_read_def split: Option.bind_splits if_splits
      dest!: grows_xfer grows_rx)
    (meson grows_set_host grows_trans)+

lemma grows_count: "grows s (fst (count_error ret n s))"
  by (auto simp: count_error_def emit_def intro!: grows_same)

lemma grows_work:
  assumes "thread_work ops e hw s n = Some (s', n')" "\<And>c. hw \<noteq> Some (HSSPI_WORK_COMPLETION c)"
  shows "grows s s'"
proof -
  have "\<exists>ret s1. (hw = None \<and> hsspi_pre_read ops (pe_first e) (pe_second e) s = Some (ret, s1) \<or>
      (\<exists>b lay. hw = Some (HSSPI_WORK_TX b lay) \<and>
        hsspi_tx ops (pe_first e) (pe_second e) lay b s = Some (ret, s1))) \<and>
      s' = fst (count_error ret n s1)"
    using assms
    by (auto simp: thread_work_def split: option.splits hsspi_work.splits Option.bind_splits)
  then show ?thesis
    using grows_pre_read grows_tx grows_count grows_trans by metis
qed

section \<open>The barrier\<close>

text \<open>
  \<open>flushed\<close> are the items the caller wants to see gone, \<open>closed\<close> a condition that keeps new ones
  from being accepted, and \<open>allowed\<close> the events that preserve it; \<open>c\<close> is the completion.
\<close>

locale barrier =
  fixes flushed :: "'b tx_item \<Rightarrow> bool"
    and closed :: "('l, 'b) hsspi \<Rightarrow> bool"
    and allowed :: "('l, 'b) hs_event \<Rightarrow> bool"
    and c :: nat
  assumes no_accept: "closed s \<Longrightarrow> flushed x \<Longrightarrow> \<not> accepts s x"
    and closed_cong: "\<lbrakk>closed s; hs_layers s' = hs_layers s; hs_state s' = hs_state s\<rbrakk> \<Longrightarrow> closed s'"
    and closed_register: "closed s \<Longrightarrow> allowed (Ev_register l) \<Longrightarrow> closed (snd (hsspi_register l s))"
    and closed_unregister: "closed s \<Longrightarrow> closed (snd (hsspi_unregister l d s))"
    and closed_start: "closed s \<Longrightarrow> allowed Ev_start \<Longrightarrow> closed (hsspi_start s)"
    and closed_stop: "closed s \<Longrightarrow> closed (hsspi_stop d s)"
    and not_reused: "allowed (Ev_unregister l d) \<or> allowed (Ev_stop d) \<Longrightarrow> d \<noteq> c"
begin

definition clean :: "'b hsspi_work list \<Rightarrow> bool" where
  "clean ws \<longleftrightarrow> (\<forall>x \<in> set (tx_items ws). \<not> flushed x) \<and> HSSPI_WORK_COMPLETION c \<notin> set ws"

definition waiting :: "('l, 'b) sys_state \<Rightarrow> bool" where
  "waiting st = (case st of (s, t, n) \<Rightarrow>
     c \<notin> set (completes (hs_out s)) \<and>
     ((\<exists>ws1 ws2. hs_work_list s = ws1 @ HSSPI_WORK_COMPLETION c # ws2 \<and> clean ws2 \<and>
         HSSPI_WORK_COMPLETION c \<notin> set ws1 \<and> t \<noteq> Th_busy (Some (HSSPI_WORK_COMPLETION c))) \<or>
      t = Th_busy (Some (HSSPI_WORK_COMPLETION c)) \<and> clean (hs_work_list s)))"

definition flushed_out :: "('l, 'b) sys_state \<Rightarrow> bool" where
  "flushed_out st = (case st of (s, t, n) \<Rightarrow>
     clean (hs_work_list s) \<and> (\<forall>x \<in> set (pc_items t). \<not> flushed x) \<and>
     t \<noteq> Th_busy (Some (HSSPI_WORK_COMPLETION c)))"

definition phase :: "('l, 'b) sys_state \<Rightarrow> bool" where
  "phase st \<longleftrightarrow> closed (fst st) \<and> (waiting st \<or> flushed_out st)"

lemma clean_append: "clean (ws1 @ ws2) \<longleftrightarrow> clean ws1 \<and> clean ws2"
  by (auto simp: clean_def)

lemma tx_items_tx_work [simp]: "tx_items (map tx_work xs) = xs"
  by (induction xs) (auto simp: tx_work_def)

lemma clean_new: "closed s \<Longrightarrow> \<forall>x \<in> set new. accepts s x \<Longrightarrow> clean (map tx_work new)"
  using no_accept by (auto simp: clean_def tx_work_def)

text \<open>Appending clean work and changing nothing else that matters keeps the phase.\<close>

lemma phase_append:
  assumes ph: "phase (s, t, n)" and cl: "closed s'" and w: "hs_work_list s' = hs_work_list s @ ws"
    and ws: "clean ws" and o: "completes (hs_out s') = completes (hs_out s)"
  shows "phase (s', t, n')"
proof -
  consider "waiting (s, t, n)" | "flushed_out (s, t, n)" using ph by (auto simp: phase_def)
  then show ?thesis
  proof cases
    case 1
    then have "waiting (s', t, n')"
      using w ws o by (fastforce simp: waiting_def clean_append)
    then show ?thesis using cl by (simp add: phase_def)
  next
    case 2
    then have "flushed_out (s', t, n')" using w ws by (auto simp: flushed_out_def clean_append)
    then show ?thesis using cl by (simp add: phase_def)
  qed
qed

lemma clean_Nil [simp]: "clean []"
  by (simp add: clean_def)

lemma phase_grows:
  assumes ph: "phase (s, t, n)" and g: "grows s s'"
  shows "phase (s', t, n')"
proof -
  have cl: "closed s" using ph by (simp add: phase_def)
  obtain new where "hs_work_list s' = hs_work_list s @ map tx_work new" "\<forall>x \<in> set new. accepts s x"
    using g by (auto simp: grows_def)
  then show ?thesis
    using phase_append [OF ph, of s' "map tx_work new"] clean_new [OF cl] closed_cong [OF cl, of s'] g
    by (simp add: grows_def)
qed

lemma phase_take:
  assumes ph: "phase (s, Th_idle, n)" and tk: "get_work s = (hw, s')"
  shows "phase (s', Th_busy hw, n)"
proof -
  have cl: "closed s'"
    using ph tk by (auto simp: phase_def get_work_def split: list.splits intro: closed_cong)
  show ?thesis
  proof (cases "hs_work_list s")
    case Nil
    then show ?thesis
      using ph tk by (auto simp: phase_def waiting_def flushed_out_def get_work_def)
  next
    case (Cons w ws)
    then have s': "hw = Some w" "s' = s\<lparr>hs_work_list := ws\<rparr>" using tk by (auto simp: get_work_def)
    consider "waiting (s, Th_idle, n)" | "flushed_out (s, Th_idle, n)" using ph by (auto simp: phase_def)
    then show ?thesis
    proof cases
      case 1
      then obtain ws1 ws2 where d: "w # ws = ws1 @ HSSPI_WORK_COMPLETION c # ws2" "clean ws2"
        "HSSPI_WORK_COMPLETION c \<notin> set ws1" "c \<notin> set (completes (hs_out s))"
        by (auto simp: waiting_def Cons)
      have "waiting (s', Th_busy hw, n)"
        using d by (cases ws1) (auto simp: waiting_def s')
      then show ?thesis using cl by (simp add: phase_def)
    next
      case 2
      have "clean (w # ws)" using 2 by (simp add: flushed_out_def Cons)
      then have "flushed_out (s', Th_busy hw, n)"
        by (cases w) (auto simp: flushed_out_def s' clean_def)
      then show ?thesis using cl by (simp add: phase_def)
    qed
  qed
qed

lemma phase_work:
  assumes ph: "phase (s, Th_busy hw, n)" and wk: "thread_work ops e hw s n = Some (s', n')"
  shows "phase (s', Th_idle, n')"
proof (cases "\<exists>d. hw = Some (HSSPI_WORK_COMPLETION d)")
  case True
  then obtain d where hw: "hw = Some (HSSPI_WORK_COMPLETION d)" by blast
  have s': "s' = emit (Out_complete d) s" using wk by (simp add: hw thread_work_def)
  have cl: "closed s'" using ph by (auto simp: phase_def s' emit_def intro: closed_cong)
  have "waiting (s', Th_idle, n') \<or> flushed_out (s', Th_idle, n')"
    using ph by (auto simp: phase_def waiting_def flushed_out_def hw s' emit_def)
  then show ?thesis using cl by (simp add: phase_def)
next
  case False
  then have g: "grows s s'" using grows_work [OF wk] by blast
  have "phase (s', Th_busy hw, n')" by (rule phase_grows [OF ph g])
  then show ?thesis
    using False by (auto simp: phase_def waiting_def flushed_out_def)
qed

lemma phase_step:
  assumes "phase st" "allowed ev" "hs_step ops ev st st'"
  shows "phase st'"
  using assms(3)
proof cases
  case (send l b s t n)
  then show ?thesis using phase_grows grows_send assms(1) by blast
next
  case (register l s t n)
  then show ?thesis
    using phase_append [of s t n "snd (hsspi_register l s)" "[]"] assms(1,2) closed_register [of s l]
    by (auto simp: hsspi_register_def phase_def)
next
  case (unregister l d s t n)
  then have d: "d \<noteq> c" using not_reused assms(2) by blast
  then have "clean [HSSPI_WORK_COMPLETION d]" by (simp add: clean_def)
  moreover have "closed (snd (hsspi_unregister l d s))"
    using assms(1) unregister closed_unregister by (simp add: phase_def)
  ultimately show ?thesis
    using phase_append [of s t n "snd (hsspi_unregister l d s)" "[HSSPI_WORK_COMPLETION d]"]
      phase_append [of s t n "snd (hsspi_unregister l d s)" "[]"] assms(1) unregister
    by (auto simp: hsspi_unregister_def work_add_tail_def split: if_splits)
next
  case (start s t n)
  then show ?thesis
    using phase_append [of s t n "hsspi_start s" "[]"] assms(1,2) closed_start [of s]
    by (auto simp: hsspi_start_def phase_def)
next
  case (stop d s t n)
  then have d: "d \<noteq> c" using not_reused assms(2) by blast
  then have "clean [HSSPI_WORK_COMPLETION d]" by (simp add: clean_def)
  then show ?thesis
    using phase_append [of s t n "hsspi_stop d s" "[HSSPI_WORK_COMPLETION d]"] assms(1) stop
      closed_stop [of s d]
    by (auto simp: hsspi_stop_def work_add_tail_def phase_def)
next
  case (irq i s t n)
  then show ?thesis using phase_grows grows_step [OF xfer_step_irq [of NullPtr]] assms(1) by blast
next
  case (memory up h s t n)
  have "grows s (s\<lparr>hs_up := up, hs_heap := h\<rparr>)" by (rule grows_same) simp_all
  then show ?thesis using phase_grows assms(1) memory by blast
next
  case (take s hw s' n)
  then show ?thesis using phase_take assms(1) by blast
next
  case (work e hw s n s' n')
  then show ?thesis using phase_work assms(1) by blast
qed

lemma phase_run: "hs_run ops G es st st' \<Longrightarrow> \<forall>ev \<in> set es. allowed ev \<Longrightarrow> phase st \<Longrightarrow> phase st'"
  by (induction rule: hs_run.induct) (auto intro: phase_step)

lemma completed_flushed:
  "phase (s, t, n) \<Longrightarrow> c \<in> set (completes (hs_out s)) \<Longrightarrow>
   (\<forall>x \<in> set (pc_items t @ tx_items (hs_work_list s)). \<not> flushed x)"
  by (auto simp: phase_def waiting_def flushed_out_def clean_def)

end

end
