(* ===== verification/Uci_Core.thy ===== *)
theory Uci_Core
  imports Hsspi_Barrier Uci_Props
begin

text \<open>
  The UCI layer in the core.  A packet that was sent is given back to the thread that waits in
  \<open>uci_write\<close>, which frees it once it runs: until then the packet stays allocated.
\<close>

text \<open>The layer, and the packets whose writers have been completed, each with its status.\<close>

type_synonym uci_world = "uci_layer \<times> uci_packet list"

definition uci_ops :: "(uci_world, unit uci_packet_ext) ops_table" where
  "uci_ops lay =
     \<lparr>op_get = \<lambda>w n h. map_option (\<lambda>(b, u, h'). (b, (u, snd w), h')) (uci_get (fst w) n h),
      op_received = \<lambda>w b st h.
        map_option (\<lambda>(u, sends, h'). ((u, snd w), sends, h')) (uci_received_op (fst w) b st h),
      op_sent = \<lambda>w b st h. map_option (\<lambda>(p, c). ((fst w, snd w @ [p]), h)) (uci_sent b st)\<rparr>"

definition done_keys :: "uci_packet list \<Rightarrow> nat set" where
  "done_keys ps = (\<Union>p \<in> set ps. blk_keys p)"

definition done_ok :: "uci_packet list \<Rightarrow> kheap \<Rightarrow> bool" where
  "done_ok ps h \<longleftrightarrow> (\<forall>p \<in> set ps. \<exists>bs. block_holds h p bs) \<and> sorted_wrt (\<lambda>p q. blk_keys p \<inter> blk_keys q = {}) ps"

definition uci_world_inv :: "uci_world \<Rightarrow> kheap \<Rightarrow> bool" where
  "uci_world_inv w h \<longleftrightarrow> uci_inv (fst w) h \<and> done_ok (snd w) h \<and> uci_owns (fst w) \<inter> done_keys (snd w) = {}"

definition uci_world_owns :: "uci_world \<Rightarrow> nat set" where
  "uci_world_owns w = uci_owns (fst w) \<union> done_keys (snd w)"

text \<open>A writer sets \<open>write_done\<close> before it sends.\<close>

definition uci_tx_ok :: "hsspi_layer \<Rightarrow> uci_packet \<Rightarrow> bool" where
  "uci_tx_ok lay p \<longleftrightarrow> pk_write_done p \<noteq> None"

lemma done_Nil [simp]: "done_ok [] h" "done_keys [] = {}"
  by (simp_all add: done_ok_def done_keys_def)

lemma done_live: "done_ok ps h \<Longrightarrow> k \<in> done_keys ps \<Longrightarrow> hp_mem h k \<noteq> None"
  by (auto simp: done_ok_def done_keys_def block_holds_def blk_keys_def)

lemma done_frame:
  assumes "done_ok ps h" "\<And>k. k \<in> done_keys ps \<Longrightarrow> hp_mem h' k = hp_mem h k"
  shows "done_ok ps h'"
proof -
  have "\<exists>bs. block_holds h' p bs" if "p \<in> set ps" for p
  proof -
    obtain bs where "block_holds h p bs" using assms(1) \<open>p \<in> set ps\<close> by (auto simp: done_ok_def)
    moreover have "heap_bytes h' (blk_data p) = heap_bytes h (blk_data p)"
      using assms(2) that by (cases "blk_data p") (auto simp: done_keys_def blk_keys_def)
    ultimately show ?thesis by (auto simp: block_holds_def)
  qed
  then show ?thesis using assms(1) by (simp add: done_ok_def)
qed

lemma done_append:
  assumes "done_ok ps h" "block_holds h p bs" "blk_keys p \<inter> done_keys ps = {}" "blk_keys q = blk_keys p"
    "block_holds h q bs"
  shows "done_ok (ps @ [q]) h"
  using assms by (auto simp: done_ok_def done_keys_def sorted_wrt_append)

lemma uci_world_layer: "upper_layer uci_world_inv uci_world_owns (\<lambda>_ _. True) (op_get (uci_ops lay)) (op_received (uci_ops lay))"
proof (unfold_locales, goal_cases)
  case (1 w h)
  then show ?case using uci_ul.inv_heap_ok [of "fst w" h] by (simp add: uci_world_inv_def)
next
  case (2 w h k)
  then show ?case using uci_ul.inv_live [of "fst w" h k] done_live [of "snd w" h k]
    by (auto simp: uci_world_inv_def uci_world_owns_def)
next
  case (3 w h h')
  have "uci_inv (fst w) h'"
    by (rule uci_ul.inv_frame) (use 3 in \<open>auto simp: uci_world_inv_def uci_world_owns_def\<close>)
  moreover have "done_ok (snd w) h'"
    by (rule done_frame) (use 3 in \<open>auto simp: uci_world_inv_def uci_world_owns_def\<close>)
  ultimately show ?case using 3(1) by (simp add: uci_world_inv_def)
next
  case (4 w h n)
  have inv: "uci_inv (fst w) h" using 4(1) by (simp add: uci_world_inv_def)
  obtain b h' where g: "uci_get (fst w) n h = Some (b, fst w, h')" "uci_inv (fst w) h'" "frame {} h h'"
    "case b of None \<Rightarrow> True | Some blk \<Rightarrow> fresh_block h h' n blk"
    using uci_ul.get_ok [OF inv 4(2)] by blast
  have "done_ok (snd w) h'"
  proof (rule done_frame)
    show "done_ok (snd w) h" using 4(1) by (simp add: uci_world_inv_def)
    show "hp_mem h' k = hp_mem h k" if "k \<in> done_keys (snd w)" for k
      using g(3) done_live [OF \<open>done_ok (snd w) h\<close> that] uci_ul.inv_heap_ok [OF inv]
      by (auto simp: frame_def dest: heap_ok_live)
  qed
  then show ?case using g 4(1) by (auto simp: uci_ops_def uci_world_inv_def)
next
  case (5 w h p bs status)
  have inv: "uci_inv (fst w) h" and d: "done_ok (snd w) h" and sep: "uci_owns (fst w) \<inter> done_keys (snd w) = {}"
    using 5(1) by (simp_all add: uci_world_inv_def)
  have p: "\<not> blk_ptr_in p (uci_owns (fst w))" "blk_keys p \<inter> done_keys (snd w) = {}"
    using 5(4) by (auto simp: blk_ptr_in_def blk_keys_def uci_world_owns_def)
  obtain u sends h' where r: "uci_received_op (fst w) p status h = Some (u, sends, h')" "uci_inv u h'"
    "frame (uci_owns (fst w) \<union> blk_keys p) h h'" "uci_owns u \<subseteq> uci_owns (fst w) \<union> blk_keys p \<union> {k. hp_next h \<le> k}"
    using uci_ul.received_ok [OF inv 5(2,3) p(1)] by blast
  have below: "k < hp_next h" if "k \<in> done_keys (snd w)" for k
    using done_live [OF d that] uci_ul.inv_heap_ok [OF inv] by (auto dest: heap_ok_live)
  have "done_ok (snd w) h'"
    by (rule done_frame [OF d]) (use r(3) below sep p(2) in \<open>auto simp: frame_def\<close>)
  moreover have "uci_owns u \<inter> done_keys (snd w) = {}" using r(4) below sep p(2) by fastforce
  ultimately show ?case
    using r by (auto simp: uci_ops_def uci_world_inv_def uci_world_owns_def intro: frame_mono)
qed

interpretation uci_core: hsspi_layers uci_world_inv uci_world_owns "\<lambda>_ _ _. True" uci_tx_ok uci_ops
proof (intro hsspi_layers.intro uci_world_layer, goal_cases)
  case (1 w h blk bs status lay w' sends h')
  then show ?case by (auto simp: uci_ops_def uci_received_op_def sends_ok_def)
next
  case (2 w h b bs lay status)
  then obtain c where c: "pk_write_done b = Some c" by (auto simp: uci_tx_ok_def)
  let ?q = "b\<lparr>pk_status := status\<rparr>"
  have k: "blk_keys b \<inter> uci_world_owns w = {}" using 2(3) by (auto simp: blk_ptr_in_def blk_keys_def)
  have "done_ok (snd w @ [?q]) h"
    by (rule done_append [of _ _ b bs])
      (use 2(1,2) k in \<open>auto simp: uci_world_inv_def uci_world_owns_def block_holds_def blk_keys_def\<close>)
  then have "uci_world_inv (fst w, snd w @ [?q]) h"
    using 2(1) k by (auto simp: uci_world_inv_def uci_world_owns_def done_keys_def blk_keys_def)
  then show ?case using c
    by (auto simp: uci_ops_def uci_sent_def uci_world_owns_def done_keys_def blk_keys_def)
qed

end
