(* ===== verification/Hsspi_Props.thy ===== *)
theory Hsspi_Props
  imports Uci_Core
begin

text \<open>The properties of the core, with the UCI layer in the witnesses.\<close>

section \<open>Barriers for hsspi_unregister and hsspi_stop\<close>

fun uses_completion :: "nat \<Rightarrow> ('l, 'b) hs_event \<Rightarrow> bool" where
  "uses_completion c (Ev_unregister l d) = (d = c)"
| "uses_completion c (Ev_stop d) = (d = c)"
| "uses_completion c _ = False"

lemma update_other: "ls ! j \<noteq> Some lay \<Longrightarrow> x \<noteq> Some lay \<Longrightarrow> ls[i := x] ! j \<noteq> Some lay"
  by (cases "i = j"; cases "j < length ls") (auto simp: not_less list_update_beyond)

interpretation unregister_barrier: barrier
  "\<lambda>x. snd x = lay" "\<lambda>s. hs_layers s ! lay_id lay \<noteq> Some lay"
  "\<lambda>ev. ev \<noteq> Ev_register lay \<and> \<not> uses_completion c ev" c
  for lay c
  by unfold_locales
    (auto simp: accepts_def hsspi_start_def hsspi_stop_def hsspi_register_def hsspi_unregister_def
      work_add_tail_def update_other)

interpretation stop_barrier: barrier
  "\<lambda>_. True" "\<lambda>s. hs_state s \<noteq> HSSPI_RUNNING" "\<lambda>ev. ev \<noteq> Ev_start \<and> \<not> uses_completion c ev" c
  for c
  by unfold_locales (auto simp: accepts_def hsspi_start_def hsspi_stop_def hsspi_register_def
      hsspi_unregister_def work_add_tail_def)

section \<open>Passes of the thread\<close>

fun run_passes ::
  "('l, 'b) ops_table \<Rightarrow> nat \<Rightarrow> (nat \<Rightarrow> pass_env) \<Rightarrow> ('l, 'b) hsspi \<Rightarrow> nat \<Rightarrow> (('l, 'b) hsspi \<times> nat) option"
where
  "run_passes ops 0 es s n = Some (s, n)"
| "run_passes ops (Suc k) es s n =
     (case hsspi_thread_pass ops (es 0) s n of
        Some (Th_run s' n') \<Rightarrow> run_passes ops k (\<lambda>i. es (Suc i)) s' n'
      | _ \<Rightarrow> None)"

definition not_stopping :: "(nat \<Rightarrow> pass_env) \<Rightarrow> bool" where
  "not_stopping es \<longleftrightarrow> (\<forall>i. \<not> pe_should_stop (es i))"

context hsspi_layers begin

lemma pass_ok:
  assumes inv: "sys_inv s []" and w: "hs_work_list s = w # ws" and e: "\<not> pe_should_stop e" "msgs_ok UNIV (pe_second e)"
  shows "\<exists>s' n' new. hsspi_thread_pass ops e s n = Some (Th_run s' n') \<and> sys_inv s' [] \<and>
    hs_work_list s' = ws @ new \<and>
    completes (hs_out s') = completes (hs_out s) @ (case w of HSSPI_WORK_COMPLETION c \<Rightarrow> [c] | _ \<Rightarrow> [])"
proof -
  let ?s = "s\<lparr>hs_work_list := ws\<rparr>"
  have t: "get_work s = (Some w, ?s)" by (simp add: get_work_def w)
  have i: "sys_inv ?s (work_items (Some w))" by (rule step_take [OF inv t])
  obtain s' n' where r: "thread_work ops e (Some w) ?s n = Some (s', n')" "sys_inv s' []"
    using thread_work_ok [OF i msgs_ok_mono [OF e(2) subset_UNIV]] by blast
  have p: "hsspi_thread_pass ops e s n = Some (Th_run s' n')"
    using e(1) t r by (simp add: hsspi_thread_pass_def is_txrx_waiting_def w)
  show ?thesis
  proof (cases w)
    case (HSSPI_WORK_COMPLETION c)
    then have "s' = emit (Out_complete c) ?s" using r by (simp add: thread_work_def)
    then show ?thesis using p r HSSPI_WORK_COMPLETION by (auto simp: emit_def)
  next
    case (HSSPI_WORK_TX b lay)
    then have "grows ?s s'" using grows_work [OF r(1)] by blast
    then show ?thesis using p r HSSPI_WORK_TX by (auto simp: grows_def)
  qed
qed

lemma completion_reached:
  assumes "sys_inv s []" "hs_work_list s = ws1 @ HSSPI_WORK_COMPLETION c # ws2" "not_stopping es"
    "\<forall>i. msgs_ok UNIV (pe_second (es i))"
  shows "\<exists>s' n'. run_passes ops (Suc (length ws1)) es s n = Some (s', n') \<and> c \<in> set (completes (hs_out s'))"
  using assms
proof (induction ws1 arbitrary: s n es ws2)
  case Nil
  then show ?case
    using pass_ok [of s "HSSPI_WORK_COMPLETION c" ws2 "es 0" n] by (auto simp: not_stopping_def)
next
  case (Cons w ws1)
  obtain s' n' new where p: "hsspi_thread_pass ops (es 0) s n = Some (Th_run s' n')" and i: "sys_inv s' []"
    and l: "hs_work_list s' = (ws1 @ HSSPI_WORK_COMPLETION c # ws2) @ new"
    using pass_ok [of s w "ws1 @ HSSPI_WORK_COMPLETION c # ws2" "es 0" n] Cons.prems
    by (auto simp: not_stopping_def)
  have ns: "not_stopping (\<lambda>i. es (Suc i))" using Cons.prems by (simp add: not_stopping_def)
  obtain s'' n'' where "run_passes ops (Suc (length ws1)) (\<lambda>i. es (Suc i)) s' n' = Some (s'', n'')"
    "c \<in> set (completes (hs_out s''))"
    using Cons.IH [OF i, of "ws2 @ new" "\<lambda>i. es (Suc i)" n'] l ns Cons.prems(4) by auto
  then show ?case using p by auto
qed

end

section \<open>Inputs for the witnesses\<close>

text \<open>A firmware that is ready and answers every transfer with the header \<open>soc\<close> and bytes \<open>bs\<close>.\<close>

definition ready_attempt :: "stc_header \<Rightarrow> byte list \<Rightarrow> attempt" where
  "ready_attempt soc bs = \<lparr>at_irqs_before = [], at_ss_rdy = True, at_exton = True, at_irqs_wait = [],
     at_signal = False, at_ss_rdy_after = True, at_spi = (\<lambda>_ _. (0, soc, bs)), at_irqs_xfer = []\<rparr>"

definition ready_pass :: pass_env where
  "ready_pass = \<lparr>pe_signal = False, pe_should_stop = False,
     pe_first = (\<lambda>_. ready_attempt \<lparr>stc_flags = 0x20, stc_ul = 2, stc_length = 4\<rparr> []),
     pe_second = (\<lambda>_. ready_attempt \<lparr>stc_flags = 0x60, stc_ul = 2, stc_length = 4\<rparr> [0x20, 0, 0, 0])\<rparr>"

definition init_state :: "(uci_world, unit uci_packet_ext) hsspi" where
  "init_state = snd (hsspi_init 0 empty_heap (uci_layer_init, []))"

lemma init_facts:
  "uci_world_inv (uci_layer_init, []) empty_heap" "table_ok (hs_layers init_state)"
  "hs_out init_state = []" "hs_work_list init_state = []" "hs_layers init_state = replicate 6 None"
  "hs_state init_state = HSSPI_STOPPED"
  by (simp_all add: uci_world_inv_def init_state_def hsspi_init_def table_ok_def UL_MAX_IDX_def)

definition started_state :: "(uci_world, unit uci_packet_ext) hsspi" where
  "started_state = deliver_irq IRQ_SS_IRQ (hsspi_start (snd (hsspi_register uci_lay init_state)))"

lemma started_run:
  "hs_run uci_ops uci_core.caller_ok [Ev_register uci_lay, Ev_start, Ev_irq IRQ_SS_IRQ]
     (init_state, Th_idle, 0) (started_state, Th_idle, 0)"
proof -
  have 1: "hs_run uci_ops uci_core.caller_ok ([] @ [Ev_register uci_lay]) (init_state, Th_idle, 0)
      (snd (hsspi_register uci_lay init_state), Th_idle, 0)"
    by (rule run_step [OF run_nil _ hs_step.register]) (simp add: uci_core.caller_ok_def)
  have 2: "hs_run uci_ops uci_core.caller_ok (([] @ [Ev_register uci_lay]) @ [Ev_start])
      (init_state, Th_idle, 0) (hsspi_start (snd (hsspi_register uci_lay init_state)), Th_idle, 0)"
    by (rule run_step [OF 1 _ hs_step.start]) (simp add: uci_core.caller_ok_def)
  have "hs_run uci_ops uci_core.caller_ok ((([] @ [Ev_register uci_lay]) @ [Ev_start]) @ [Ev_irq IRQ_SS_IRQ])
      (init_state, Th_idle, 0) (started_state, Th_idle, 0)"
    unfolding started_state_def
    by (rule run_step [OF 2 _ hs_step.irq]) (simp add: uci_core.caller_ok_def)
  then show ?thesis by simp
qed

section \<open>Properties\<close>

text \<open>
  Memory safety of the core for every layer implementation that keeps the contract, every
  interleaving of calls, interrupts and thread steps, and every answer of the firmware and the SPI
  controller: the layers' invariant holds in every reachable state, every block waiting to be sent
  is intact, and the thread's work does not fault.
\<close>

lemma hsspi_core_safe:
  assumes "hsspi_layers linv owns msg_ok tx_ok ops" "linv up h"
    and "hs_run ops (hsspi_layers.caller_ok linv owns msg_ok tx_ok ops) es
           (snd (hsspi_init 0 h up), Th_idle, 0) (s, t, n)"
    and "\<forall>hw. t = Th_busy hw \<longrightarrow> hsspi_layers.msgs_ok msg_ok (ups_at_rx ops hw (hs_up s)) (pe_second e)"
  shows "linv (hs_up s) (hs_heap s) \<and>
    (\<forall>x \<in> set (pc_items t @ tx_items (hs_work_list s)). \<exists>bs. block_holds (hs_heap s) (fst x) bs) \<and>
    (\<forall>hw. t = Th_busy hw \<longrightarrow> thread_work ops e hw s n \<noteq> None)"
proof -
  note L = assms(1)
  have "hsspi_layers.sys_ok linv owns tx_ok (s, t, n)"
    by (rule hsspi_layers.hs_run_ok [OF L assms(3) hsspi_layers.sys_ok_init [OF L, OF assms(2)]])
  then have i: "hsspi_layers.sys_inv linv owns tx_ok s (pc_items t)"
    by (simp add: hsspi_layers.sys_ok_def [OF L])
  have "thread_work ops e hw s n \<noteq> None" if "t = Th_busy hw" for hw
    using hsspi_layers.thread_work_ok [OF L, of s hw e n] assms(4) i that
    by (auto simp: hsspi_layers.pc_items_busy [OF L])
  with i show ?thesis
    by (fastforce simp: hsspi_layers.sys_inv_def [OF L] hsspi_layers.tx_mem_def [OF L])
qed

text \<open>
  Blocks accepted by \<open>hsspi_send\<close> are handed to the layer's \<open>sent\<close> operation in the order
  of acceptance, each exactly once: those accepted are those sent, the one being sent, and those
  still in the work list.
\<close>

lemma hsspi_send_order:
  assumes "hsspi_layers linv owns msg_ok tx_ok ops" "linv up h"
    and "hs_run ops (hsspi_layers.caller_ok linv owns msg_ok tx_ok ops) es
           (snd (hsspi_init 0 h up), Th_idle, 0) (s, t, n)"
  shows "queued_of (hs_out s) = sent_of (hs_out s) @ pc_items t @ tx_items (hs_work_list s)"
proof -
  note L = assms(1)
  have "hsspi_layers.sys_ok linv owns tx_ok (s, t, n)"
    by (rule hsspi_layers.hs_run_ok [OF L assms(3) hsspi_layers.sys_ok_init [OF L, OF assms(2)]])
  then show ?thesis
    by (simp add: hsspi_layers.sys_ok_def [OF L] hsspi_layers.sys_inv_def [OF L] fifo_def)
qed

text \<open>
  Claim C24. The SS_IRQ line: in every reachable state it is disabled exactly once if the flag SS_IRQ
  is set and enabled otherwise, so \<open>odw_cleared\<close> never enables it without a matching disable and
  never leaves it disabled with the flag clear; and fewer than six failures are counted.
\<close>

theorem hsspi_irq_line_balanced:
  assumes "hsspi_layers linv owns msg_ok tx_ok ops" "linv up h"
    and "hs_run ops (hsspi_layers.caller_ok linv owns msg_ok tx_ok ops) es
           (snd (hsspi_init 0 h up), Th_idle, 0) (s, t, n)"
  shows "hs_irq_depth s = (if hs_ss_irq s then 1 else 0) \<and> n \<le> MAX_SUCCESSIVE_ERRORS"
proof -
  note L = assms(1)
  have "hsspi_layers.sys_ok linv owns tx_ok (s, t, n)"
    by (rule hsspi_layers.hs_run_ok [OF L assms(3) hsspi_layers.sys_ok_init [OF L, OF assms(2)]])
  then show ?thesis
    by (simp add: hsspi_layers.sys_ok_def [OF L] hsspi_layers.sys_inv_def [OF L] irq_balanced_def)
qed

theorem hsspi_irq_line_balanced_witness:
  "hs_irq_depth started_state = (if hs_ss_irq started_state then 1 else 0) \<and> (0 :: nat) \<le> MAX_SUCCESSIVE_ERRORS"
  by (rule hsspi_irq_line_balanced [OF uci_core.hsspi_layers_axioms, OF init_facts(1), OF started_run [unfolded init_state_def]])

text \<open>
  Claim C9. After \<open>hsspi_unregister\<close> has been completed, no work of the layer is left in the list or
  in the hands of the thread, whatever happened in between, unless the layer was registered again.
  This needs no assumption on the layers.
\<close>

theorem hsspi_unregister_flushes:
  assumes "table_ok (hs_layers s)" "hsspi_unregister lay c s = (0, s1)"
    and "c \<notin> set (completes (hs_out s))" "HSSPI_WORK_COMPLETION c \<notin> set (hs_work_list s)"
    and "t \<noteq> Th_busy (Some (HSSPI_WORK_COMPLETION c))"
    and "hs_run ops G es (s1, t, n) (s2, t2, n2)"
    and "\<forall>ev \<in> set es. ev \<noteq> Ev_register lay \<and> \<not> uses_completion c ev"
    and "c \<in> set (completes (hs_out s2))"
  shows "\<forall>x \<in> set (pc_items t2 @ tx_items (hs_work_list s2)). snd x \<noteq> lay"
proof -
  have len: "length (hs_layers s) = UL_MAX_IDX"
    using assms(1) unfolding table_ok_def by (rule conjunct1)
  have s1: "s1 = work_add_tail (HSSPI_WORK_COMPLETION c) (s\<lparr>hs_layers := (hs_layers s)[lay_id lay := None]\<rparr>)"
    and id: "lay_id lay < length (hs_layers s)"
    using assms(2) len
    by (simp_all add: hsspi_unregister_def layer_id_is_valid_def split: if_splits)
  have "unregister_barrier.waiting lay c (s1, t, n)"
    unfolding unregister_barrier.waiting_def prod.case
    using assms(3-5)
    by (intro conjI disjI1 exI [of _ "hs_work_list s"] exI [of _ "[]"])
      (simp_all add: s1 work_add_tail_def unregister_barrier.clean_def)
  then have "unregister_barrier.phase lay c (s1, t, n)"
    using id by (simp add: unregister_barrier.phase_def s1 work_add_tail_def)
  then have "unregister_barrier.phase lay c (s2, t2, n2)"
    using unregister_barrier.phase_run [OF assms(6,7)] by blast
  then show ?thesis using unregister_barrier.completed_flushed assms(8) by blast
qed

definition registered_state :: "(uci_world, unit uci_packet_ext) hsspi" where
  "registered_state = hsspi_start (snd (hsspi_register uci_lay init_state))"

definition unregistered_state :: "(uci_world, unit uci_packet_ext) hsspi" where
  "unregistered_state = snd (hsspi_unregister uci_lay 7 registered_state)"

lemma registered_facts:
  "table_ok (hs_layers registered_state)" "hsspi_unregister uci_lay 7 registered_state = (0, unregistered_state)"
  "hs_out registered_state = []" "hs_work_list registered_state = []"
  "hs_work_list unregistered_state = [HSSPI_WORK_COMPLETION 7]" "hs_out unregistered_state = []"
  by (auto simp: unregistered_state_def registered_state_def hsspi_start_def hsspi_register_def init_facts
      hsspi_unregister_def layer_id_is_valid_def uci_lay_def UL_UCI_APP_def UL_MAX_IDX_def table_ok_def
      work_add_tail_def nth_list_update split: if_splits)

definition flushed_state :: "(uci_world, unit uci_packet_ext) hsspi" where
  "flushed_state = emit (Out_complete 7) (unregistered_state\<lparr>hs_work_list := []\<rparr>)"

lemma flushed_run:
  "hs_run uci_ops (\<lambda>_ _. True) [Ev_take, Ev_work ready_pass] (unregistered_state, Th_idle, 0)
     (flushed_state, Th_idle, 0)"
proof -
  have t: "is_txrx_waiting unregistered_state"
    "get_work unregistered_state = (Some (HSSPI_WORK_COMPLETION 7), unregistered_state\<lparr>hs_work_list := []\<rparr>)"
    by (simp_all add: is_txrx_waiting_def get_work_def registered_facts)
  have w: "thread_work uci_ops ready_pass (Some (HSSPI_WORK_COMPLETION 7))
      (unregistered_state\<lparr>hs_work_list := []\<rparr>) 0 = Some (flushed_state, 0)"
    by (simp add: thread_work_def flushed_state_def)
  have 1: "hs_run uci_ops (\<lambda>_ _. True) ([] @ [Ev_take]) (unregistered_state, Th_idle, 0)
      (unregistered_state\<lparr>hs_work_list := []\<rparr>, Th_busy (Some (HSSPI_WORK_COMPLETION 7)), 0)"
    by (rule run_step [OF run_nil _ hs_step.take [OF t]]) simp
  have "hs_run uci_ops (\<lambda>_ _. True) (([] @ [Ev_take]) @ [Ev_work ready_pass]) (unregistered_state, Th_idle, 0)
      (flushed_state, Th_idle, 0)"
    by (rule run_step [OF 1 _ hs_step.work [OF w]]) simp
  then show ?thesis by simp
qed

theorem hsspi_unregister_flushes_witness:
  "uci_lay \<notin> snd ` set (pc_items Th_idle @ tx_items (hs_work_list flushed_state))"
  using hsspi_unregister_flushes [OF registered_facts(1,2) _ _ _ flushed_run]
  by (auto simp: registered_facts flushed_state_def emit_def)

text \<open>
  After \<open>hsspi_stop\<close> has been completed the work list holds no block and the thread sends
  none, until \<open>hsspi_start\<close>.
\<close>

lemma hsspi_stop_flushes:
  assumes "c \<notin> set (completes (hs_out s))" "HSSPI_WORK_COMPLETION c \<notin> set (hs_work_list s)"
    and "t \<noteq> Th_busy (Some (HSSPI_WORK_COMPLETION c))"
    and "hs_run ops G es (hsspi_stop c s, t, n) (s2, t2, n2)"
    and "\<forall>ev \<in> set es. ev \<noteq> Ev_start \<and> \<not> uses_completion c ev"
    and "c \<in> set (completes (hs_out s2))"
  shows "pc_items t2 = [] \<and> tx_items (hs_work_list s2) = []"
proof -
  have "stop_barrier.waiting c (hsspi_stop c s, t, n)"
    unfolding stop_barrier.waiting_def prod.case
    using assms(1-3)
    by (intro conjI disjI1 exI [of _ "hs_work_list s"] exI [of _ "[]"])
      (simp_all add: hsspi_stop_def work_add_tail_def stop_barrier.clean_def)
  then have "stop_barrier.phase c (hsspi_stop c s, t, n)"
    by (simp add: stop_barrier.phase_def hsspi_stop_def work_add_tail_def)
  then have "stop_barrier.phase c (s2, t2, n2)" using stop_barrier.phase_run [OF assms(4,5)] by blast
  then have e: "x \<notin> set (pc_items t2 @ tx_items (hs_work_list s2))" for x
    using stop_barrier.completed_flushed [of c s2 t2 n2] assms(6) by blast
  have "xs = []" if "\<And>x. x \<notin> set xs" for xs :: "'c list"
    using that by (cases xs) auto
  from this [OF e] show ?thesis by simp
qed

text \<open>
  Claim C20. \<open>hsspi_unregister\<close> and \<open>hsspi_stop\<close> return: from a reachable state with the caller's
  completion at position k of the work list, k + 1 passes of the thread complete it, whatever the
  firmware and the SPI controller do.
\<close>

theorem hsspi_completion_reached:
  assumes "hsspi_layers linv owns msg_ok tx_ok ops" "linv up h"
    and "hs_run ops (hsspi_layers.caller_ok linv owns msg_ok tx_ok ops) es
           (snd (hsspi_init 0 h up), Th_idle, 0) (s, Th_idle, n)"
    and "hs_work_list s = ws1 @ HSSPI_WORK_COMPLETION c # ws2" "not_stopping env"
    and "\<forall>i. hsspi_layers.msgs_ok msg_ok UNIV (pe_second (env i))"
  shows "\<exists>s' n'. run_passes ops (Suc (length ws1)) env s n = Some (s', n') \<and>
    c \<in> set (completes (hs_out s'))"
proof -
  note L = assms(1)
  have "hsspi_layers.sys_ok linv owns tx_ok (s, Th_idle, n)"
    by (rule hsspi_layers.hs_run_ok [OF L assms(3) hsspi_layers.sys_ok_init [OF L, OF assms(2)]])
  then have "hsspi_layers.sys_inv linv owns tx_ok s []"
    by (simp add: hsspi_layers.sys_ok_def [OF L])
  from hsspi_layers.completion_reached [OF L this assms(4-6)] show ?thesis .
qed

lemma stopping_run:
  "hs_run uci_ops uci_core.caller_ok [Ev_stop 9] (init_state, Th_idle, 0) (hsspi_stop 9 init_state, Th_idle, 0)"
proof -
  have "hs_run uci_ops uci_core.caller_ok ([] @ [Ev_stop 9]) (init_state, Th_idle, 0)
      (hsspi_stop 9 init_state, Th_idle, 0)"
    by (rule run_step [OF run_nil _ hs_step.stop]) (simp add: uci_core.caller_ok_def)
  then show ?thesis by simp
qed

theorem hsspi_completion_reached_witness:
  "\<exists>s' n'. run_passes uci_ops (Suc (length ([] :: (unit uci_packet_ext) hsspi_work list))) (\<lambda>_. ready_pass)
     (hsspi_stop 9 init_state) 0 = Some (s', n') \<and> 9 \<in> set (completes (hs_out s'))"
  by (rule hsspi_completion_reached [OF uci_core.hsspi_layers_axioms, OF init_facts(1),
        OF stopping_run [unfolded init_state_def], folded init_state_def])
    (simp_all add: hsspi_stop_def work_add_tail_def init_facts not_stopping_def ready_pass_def
      uci_core.msgs_ok_def)

text \<open>
  Claim C21. \<open>spi_xfer\<close> makes at most five transfers, never touches memory outside the two buffers,
  and leaves the work list, the layers and the host header alone.  It returns 0 only if one of the
  attempts was answered without error by a firmware that set RDY and none of the four low flags,
  and then the received header and bytes are those of that answer.
\<close>

theorem spi_xfer_contract:
  assumes "buf_ok (hs_heap s) tx n" "buf_ok (hs_heap s) rx n" "tx \<noteq> rx \<or> tx = NullPtr"
  shows "\<exists>ret s' outs. spi_xfer env tx rx n s = Some (ret, s') \<and>
    hs_out s' = hs_out s @ outs \<and> length (filter is_xfer outs) \<le> 5 \<and>
    same_core s s' \<and> heap_fill rx (hs_heap s) (hs_heap s') \<and> \<not> hs_waiting_ss_rdy s' \<and>
    (ret = 0 \<longrightarrow>
       stc_flags (hs_soc s') AND STC_SOC_RDY \<noteq> 0 \<and> stc_flags (hs_soc s') AND 0x0f = 0 \<and>
       (\<exists>i < 5. \<exists>bs. at_spi (env i) (hs_host s) (tx_bytes tx s) = (0, hs_soc s', bs) \<and>
          (rx \<noteq> NullPtr \<longrightarrow> heap_bytes (hs_heap s') rx = Some (fit n bs))))"
  using spi_xfer_ok [OF assms, of env] unfolding xfer_step_def xfer_success_def soc_not_ready_def
  by blast

definition fill_state :: "(uci_world, unit uci_packet_ext) hsspi" where
  "fill_state = init_state\<lparr>hs_heap := two_packet_heap\<rparr>"

theorem spi_xfer_contract_witness:
  "\<exists>ret s' outs. spi_xfer (pe_second ready_pass) NullPtr (Ptr 0) 9 fill_state = Some (ret, s') \<and>
    hs_out s' = hs_out fill_state @ outs \<and> length (filter is_xfer outs) \<le> 5 \<and>
    same_core fill_state s' \<and> heap_fill (Ptr 0) (hs_heap fill_state) (hs_heap s') \<and>
    \<not> hs_waiting_ss_rdy s' \<and>
    (ret = 0 \<longrightarrow>
       stc_flags (hs_soc s') AND STC_SOC_RDY \<noteq> 0 \<and> stc_flags (hs_soc s') AND 0x0f = 0 \<and>
       (\<exists>i < 5. \<exists>bs. at_spi (pe_second ready_pass i) (hs_host fill_state) (tx_bytes NullPtr fill_state)
            = (0, hs_soc s', bs) \<and>
          (Ptr 0 \<noteq> NullPtr \<longrightarrow> heap_bytes (hs_heap s') (Ptr 0) = Some (fit 9 bs))))"
  by (rule spi_xfer_contract) (simp_all add: buf_ok_def fill_state_def two_packet_heap_def)

definition count_all :: "int list \<Rightarrow> ('l, 'b) hsspi \<times> nat \<Rightarrow> ('l, 'b) hsspi \<times> nat" where
  "count_all rets sn = fold (\<lambda>ret (s, n). count_error ret n s) rets sn"

fun resets :: "'b hsspi_out list \<Rightarrow> nat" where
  "resets [] = 0"
| "resets (Out_reset_qm35 # os) = Suc (resets os)"
| "resets (_ # os) = resets os"

lemma resets_append [simp]: "resets (xs @ ys) = resets xs + resets ys"
  by (induction xs rule: resets.induct) simp_all

lemma count_all_failures:
  "\<forall>ret \<in> set rets. ret \<noteq> 0 \<Longrightarrow> n \<le> MAX_SUCCESSIVE_ERRORS \<Longrightarrow>
   snd (count_all rets (s, n)) = (n + length rets) mod 6 \<and>
   resets (hs_out (fst (count_all rets (s, n)))) = resets (hs_out s) + (n + length rets) div 6"
proof (induction rets arbitrary: s n)
  case Nil
  then show ?case by (simp add: count_all_def MAX_SUCCESSIVE_ERRORS_def)
next
  case (Cons ret rets)
  show ?case
  proof (cases "n = 5")
    case True
    then have "count_error ret n s = (emit Out_reset_qm35 s, 0)"
      using Cons.prems by (simp add: count_error_def MAX_SUCCESSIVE_ERRORS_def)
    with Cons.IH [of 0 "emit Out_reset_qm35 s"] Cons.prems True show ?thesis
      by (simp add: count_all_def emit_def MAX_SUCCESSIVE_ERRORS_def)
  next
    case False
    then have "count_error ret n s = (s, Suc n)" "Suc n \<le> MAX_SUCCESSIVE_ERRORS"
      using Cons.prems by (simp_all add: count_error_def MAX_SUCCESSIVE_ERRORS_def)
    with Cons.IH [of "Suc n" s] Cons.prems show ?thesis by (simp add: count_all_def)
  qed
qed

text \<open>
  Error recovery: after k failed transfers in a row the QM35 has been reset k div 6 times
  and k mod 6 failures are counted; one success clears the count.
\<close>

lemma hsspi_error_recovery:
  assumes "\<forall>ret \<in> set rets. ret \<noteq> 0"
  shows "resets (hs_out (fst (count_all rets (s, 0)))) = resets (hs_out s) + length rets div 6 \<and>
    snd (count_all rets (s, 0)) = length rets mod 6 \<and> snd (count_all (rets @ [0]) (s, 0)) = 0"
proof -
  obtain s' n' where "count_all rets (s, 0) = (s', n')" by (cases "count_all rets (s, 0)")
  then have "snd (count_all (rets @ [0]) (s, 0)) = 0"
    by (simp add: count_all_def count_error_def)
  then show ?thesis using count_all_failures [OF assms, of 0 s] by simp
qed

text \<open>
  The result of every call of the core's interface: \<open>hsspi_send\<close> queues the block exactly
  when it returns 0, which needs a running core and a registered layer; \<open>hsspi_register\<close> occupies a
  free slot of the table or changes nothing; \<open>hsspi_deinit\<close> refuses while the core runs or a layer
  is registered.
\<close>

lemma hsspi_call_results:
  assumes "hsspi_send l b s = (rc, s')" "hsspi_register lay s = (rc2, s2)" "table_ok (hs_layers s)"
  shows "(rc = 0 \<longrightarrow> (\<exists>la bl. l = Some la \<and> b = Some bl \<and> accepts s (bl, la) \<and>
            hs_work_list s' = hs_work_list s @ [HSSPI_WORK_TX bl la])) \<and>
    (rc \<noteq> 0 \<longrightarrow> hs_work_list s' = hs_work_list s \<and> rc \<in> {- EINVAL, - ENOMEM, - EAGAIN} \<and>
       (rc = - EAGAIN \<longrightarrow> hs_state s \<noteq> HSSPI_RUNNING)) \<and>
    (rc2 = 0 \<longleftrightarrow> lay_id lay < UL_MAX_IDX \<and> hs_layers s ! lay_id lay = None) \<and>
    (rc2 = 0 \<longrightarrow> hs_layers s2 ! lay_id lay = Some lay \<and> table_ok (hs_layers s2)) \<and>
    (rc2 \<noteq> 0 \<longrightarrow> s2 = s \<and> rc2 \<in> {- EINVAL, - EBUSY}) \<and>
    (hsspi_deinit s = 0 \<longleftrightarrow> hs_state s \<noteq> HSSPI_RUNNING \<and> (\<forall>x \<in> set (hs_layers s). x = None))"
proof (intro conjI)
  have len: "length (hs_layers s) = UL_MAX_IDX"
    using assms(3) unfolding table_ok_def by (rule conjunct1)
  show "rc = 0 \<longrightarrow> (\<exists>la bl. l = Some la \<and> b = Some bl \<and> accepts s (bl, la) \<and>
            hs_work_list s' = hs_work_list s @ [HSSPI_WORK_TX bl la])"
    and "rc \<noteq> 0 \<longrightarrow> hs_work_list s' = hs_work_list s \<and> rc \<in> {- EINVAL, - ENOMEM, - EAGAIN} \<and>
       (rc = - EAGAIN \<longrightarrow> hs_state s \<noteq> HSSPI_RUNNING)"
    using assms(1)
    by (auto simp: hsspi_send_def accepts_def layer_id_is_valid_def work_add_tail_def emit_def Let_def
        split: option.splits if_splits prod.splits)
  show "rc2 = 0 \<longleftrightarrow> lay_id lay < UL_MAX_IDX \<and> hs_layers s ! lay_id lay = None"
    and "rc2 = 0 \<longrightarrow> hs_layers s2 ! lay_id lay = Some lay \<and> table_ok (hs_layers s2)"
    and "rc2 \<noteq> 0 \<longrightarrow> s2 = s \<and> rc2 \<in> {- EINVAL, - EBUSY}"
    using assms(2,3) len
    by (auto simp: hsspi_register_def layer_id_is_valid_def table_ok_update split: if_splits)
  show "hsspi_deinit s = 0 \<longleftrightarrow> hs_state s \<noteq> HSSPI_RUNNING \<and> (\<forall>x \<in> set (hs_layers s). x = None)"
    by (auto simp: hsspi_deinit_def)
qed

end
