(* ===== verification/Coredump.thy ===== *)
theory Coredump
  imports Upper_Layer
begin

text \<open>
  The coredump layer (hsspi_coredump.c).  The firmware announces a coredump with a header message
  (size and checksum), sends it in body messages, and is told with a status message whether it
  arrived.  The layer collects the bytes in one allocation that user space reads.
\<close>

definition COREDUMP_HEADER_NTF :: byte where "COREDUMP_HEADER_NTF = 0"
definition COREDUMP_BODY_NTF :: byte where "COREDUMP_BODY_NTF = 1"
definition COREDUMP_RCV_STATUS :: byte where "COREDUMP_RCV_STATUS = 2"
definition COREDUMP_FORCE_CMD :: byte where "COREDUMP_FORCE_CMD = 3"

definition COREDUMP_RCV_NACK :: nat where "COREDUMP_RCV_NACK = 0"
definition COREDUMP_RCV_ACK :: nat where "COREDUMP_RCV_ACK = 1"

text \<open>\<open>cd_timer\<close>: the receive timer is pending.\<close>

record coredump_layer =
  cd_data :: kptr
  cd_wr_idx :: nat
  cd_size :: nat
  cd_crc :: nat
  cd_status :: nat
  cd_timer :: bool

type_synonym coredump_packet = hsspi_block

record coredump_hdr_ntf =
  chn_size :: nat
  chn_crc :: nat

section \<open>Packets\<close>

definition zero_block :: hsspi_block where
  "zero_block = \<lparr>blk_data = NullPtr, blk_length = 0, blk_size = 0\<rparr>"

definition coredump_packet_alloc :: "nat \<Rightarrow> kheap \<Rightarrow> (coredump_packet option \<times> kheap) option" where
  "coredump_packet_alloc len h =
     (let (ok, h1) = kzalloc_struct h in
        if \<not> ok then Some (None, h1)
        else case hsspi_init_block zero_block (u16 len) h1 of
          None \<Rightarrow> None
        | Some (rc, p, h2) \<Rightarrow> if rc \<noteq> 0 then Some (None, h2) else Some (Some p, h2))"

definition coredump_packet_free :: "coredump_packet \<Rightarrow> kheap \<Rightarrow> kheap option" where
  "coredump_packet_free p h = map_option snd (hsspi_deinit_block p h)"

definition coredump_get ::
  "coredump_layer \<Rightarrow> nat \<Rightarrow> kheap \<Rightarrow> (coredump_packet option \<times> coredump_layer \<times> kheap) option" where
  "coredump_get layer len h = map_option (\<lambda>(p, h'). (p, layer, h')) (coredump_packet_alloc len h)"

definition coredump_sent ::
  "coredump_layer \<Rightarrow> coredump_packet \<Rightarrow> int \<Rightarrow> kheap \<Rightarrow> (coredump_layer \<times> kheap) option" where
  "coredump_sent layer p status h = map_option (\<lambda>h'. (layer, h')) (coredump_packet_free p h)"

text \<open>A packet with the given bytes, as the two senders below build it.\<close>

definition coredump_make_packet :: "byte list \<Rightarrow> kheap \<Rightarrow> (coredump_packet option \<times> kheap) option" where
  "coredump_make_packet bytes h =
     (case coredump_packet_alloc (length bytes) h of
        None \<Rightarrow> None
      | Some (None, h1) \<Rightarrow> Some (None, h1)
      | Some (Some p, h1) \<Rightarrow> map_option (\<lambda>h2. (Some p, h2)) (heap_write h1 (blk_data p) 0 bytes))"

text \<open>
  \<open>coredump_send_rcv_status\<close> up to its call of \<open>hsspi_send\<close>: the packet, or \<open>None\<close> when there is no
  memory (-ENOMEM).
\<close>

definition coredump_send_rcv_status :: "nat \<Rightarrow> kheap \<Rightarrow> (coredump_packet option \<times> kheap) option" where
  "coredump_send_rcv_status ack h = coredump_make_packet [COREDUMP_RCV_STATUS, of_nat ack] h"

definition debug_coredump_force :: "kheap \<Rightarrow> (coredump_packet option \<times> kheap) option" where
  "debug_coredump_force h = coredump_make_packet [COREDUMP_FORCE_CMD] h"

definition corredump_on_expired_timer ::
  "coredump_layer \<Rightarrow> kheap \<Rightarrow> (coredump_layer \<times> coredump_packet option \<times> kheap) option" where
  "corredump_on_expired_timer layer h =
     map_option (\<lambda>(p, h'). (layer\<lparr>cd_timer := False\<rparr>, p, h')) (coredump_send_rcv_status (cd_status layer) h)"

section \<open>Reception\<close>

fun sum_bytes :: "byte list \<Rightarrow> nat \<Rightarrow> nat" where
  "sum_bytes [] crc = crc"
| "sum_bytes (b # bs) crc = sum_bytes bs (u16 (crc + unat b))"

definition coredump_get_checksum :: "coredump_layer \<Rightarrow> kheap \<Rightarrow> nat option" where
  "coredump_get_checksum layer h =
     map_option (\<lambda>bs. sum_bytes bs 0) (heap_read h (cd_data layer) 0 (cd_wr_idx layer))"

definition coredump_header_ntf_received ::
  "coredump_layer \<Rightarrow> coredump_hdr_ntf \<Rightarrow> kheap \<Rightarrow> (coredump_layer \<times> kheap) option" where
  "coredump_header_ntf_received layer chn h =
     (let layer = layer\<lparr>cd_wr_idx := 0, cd_size := chn_size chn, cd_crc := chn_crc chn,
                        cd_status := COREDUMP_RCV_NACK\<rparr>
      in case krealloc (cd_data layer) (cd_size layer) h of
           None \<Rightarrow> None
         | Some (data, h') \<Rightarrow>
             if data = NullPtr \<or> data = ZeroPtr
             then Some (layer\<lparr>cd_data := NullPtr, cd_size := 0, cd_crc := 0\<rparr>, h')
             else Some (layer\<lparr>cd_data := data\<rparr>, h'))"

text \<open>\<open>cch_body_size + layer->coredump_data_wr_idx\<close> is 32-bit arithmetic.\<close>

definition coredump_body_ntf_received ::
  "coredump_layer \<Rightarrow> byte list \<Rightarrow> kheap \<Rightarrow> (int \<times> coredump_layer \<times> kheap) option" where
  "coredump_body_ntf_received layer body h =
     (if cd_data layer = NullPtr then Some (1, layer, h)
      else if cd_size layer < u32 (length body + cd_wr_idx layer) then Some (1, layer, h)
      else case heap_write h (cd_data layer) (cd_wr_idx layer) body of
        None \<Rightarrow> None
      | Some h' \<Rightarrow>
          Some (0, layer\<lparr>cd_wr_idx := u32 (cd_wr_idx layer + length body)\<rparr>, h'))"

text \<open>The two message types; the result lists the packets passed to \<open>hsspi_send\<close>.\<close>

definition coredump_on_header ::
  "coredump_layer \<Rightarrow> byte list \<Rightarrow> kheap \<Rightarrow> (coredump_layer \<times> coredump_packet list \<times> kheap) option" where
  "coredump_on_header layer body h =
     (if length body < 6 then Some (layer, [], h)
      else map_option (\<lambda>(layer', h'). (layer', [], h'))
             (coredump_header_ntf_received layer
                \<lparr>chn_size = le32 (chunk body 0 4), chn_crc = le16 (chunk body 4 2)\<rparr> h))"

definition coredump_on_body ::
  "coredump_layer \<Rightarrow> byte list \<Rightarrow> kheap \<Rightarrow> (coredump_layer \<times> coredump_packet list \<times> kheap) option" where
  "coredump_on_body layer body h = do {
     (rc, layer, h) \<leftarrow> coredump_body_ntf_received layer body h;
     if rc \<noteq> 0 then Some (layer, [], h)
     else if cd_wr_idx layer = cd_size layer then do {
       crc \<leftarrow> coredump_get_checksum layer h;
       let layer = (if crc = cd_crc layer then layer\<lparr>cd_status := COREDUMP_RCV_ACK\<rparr> else layer);
       (p, h) \<leftarrow> coredump_send_rcv_status (cd_status layer) h;
       Some (layer, (case p of None \<Rightarrow> [] | Some p \<Rightarrow> [p]), h)
     }
     else Some (layer\<lparr>cd_timer := True\<rparr>, [], h)
   }"

definition coredump_received ::
  "coredump_layer \<Rightarrow> coredump_packet \<Rightarrow> int \<Rightarrow> kheap \<Rightarrow>
   (coredump_layer \<times> coredump_packet list \<times> kheap) option" where
  "coredump_received layer packet status h = do {
     (layer, sends, h) \<leftarrow>
       (if status \<noteq> 0 \<or> blk_length packet < 1 then Some (layer, [], h)
        else do {
          bytes \<leftarrow> heap_read h (blk_data packet) 0 (blk_length packet);
          let layer = layer\<lparr>cd_timer := False\<rparr>;
          let cmd_id = hd bytes;
          let cch_body = tl bytes;
          if cmd_id = COREDUMP_HEADER_NTF then coredump_on_header layer cch_body h
          else if cmd_id = COREDUMP_BODY_NTF then coredump_on_body layer cch_body h
          else Some (layer, [], h)
        });
     h \<leftarrow> coredump_packet_free packet h;
     Some (layer, sends, h)
   }"

section \<open>Life cycle and user access\<close>

definition coredump_layer_init :: coredump_layer where
  "coredump_layer_init = \<lparr>cd_data = NullPtr, cd_wr_idx = 0, cd_size = 0, cd_crc = 0, cd_status = 0,
     cd_timer = False\<rparr>"

definition coredump_layer_deinit :: "coredump_layer \<Rightarrow> kheap \<Rightarrow> kheap option" where
  "coredump_layer_deinit layer h = kfree (cd_data layer) h"

definition debug_coredump_get :: "coredump_layer \<Rightarrow> kptr \<times> nat" where
  "debug_coredump_get layer = (cd_data layer, cd_wr_idx layer)"

end
