(* ===== verification/Coredump_Props.thy ===== *)
theory Coredump_Props
  imports Coredump
begin

text \<open>
  The coredump layer collects the announced bytes in order and acknowledges them exactly when all
  have arrived and the checksum is right.  The layer keeps the contract of an upper layer as long as
  the announced size leaves room for the 32-bit sum in its overflow check; what happens otherwise,
  and two further weaknesses, are stated at the end.
\<close>

section \<open>Invariant\<close>

definition cd_owns :: "coredump_layer \<Rightarrow> nat set" where
  "cd_owns l = {k. cd_data l = Ptr k}"

definition cd_inv :: "coredump_layer \<Rightarrow> kheap \<Rightarrow> bool" where
  "cd_inv l h \<longleftrightarrow>
     heap_ok h \<and> cd_wr_idx l \<le> cd_size l \<and> cd_size l + 65535 < 4294967296 \<and> cd_data l \<noteq> ZeroPtr \<and>
     (\<forall>k. cd_data l = Ptr k \<longrightarrow> (\<exists>bs. hp_mem h k = Some bs \<and> length bs = cd_size l))"

text \<open>The bytes collected so far; \<open>None\<close> when there is no memory for a coredump.\<close>

definition cd_bytes :: "coredump_layer \<Rightarrow> kheap \<Rightarrow> byte list option" where
  "cd_bytes l h = map_option (take (cd_wr_idx l)) (heap_bytes h (cd_data l))"

lemma cd_inv_frame:
  assumes "cd_inv l h" "\<And>k. k \<in> cd_owns l \<Longrightarrow> hp_mem h' k = hp_mem h k" "heap_ok h'"
  shows "cd_inv l h'" "cd_bytes l h' = cd_bytes l h"
  using assms by (cases "cd_data l"; simp add: cd_inv_def cd_owns_def cd_bytes_def)+

lemma cd_inv_init: "heap_ok h \<Longrightarrow> cd_inv coredump_layer_init h"
  by (simp add: cd_inv_def coredump_layer_init_def)

section \<open>Packets\<close>

lemma coredump_packet_alloc_ok:
  assumes ok: "heap_ok h" and n: "n < 65536"
  shows "\<exists>b h'. coredump_packet_alloc n h = Some (b, h') \<and> heap_ok h' \<and> frame {} h h' \<and>
    (case b of None \<Rightarrow> \<not> oracle_total h \<and> live h' = live h
     | Some p \<Rightarrow> fresh_block h h' n p \<and> live h' = live h \<union> blk_keys p)"
proof -
  obtain a h1 where k: "kzalloc_struct h = (a, h1)" by (cases "kzalloc_struct h")
  have m: "same_mem h h1" using k by (rule same_mem_kzalloc)
  have ok1: "heap_ok h1" by (rule same_mem_heap_ok [OF m ok])
  have lv: "live h1 = live h" using m by (simp add: same_mem_def live_def)
  have ot: "oracle_total h1 = oracle_total h" by (rule oracle_total_same_mem [OF m])
  show ?thesis
  proof (cases a)
    case False
    then have "\<not> oracle_total h" using k by (auto simp: kzalloc_struct_def oracle_total_def)
    then show ?thesis using False k ok1 lv frame_same_mem [OF m, of "{}"]
      by (simp add: coredump_packet_alloc_def)
  next
    case True
    obtain rc p h2 where i: "hsspi_init_block zero_block n h1 = Some (rc, p, h2)" "heap_ok h2"
      and f: "frame {} h1 h2"
      and r: "if rc = 0 then fresh_block h1 h2 n p \<and> live h2 = live h1 \<union> blk_keys p
        else \<not> oracle_total h1 \<and> live h2 = live h1"
      using init_block_ok [OF ok1, of zero_block n] by (auto simp: zero_block_def)
    have f2: "frame {} h h2" by (rule frame_trans [OF frame_same_mem [OF m] f]) simp
    have fb: "fresh_block h1 h2 n p \<Longrightarrow> fresh_block h h2 n p"
      using m unfolding fresh_block_def same_mem_def by (metis le_trans)
    have a: "coredump_packet_alloc n h = Some (if rc \<noteq> 0 then None else Some p, h2)"
      using True k i(1) n by (simp add: coredump_packet_alloc_def u16_id)
    show ?thesis unfolding a using i(2) f2 r fb lv ot by (cases "rc = 0") simp_all
  qed
qed

lemma coredump_make_packet_ok:
  assumes ok: "heap_ok h" and n: "length bytes < 65536"
  shows "\<exists>b h'. coredump_make_packet bytes h = Some (b, h') \<and> heap_ok h' \<and> frame {} h h' \<and>
    (case b of None \<Rightarrow> \<not> oracle_total h \<and> live h' = live h
     | Some p \<Rightarrow> block_holds h' p bytes \<and> (\<forall>k \<in> blk_keys p. hp_next h \<le> k) \<and>
         live h' = live h \<union> blk_keys p)"
proof -
  obtain b h1 where a: "coredump_packet_alloc (length bytes) h = Some (b, h1)" "heap_ok h1" "frame {} h h1"
    "case b of None \<Rightarrow> \<not> oracle_total h \<and> live h1 = live h
     | Some p \<Rightarrow> fresh_block h h1 (length bytes) p \<and> live h1 = live h \<union> blk_keys p"
    using coredump_packet_alloc_ok [OF ok n] by blast
  show ?thesis
  proof (cases b)
    case None
    with a show ?thesis by (auto simp: coredump_make_packet_def)
  next
    case (Some p)
    then have fb: "fresh_block h h1 (length bytes) p" and lv: "live h1 = live h \<union> blk_keys p"
      using a by auto
    obtain h2 where w: "heap_write h1 (blk_data p) 0 bytes = Some h2" "block_holds h2 p bytes"
      "frame (blk_keys p) h1 h2" "hp_next h2 = hp_next h1" "live h2 = live h1"
      using fill_block [OF fb refl] by blast
    have ok2: "heap_ok h2" using a(2) w by (simp add: heap_ok_iff_live)
    have new: "\<forall>k \<in> blk_keys p. hp_next h \<le> k" using fb by (simp add: fresh_block_def)
    have f: "frame {} h h2" by (rule frame_trans [OF a(3) w(3)]) (use new in blast)
    show ?thesis using Some a w ok2 new f lv by (auto simp: coredump_make_packet_def)
  qed
qed

section \<open>The two messages\<close>

lemma chunk_bound: "length (chunk bs off n) \<le> n"
  by (simp add: chunk_def)

text \<open>The abstract effect of a body message: appended if it fits, dropped otherwise.\<close>

definition cd_append :: "nat \<Rightarrow> byte list \<Rightarrow> byte list \<Rightarrow> byte list" where
  "cd_append n got body = (if length got + length body \<le> n then got @ body else got)"

lemma body_ok:
  assumes inv: "cd_inv l h" and n: "length body < 65536"
  shows "\<exists>rc l' h'. coredump_body_ntf_received l body h = Some (rc, l', h') \<and> cd_inv l' h' \<and>
    frame (cd_owns l) h h' \<and> hp_next h' = hp_next h \<and> live h' = live h \<and> cd_data l' = cd_data l \<and> cd_size l' = cd_size l \<and>
    cd_crc l' = cd_crc l \<and> cd_status l' = cd_status l \<and> cd_timer l' = cd_timer l \<and>
    (\<forall>got. cd_bytes l h = Some got \<longrightarrow> cd_bytes l' h' = Some (cd_append (cd_size l) got body) \<and>
       (rc = 0 \<longleftrightarrow> length got + length body \<le> cd_size l)) \<and>
    (cd_bytes l h = None \<longrightarrow> rc = 1 \<and> l' = l \<and> h' = h)"
proof (cases "cd_data l")
  case NullPtr
  then show ?thesis using inv
    by (auto simp: coredump_body_ntf_received_def cd_bytes_def)
next
  case ZeroPtr
  then show ?thesis using inv by (simp add: cd_inv_def)
next
  case (Ptr k)
  then obtain bs where bs: "hp_mem h k = Some bs" "length bs = cd_size l" using inv by (auto simp: cd_inv_def)
  have b: "cd_wr_idx l \<le> cd_size l" "cd_size l + 65535 < 4294967296" using inv by (auto simp: cd_inv_def)
  have u: "u32 (length body + cd_wr_idx l) = length body + cd_wr_idx l"
    "u32 (cd_wr_idx l + length body) = cd_wr_idx l + length body"
    using b n by (simp_all add: u32_id)
  have g: "cd_bytes l h = Some (take (cd_wr_idx l) bs)" "length (take (cd_wr_idx l) bs) = cd_wr_idx l"
    using Ptr bs b by (simp_all add: cd_bytes_def)
  show ?thesis
  proof (cases "cd_wr_idx l + length body \<le> cd_size l")
    case False
    then show ?thesis using Ptr u g inv
      by (auto simp: coredump_body_ntf_received_def cd_append_def)
  next
    case True
    let ?h = "h\<lparr>hp_mem := (hp_mem h)(k \<mapsto> patch bs (cd_wr_idx l) body)\<rparr>"
    have w: "heap_write h (cd_data l) (cd_wr_idx l) body = Some (if body = [] then h else ?h)"
      using True Ptr bs by (simp add: heap_write_def mem_write_def)
    have t: "take (cd_wr_idx l + length body) (patch bs (cd_wr_idx l) body) = take (cd_wr_idx l) bs @ body"
      using b bs by (simp add: patch_def)
    show ?thesis
      using True Ptr u g inv w t bs b
      by (auto simp: coredump_body_ntf_received_def cd_append_def cd_inv_def cd_bytes_def heap_ok_def
          frame_def cd_owns_def live_def)
  qed
qed

lemma sum_bytes_mod: "crc < 65536 \<Longrightarrow> sum_bytes bs crc = (crc + sum_list (map unat bs)) mod 65536"
proof (induction bs arbitrary: crc)
  case (Cons b bs)
  have "sum_bytes (b # bs) crc = (u16 (crc + unat b) + sum_list (map unat bs)) mod 65536"
    using Cons.IH [of "u16 (crc + unat b)"] by simp
  then show ?case by (simp add: u16_def mod_add_left_eq add.assoc)
qed simp

text \<open>The packet of a message is freed at the end, by \<open>received\<close> or by \<open>sent\<close>.\<close>

lemma packet_free_ok:
  assumes "heap_ok h" "block_holds h p bs"
  shows "\<exists>h'. coredump_packet_free p h = Some h' \<and> heap_ok h' \<and> frame (blk_keys p) h h' \<and>
    hp_next h' = hp_next h \<and> live h' = live h - blk_keys p"
  using assms
  by (cases "blk_data p")
    (auto simp: coredump_packet_free_def hsspi_deinit_block_def block_holds_def heap_ok_def frame_def
      blk_keys_def live_def)

section \<open>Specification\<close>

text \<open>
  The state as a reader of the driver would put it: no coredump, or its announced size and checksum,
  the status to report and the bytes received.  A message gives the next state and the replies.
\<close>

type_synonym cd_state = "(nat \<times> nat \<times> nat \<times> byte list) option"

definition cd_abs :: "coredump_layer \<Rightarrow> kheap \<Rightarrow> cd_state" where
  "cd_abs l h = map_option (\<lambda>got. (cd_size l, cd_crc l, cd_status l, got)) (cd_bytes l h)"

definition checksum :: "byte list \<Rightarrow> nat" where
  "checksum bs = sum_list (map unat bs) mod 65536"

definition spec_header :: "byte list \<Rightarrow> cd_state" where
  "spec_header body =
     (if le32 (chunk body 0 4) = 0 then None
      else Some (le32 (chunk body 0 4), le16 (chunk body 4 2), COREDUMP_RCV_NACK, []))"

fun spec_body :: "byte list \<Rightarrow> cd_state \<Rightarrow> cd_state \<times> byte list list" where
  "spec_body body None = (None, [])"
| "spec_body body (Some (n, crc, status, got)) =
     (if n < length got + length body then (Some (n, crc, status, got), [])
      else if length got + length body < n then (Some (n, crc, status, got @ body), [])
      else let status' = (if checksum (got @ body) = crc then COREDUMP_RCV_ACK else status)
           in (Some (n, crc, status', got @ body), [[COREDUMP_RCV_STATUS, of_nat status']]))"

definition spec_message :: "byte list \<Rightarrow> cd_state \<Rightarrow> cd_state \<times> byte list list" where
  "spec_message msg st =
     (if msg = [] then (st, [])
      else if hd msg = COREDUMP_HEADER_NTF
      then (if length (tl msg) < 6 then (st, []) else (spec_header (tl msg), []))
      else if hd msg = COREDUMP_BODY_NTF then spec_body (tl msg) st
      else (st, []))"

text \<open>A header the 32-bit overflow check copes with.\<close>

definition cd_msg_ok :: "coredump_layer \<Rightarrow> byte list \<Rightarrow> bool" where
  "cd_msg_ok l msg \<longleftrightarrow>
     (7 \<le> length msg \<and> hd msg = COREDUMP_HEADER_NTF \<longrightarrow> le32 (chunk (tl msg) 0 4) + 65535 < 4294967296)"

text \<open>What is kept of the memory outside the layer, and the packets handed over for sending.\<close>

definition cd_sends_ok :: "kheap \<Rightarrow> coredump_packet list \<Rightarrow> kheap \<Rightarrow> byte list list \<Rightarrow> bool" where
  "cd_sends_ok h sends h' msgs \<longleftrightarrow>
     list_all2 (block_holds h') sends msgs \<and> (\<forall>p \<in> set sends. \<forall>k \<in> blk_keys p. hp_next h \<le> k)"

definition sent_keys :: "coredump_packet list \<Rightarrow> nat set" where
  "sent_keys sends = (\<Union>p \<in> set sends. blk_keys p)"

text \<open>
  What a message does to the layer: the invariant is kept, other memory is not touched; when memory
  is available the state and the replies are those of the specification \<open>r\<close>, and nothing but the
  coredump and the replies is left allocated.
\<close>

definition cd_outcome ::
  "coredump_layer \<Rightarrow> kheap \<Rightarrow> cd_state \<times> byte list list \<Rightarrow> coredump_layer \<Rightarrow> coredump_packet list \<Rightarrow> kheap \<Rightarrow> bool" where
  "cd_outcome l h r l' sends h' \<longleftrightarrow>
     cd_inv l' h' \<and> frame (cd_owns l) h h' \<and> cd_owns l' \<subseteq> cd_owns l \<union> {k. hp_next h \<le> k} \<and>
     length sends \<le> 1 \<and> sent_keys sends \<inter> cd_owns l' = {} \<and> (\<exists>msgs. cd_sends_ok h sends h' msgs) \<and>
     (oracle_total h \<longrightarrow> cd_abs l' h' = fst r \<and> cd_sends_ok h sends h' (snd r) \<and>
        live h' = (live h - cd_owns l) \<union> cd_owns l' \<union> sent_keys sends)"

lemma cd_outcome_refl:
  assumes "cd_inv l h"
  shows "cd_outcome l h (cd_abs l h, []) l [] h"
proof -
  have "cd_owns l \<subseteq> live h" using assms by (auto simp: cd_inv_def cd_owns_def live_def)
  then show ?thesis using assms by (auto simp: cd_outcome_def sent_keys_def cd_sends_ok_def)
qed

lemma header_ok:
  assumes inv: "cd_inv l h" and sz: "chn_size chn + 65535 < 4294967296"
  shows "\<exists>l' h'. coredump_header_ntf_received l chn h = Some (l', h') \<and>
    cd_outcome l h (if chn_size chn = 0 then None else Some (chn_size chn, chn_crc chn, COREDUMP_RCV_NACK, []), [])
      l' [] h'"
proof (cases "chn_size chn = 0")
  case True
  then show ?thesis using inv
    by (cases "cd_data l")
      (auto simp: coredump_header_ntf_received_def krealloc_def cd_inv_def cd_owns_def Let_def
        heap_ok_def frame_def cd_outcome_def cd_sends_ok_def sent_keys_def cd_abs_def cd_bytes_def live_def)
next
  case False
  show ?thesis
  proof (cases "hp_oracle h (hp_next h)")
    case None
    then have "\<not> oracle_total h" by (auto simp: oracle_total_def)
    then show ?thesis using None False inv
      by (cases "cd_data l")
        (auto simp: coredump_header_ntf_received_def krealloc_def kmalloc_def cd_inv_def cd_owns_def
          Let_def heap_ok_def frame_def cd_outcome_def cd_sends_ok_def sent_keys_def)
  next
    case (Some junk)
    then show ?thesis using False inv sz
      by (cases "cd_data l")
        (auto simp: coredump_header_ntf_received_def krealloc_def kmalloc_def cd_inv_def cd_owns_def
          Let_def heap_ok_def frame_def cd_bytes_def cd_outcome_def cd_sends_ok_def sent_keys_def
          cd_abs_def live_def)
  qed
qed

lemma on_header_ok:
  assumes inv: "cd_inv l h" and ok: "cd_msg_ok l (COREDUMP_HEADER_NTF # body)"
  shows "\<exists>l' sends h'. coredump_on_header l body h = Some (l', sends, h') \<and>
    cd_outcome l h (spec_message (COREDUMP_HEADER_NTF # body) (cd_abs l h)) l' sends h'"
proof (cases "length body < 6")
  case True
  then show ?thesis using cd_outcome_refl [OF inv]
    by (simp add: coredump_on_header_def spec_message_def)
next
  case False
  let ?c = "\<lparr>chn_size = le32 (chunk body 0 4), chn_crc = le16 (chunk body 4 2)\<rparr>"
  have "chn_size ?c + 65535 < 4294967296" using ok False by (simp add: cd_msg_ok_def)
  from header_ok [OF inv this] show ?thesis using False
    by (auto simp: coredump_on_header_def spec_message_def spec_header_def)
qed

lemma cd_bytes_facts:
  assumes "cd_inv l h" "cd_bytes l h = Some g"
  shows "length g = cd_wr_idx l" "coredump_get_checksum l h = Some (checksum g)"
  using assms
  by (cases "cd_data l"; auto simp: cd_inv_def cd_bytes_def coredump_get_checksum_def heap_read_def
      mem_read_def chunk_def checksum_def sum_bytes_mod)+

lemma cd_bytes_update [simp]:
  "cd_bytes (l\<lparr>cd_timer := t\<rparr>) h = cd_bytes l h" "cd_bytes (l\<lparr>cd_status := s\<rparr>) h = cd_bytes l h"
  by (simp_all add: cd_bytes_def)

lemma reply_ok:
  assumes inv: "cd_inv l1 h1"
    and f: "frame (cd_owns l) h h1" "hp_next h1 = hp_next h" "live h1 = live h" "cd_owns l1 = cd_owns l"
    and l: "cd_owns l \<subseteq> live h" and ok: "heap_ok h"
  shows "\<exists>b h2. coredump_send_rcv_status ack h1 = Some (b, h2) \<and>
    cd_outcome l h (cd_abs l1 h1, [[COREDUMP_RCV_STATUS, of_nat ack]]) l1
      (case b of None \<Rightarrow> [] | Some p \<Rightarrow> [p]) h2"
proof -
  have ok1: "heap_ok h1" using inv by (simp add: cd_inv_def)
  obtain b h2 where b: "coredump_send_rcv_status ack h1 = Some (b, h2)" "heap_ok h2" and f2: "frame {} h1 h2"
    and c: "case b of None \<Rightarrow> \<not> oracle_total h1 \<and> live h2 = live h1
     | Some p \<Rightarrow> block_holds h2 p [COREDUMP_RCV_STATUS, of_nat ack] \<and>
         (\<forall>k \<in> blk_keys p. hp_next h1 \<le> k) \<and> live h2 = live h1 \<union> blk_keys p"
    using coredump_make_packet_ok [OF ok1, of "[COREDUMP_RCV_STATUS, of_nat ack]"]
    by (auto simp: coredump_send_rcv_status_def)
  have ot: "oracle_total h1 = oracle_total h" using f(1) by (simp add: frame_def oracle_total_def)
  have low: "k < hp_next h" if "k \<in> cd_owns l" for k
    using l ok that unfolding heap_ok_iff_live by blast
  have same: "hp_mem h2 k = hp_mem h1 k" if "k \<in> cd_owns l1" for k
    using f2 low that f by (simp add: frame_def)
  have i2: "cd_inv l1 h2" "cd_abs l1 h2 = cd_abs l1 h1"
    using cd_inv_frame [OF inv same b(2)] by (simp_all add: cd_abs_def)
  have fr: "frame (cd_owns l) h h2" by (rule frame_trans [OF f(1) f2]) simp
  show ?thesis
  proof (cases b)
    case None
    then show ?thesis using b c i2 fr f ot
      by (auto simp: cd_outcome_def sent_keys_def cd_sends_ok_def)
  next
    case (Some p)
    have d: "blk_keys p \<inter> cd_owns l1 = {}" using Some c f low by fastforce
    have s: "cd_sends_ok h [p] h2 [[COREDUMP_RCV_STATUS, of_nat ack]]"
      using Some c f by (simp add: cd_sends_ok_def)
    show ?thesis using Some b c i2 fr f d s l
      by (auto simp: cd_outcome_def sent_keys_def)
  qed
qed

lemma on_body_ok:
  assumes inv: "cd_inv l h" and n: "length body < 65536"
  shows "\<exists>l' sends h'. coredump_on_body l body h = Some (l', sends, h') \<and>
    cd_outcome l h (spec_message (COREDUMP_BODY_NTF # body) (cd_abs l h)) l' sends h'"
proof -
  obtain rc l1 h1 where r: "coredump_body_ntf_received l body h = Some (rc, l1, h1)" and i1: "cd_inv l1 h1"
    and f: "frame (cd_owns l) h h1" "hp_next h1 = hp_next h" "live h1 = live h"
    and same: "cd_data l1 = cd_data l" "cd_size l1 = cd_size l" "cd_crc l1 = cd_crc l"
      "cd_status l1 = cd_status l" "cd_timer l1 = cd_timer l"
    and s: "\<forall>got. cd_bytes l h = Some got \<longrightarrow> cd_bytes l1 h1 = Some (cd_append (cd_size l) got body) \<and>
       (rc = 0 \<longleftrightarrow> length got + length body \<le> cd_size l)"
    and none: "cd_bytes l h = None \<longrightarrow> rc = 1 \<and> l1 = l \<and> h1 = h"
    using body_ok [OF inv n] by (elim exE conjE) (rule that)
  have l: "cd_owns l \<subseteq> live h" using inv by (auto simp: cd_inv_def cd_owns_def live_def)
  have ok: "heap_ok h" using inv by (simp add: cd_inv_def)
  have o: "cd_owns l1 = cd_owns l" using same by (simp add: cd_owns_def)
  show ?thesis
  proof (cases "cd_bytes l h")
    case None
    then show ?thesis using none r cd_outcome_refl [OF inv]
      by (simp add: coredump_on_body_def spec_message_def cd_abs_def COREDUMP_HEADER_NTF_def
          COREDUMP_BODY_NTF_def)
  next
    case (Some got)
    note b1 = s [rule_format, OF Some]
    let ?r = "spec_message (COREDUMP_BODY_NTF # body) (cd_abs l h)"
    have sp: "?r = spec_body body (Some (cd_size l, cd_crc l, cd_status l, got))"
      using Some by (simp add: spec_message_def cd_abs_def COREDUMP_HEADER_NTF_def COREDUMP_BODY_NTF_def)
    have plain: "cd_outcome l h (cd_abs l2 h1, []) l2 [] h1"
      if "cd_inv l2 h1" "cd_data l2 = cd_data l" for l2
      using that f l by (auto simp: cd_outcome_def sent_keys_def cd_sends_ok_def cd_owns_def)
    show ?thesis
    proof (cases "length got + length body \<le> cd_size l")
      case False
      then have "?r = (cd_abs l1 h1, [])" unfolding sp using b1 same
        by (simp add: cd_abs_def cd_append_def)
      then show ?thesis using False r b1 plain [OF i1 same(1)]
        by (simp add: coredump_on_body_def)
    next
      case True
      then have g: "cd_bytes l1 h1 = Some (got @ body)" and rc: "rc = 0" using b1 by (auto simp: cd_append_def)
      note cf = cd_bytes_facts [OF i1 g]
      show ?thesis
      proof (cases "length got + length body = cd_size l")
        case False
        let ?l2 = "l1\<lparr>cd_timer := True\<rparr>"
        have i2: "cd_inv ?l2 h1" using i1 by (simp add: cd_inv_def)
        have "?r = (cd_abs ?l2 h1, [])" unfolding sp using True False g same
          by (simp add: cd_abs_def)
        then show ?thesis using False r rc cf same plain [OF i2]
          by (simp add: coredump_on_body_def)
      next
        case complete: True
        let ?l2 = "if checksum (got @ body) = cd_crc l1 then l1\<lparr>cd_status := COREDUMP_RCV_ACK\<rparr> else l1"
        have i2: "cd_inv ?l2 h1" using i1 by (simp add: cd_inv_def)
        have o2: "cd_owns ?l2 = cd_owns l" using o by (simp add: cd_owns_def)
        have "?r = (cd_abs ?l2 h1, [[COREDUMP_RCV_STATUS, of_nat (cd_status ?l2)]])"
          unfolding sp using complete g same by (simp add: cd_abs_def Let_def)
        then show ?thesis using complete r rc cf same reply_ok [OF i2 f o2 l ok, of "cd_status ?l2"]
          by (auto simp: coredump_on_body_def Let_def)
      qed
    qed
  qed
qed

section \<open>The layer as an upper layer\<close>

lemma coredump_get_ok:
  assumes inv: "cd_inv l h" and n: "n < 65536"
  shows "\<exists>b h'. coredump_get l n h = Some (b, l, h') \<and> cd_inv l h' \<and> frame {} h h' \<and>
    (case b of None \<Rightarrow> \<not> oracle_total h \<and> live h' = live h
     | Some blk \<Rightarrow> fresh_block h h' n blk \<and> live h' = live h \<union> blk_keys blk) \<and> cd_bytes l h' = cd_bytes l h"
proof -
  have ok: "heap_ok h" and low: "k < hp_next h" if "k \<in> cd_owns l" for k
    using inv that by (auto simp: cd_inv_def cd_owns_def heap_ok_live)
  have hok: "heap_ok h" using inv by (simp add: cd_inv_def)
  obtain b h' where a: "coredump_packet_alloc n h = Some (b, h')" "heap_ok h'" and f: "frame {} h h'"
    and c: "case b of None \<Rightarrow> \<not> oracle_total h \<and> live h' = live h
     | Some p \<Rightarrow> fresh_block h h' n p \<and> live h' = live h \<union> blk_keys p"
    using coredump_packet_alloc_ok [OF hok n] by blast
  have same: "hp_mem h' k = hp_mem h k" if "k \<in> cd_owns l" for k
    using f low that by (simp add: frame_def)
  show ?thesis using a f c cd_inv_frame [OF inv same a(2)] by (simp add: coredump_get_def)
qed

lemma coredump_handle_ok:
  assumes inv: "cd_inv l h" and b: "block_holds h p msg" and n: "length msg < 65536"
    and ok: "status = 0 \<longrightarrow> cd_msg_ok l msg"
  shows "\<exists>l' sends h'. (if status \<noteq> 0 \<or> blk_length p < 1 then Some (l, [], h)
        else do {
          bytes \<leftarrow> heap_read h (blk_data p) 0 (blk_length p);
          let layer = l\<lparr>cd_timer := False\<rparr>;
          let cmd_id = hd bytes;
          let cch_body = tl bytes;
          if cmd_id = COREDUMP_HEADER_NTF then coredump_on_header layer cch_body h
          else if cmd_id = COREDUMP_BODY_NTF then coredump_on_body layer cch_body h
          else Some (layer, [], h)
        }) = Some (l', sends, h') \<and>
    cd_outcome l h (if status = 0 then spec_message msg (cd_abs l h) else (cd_abs l h, [])) l' sends h'"
proof (cases "status \<noteq> 0 \<or> msg = []")
  case True
  then show ?thesis using b cd_outcome_refl [OF inv] by (auto simp: block_holds_def spec_message_def)
next
  case False
  then obtain c body where m: "msg = c # body" by (cases msg) auto
  let ?l = "l\<lparr>cd_timer := False\<rparr>"
  have i: "cd_inv ?l h" using inv by (simp add: cd_inv_def)
  have r: "heap_read h (blk_data p) 0 (blk_length p) = Some msg"
    using b by (auto simp: block_holds_def dest!: heap_read_whole)
  have l: "blk_length p = length msg" using b by (simp add: block_holds_def)
  have e: "cd_abs ?l h = cd_abs l h" "cd_owns ?l = cd_owns l" by (simp_all add: cd_abs_def cd_owns_def)
  have o: "cd_outcome ?l h r l' s h' = cd_outcome l h r l' s h'" for r l' s h'
    by (simp add: cd_outcome_def e)
  consider "c = COREDUMP_HEADER_NTF" | "c = COREDUMP_BODY_NTF" "c \<noteq> COREDUMP_HEADER_NTF"
    | "c \<noteq> COREDUMP_HEADER_NTF" "c \<noteq> COREDUMP_BODY_NTF" by blast
  then show ?thesis
  proof cases
    case 1
    then show ?thesis using on_header_ok [OF i, of body] ok False m r l
      by (simp add: Let_def e o cd_msg_ok_def)
  next
    case 2
    then show ?thesis using on_body_ok [OF i, of body] False m r l n
      by (simp add: Let_def e o)
  next
    case 3
    then show ?thesis using cd_outcome_refl [OF i] False m r l
      by (simp add: Let_def e o spec_message_def)
  qed
qed

lemma block_holds_same:
  "block_holds h b bs \<Longrightarrow> (\<And>k. k \<in> blk_keys b \<Longrightarrow> hp_mem h' k = hp_mem h k) \<Longrightarrow> block_holds h' b bs"
  by (cases "blk_data b") (auto simp: block_holds_def blk_keys_def)

lemma block_keys_low: "heap_ok h \<Longrightarrow> block_holds h b bs \<Longrightarrow> k \<in> blk_keys b \<Longrightarrow> k < hp_next h"
  by (auto simp: block_holds_def blk_keys_def heap_ok_live)

lemma sent_keys_low: "heap_ok h' \<Longrightarrow> cd_sends_ok h sends h' msgs \<Longrightarrow> k \<in> sent_keys sends \<Longrightarrow> k < hp_next h'"
  unfolding cd_sends_ok_def sent_keys_def
  by (auto simp: in_set_conv_nth list_all2_conv_all_nth) (meson block_keys_low)

lemma cd_sends_same:
  assumes "cd_sends_ok h sends h1 msgs" "\<And>k. k \<in> sent_keys sends \<Longrightarrow> hp_mem h2 k = hp_mem h1 k"
  shows "cd_sends_ok h sends h2 msgs"
  using assms unfolding cd_sends_ok_def sent_keys_def
  by (auto elim!: list.rel_mono_strong intro: block_holds_same)

lemma coredump_received_ok:
  assumes inv: "cd_inv l h" and b: "block_holds h p msg" and n: "length msg < 65536"
    and nin: "\<not> blk_ptr_in p (cd_owns l)"
    and ok: "status = 0 \<longrightarrow> cd_msg_ok l msg"
  shows "\<exists>l' sends h'. coredump_received l p status h = Some (l', sends, h') \<and>
    cd_inv l' h' \<and> frame (cd_owns l \<union> blk_keys p) h h' \<and> cd_owns l' \<subseteq> cd_owns l \<union> {k. hp_next h \<le> k} \<and>
    length sends \<le> 1 \<and> sent_keys sends \<inter> cd_owns l' = {} \<and> (\<exists>msgs. cd_sends_ok h sends h' msgs) \<and>
    (oracle_total h \<and> status = 0 \<longrightarrow>
       cd_abs l' h' = fst (spec_message msg (cd_abs l h)) \<and>
       cd_sends_ok h sends h' (snd (spec_message msg (cd_abs l h))) \<and>
       live h' = (live h - cd_owns l - blk_keys p) \<union> cd_owns l' \<union> sent_keys sends)"
proof -
  have hok: "heap_ok h" using inv by (simp add: cd_inv_def)
  have low: "k < hp_next h" if "k \<in> blk_keys p" for k
    using b that hok by (auto simp: block_holds_def blk_keys_def heap_ok_live)
  have dis: "k \<notin> cd_owns l" if "k \<in> blk_keys p" for k
    using nin that by (auto simp: blk_ptr_in_def blk_keys_def)
  let ?r = "if status = 0 then spec_message msg (cd_abs l h) else (cd_abs l h, [])"
  obtain l' sends h1 where a: "(if status \<noteq> 0 \<or> blk_length p < 1 then Some (l, [], h)
        else do {
          bytes \<leftarrow> heap_read h (blk_data p) 0 (blk_length p);
          let layer = l\<lparr>cd_timer := False\<rparr>;
          let cmd_id = hd bytes;
          let cch_body = tl bytes;
          if cmd_id = COREDUMP_HEADER_NTF then coredump_on_header layer cch_body h
          else if cmd_id = COREDUMP_BODY_NTF then coredump_on_body layer cch_body h
          else Some (layer, [], h)
        }) = Some (l', sends, h1)" and o: "cd_outcome l h ?r l' sends h1"
    using coredump_handle_ok [OF inv b n ok] by (elim exE conjE) (rule that)
  have f: "frame (cd_owns l) h h1" and i1: "cd_inv l' h1" and ow: "cd_owns l' \<subseteq> cd_owns l \<union> {k. hp_next h \<le> k}"
    and one: "length sends \<le> 1" and sep: "sent_keys sends \<inter> cd_owns l' = {}"
    and m: "\<exists>msgs. cd_sends_ok h sends h1 msgs"
    and res: "oracle_total h \<longrightarrow> cd_abs l' h1 = fst ?r \<and> cd_sends_ok h sends h1 (snd ?r) \<and>
        live h1 = (live h - cd_owns l) \<union> cd_owns l' \<union> sent_keys sends"
    using o by (simp_all add: cd_outcome_def)
  have ok1: "heap_ok h1" using i1 by (simp add: cd_inv_def)
  have "block_holds h1 p msg"
    by (rule block_holds_same [OF b]) (use f low dis in \<open>simp add: frame_def\<close>)
  then obtain h' where fr: "coredump_packet_free p h1 = Some h'" "heap_ok h'" and f': "frame (blk_keys p) h1 h'"
    and nx: "hp_next h' = hp_next h1" and lv: "live h' = live h1 - blk_keys p"
    using packet_free_ok [OF ok1] by blast
  have le: "hp_next h \<le> hp_next h1" using f by (simp add: frame_def)
  have nown: "k \<notin> blk_keys p" if "k \<in> cd_owns l'" for k using ow low dis that by fastforce
  have lo: "k < hp_next h1" if "k \<in> cd_owns l'" for k
    using i1 that by (auto simp: cd_inv_def cd_owns_def heap_ok_live)
  have sk: "k \<notin> blk_keys p" if "k \<in> sent_keys sends" for k
    using m low that by (fastforce simp: cd_sends_ok_def sent_keys_def)
  have sl: "k < hp_next h1" if "k \<in> sent_keys sends" for k
    using m that sent_keys_low [OF ok1] by blast
  have same: "hp_mem h' k = hp_mem h1 k" if "k \<in> cd_owns l' \<union> sent_keys sends" for k
    using f' nown lo sk sl that by (auto simp: frame_def)
  have i': "cd_inv l' h'" "cd_bytes l' h' = cd_bytes l' h1"
    using cd_inv_frame [OF i1 same fr(2)] by simp_all
  have s': "cd_sends_ok h sends h' ms" if "cd_sends_ok h sends h1 ms" for ms
    using that same by (rule cd_sends_same) simp
  have fin: "frame (cd_owns l \<union> blk_keys p) h h'"
    by (rule frame_trans [OF frame_mono [OF f] f']) auto
  have rcv: "coredump_received l p status h = Some (l', sends, h')"
    using a fr(1) by (simp add: coredump_received_def)
  have lv': "live h' = (live h - cd_owns l - blk_keys p) \<union> cd_owns l' \<union> sent_keys sends"
    if "oracle_total h" using that res lv nown sk by auto
  show ?thesis
    using rcv i' s' fin ow one sep m res lv' by (auto simp: cd_abs_def)
qed

interpretation coredump_ul: upper_layer cd_inv cd_owns cd_msg_ok coredump_get coredump_received
proof (unfold_locales, goal_cases)
  case (1 l h) then show ?case by (simp add: cd_inv_def)
next
  case (2 l h k) then show ?case by (auto simp: cd_inv_def cd_owns_def)
next
  case (3 l h h') then show ?case using cd_inv_frame by blast
next
  case (4 l h n)
  obtain b h' where "coredump_get l n h = Some (b, l, h')" "cd_inv l h'" "frame {} h h'"
    "case b of None \<Rightarrow> \<not> oracle_total h \<and> live h' = live h
     | Some blk \<Rightarrow> fresh_block h h' n blk \<and> live h' = live h \<union> blk_keys blk"
    using coredump_get_ok [OF 4] by (elim exE conjE) (rule that)
  then show ?case by (cases b) auto
next
  case (5 l h blk bs status)
  have o: "status = 0 \<longrightarrow> cd_msg_ok l bs" using 5(5) by blast
  obtain l' sends h' where "coredump_received l blk status h = Some (l', sends, h')" "cd_inv l' h'"
    "frame (cd_owns l \<union> blk_keys blk) h h'" "cd_owns l' \<subseteq> cd_owns l \<union> {k. hp_next h \<le> k}"
    using coredump_received_ok [OF 5(1-4) o] by (elim exE conjE) (rule that)
  then show ?case by blast
qed

section \<open>A session\<close>

text \<open>
  The core delivers messages one after the other and sends the replies, whose bytes are listed.
\<close>

fun cd_complete :: "coredump_layer \<Rightarrow> coredump_packet list \<Rightarrow> kheap \<Rightarrow> (byte list list \<times> kheap) option" where
  "cd_complete l [] h = Some ([], h)"
| "cd_complete l (p # ps) h = do {
     msg \<leftarrow> heap_read h (blk_data p) 0 (blk_length p);
     (l, h) \<leftarrow> coredump_sent l p 0 h;
     (msgs, h) \<leftarrow> cd_complete l ps h;
     Some (msg # msgs, h)
   }"

fun cd_session :: "byte list list \<Rightarrow> coredump_layer \<Rightarrow> kheap \<Rightarrow> (byte list list \<times> coredump_layer \<times> kheap) option" where
  "cd_session [] l h = Some ([], l, h)"
| "cd_session (m # ms) l h = do {
     (_, sends, l, h) \<leftarrow> rx_cycle coredump_get coredump_received m 0 l h;
     (replies, h) \<leftarrow> cd_complete l sends h;
     (rs, l, h) \<leftarrow> cd_session ms l h;
     Some (replies @ rs, l, h)
   }"

fun spec_session :: "byte list list \<Rightarrow> cd_state \<Rightarrow> byte list list \<times> cd_state" where
  "spec_session [] st = ([], st)"
| "spec_session (m # ms) st =
     (let (st, r) = spec_message m st; (rs, st) = spec_session ms st in (r @ rs, st))"

definition cd_sized :: "byte list \<Rightarrow> bool" where
  "cd_sized m \<longleftrightarrow> length m < 65536 \<and> cd_msg_ok coredump_layer_init m"

lemma cd_complete_ok:
  assumes "cd_inv l h" "length sends \<le> 1" "sent_keys sends \<inter> cd_owns l = {}" "cd_sends_ok h0 sends h msgs"
  shows "\<exists>h'. cd_complete l sends h = Some (msgs, h') \<and> cd_inv l h' \<and> cd_abs l h' = cd_abs l h \<and>
    live h' = live h - sent_keys sends \<and> oracle_total h' = oracle_total h"
proof (cases sends)
  case Nil
  then show ?thesis using assms by (simp add: cd_sends_ok_def sent_keys_def)
next
  case (Cons p ps)
  then have ps: "ps = []" using assms(2) by simp
  obtain m where m: "msgs = [m]" and b: "block_holds h p m"
    using assms(4) Cons ps by (auto simp: cd_sends_ok_def list_all2_Cons1)
  have sk: "sent_keys sends = blk_keys p" using Cons ps by (simp add: sent_keys_def)
  have ok: "heap_ok h" using assms(1) by (simp add: cd_inv_def)
  obtain h' where f: "coredump_packet_free p h = Some h'" "heap_ok h'" "frame (blk_keys p) h h'"
    "live h' = live h - blk_keys p"
    using packet_free_ok [OF ok b] by blast
  have same: "hp_mem h' k = hp_mem h k" if "k \<in> cd_owns l" for k
    using f(3) assms(1,3) sk that by (auto simp: frame_def cd_inv_def cd_owns_def heap_ok_live)
  have r: "heap_read h (blk_data p) 0 (blk_length p) = Some m"
    using b by (auto simp: block_holds_def dest!: heap_read_whole)
  show ?thesis
    using Cons ps m r f sk cd_inv_frame [OF assms(1) same f(2)]
    by (auto simp: coredump_sent_def cd_abs_def frame_def oracle_total_def)
qed

lemma cd_delivery_ok:
  assumes inv: "cd_inv l h" and m: "cd_sized m" and ot: "oracle_total h"
  shows "\<exists>sends l' h1 h'. rx_cycle coredump_get coredump_received m 0 l h = Some (True, sends, l', h1) \<and>
    cd_complete l' sends h1 = Some (snd (spec_message m (cd_abs l h)), h') \<and> cd_inv l' h' \<and>
    cd_abs l' h' = fst (spec_message m (cd_abs l h)) \<and>
    live h' = (live h - cd_owns l) \<union> cd_owns l' \<and> oracle_total h' \<and> cd_owns l' \<inter> live h \<subseteq> cd_owns l"
proof -
  have n: "length m < 65536" and mo: "(0::int) = 0 \<longrightarrow> cd_msg_ok l m" using m by (simp_all add: cd_sized_def cd_msg_ok_def)
  have hok: "heap_ok h" using inv by (simp add: cd_inv_def)
  obtain b h1 where g: "coredump_get l (length m) h = Some (b, l, h1)" "cd_inv l h1" "frame {} h h1"
    and c: "case b of None \<Rightarrow> \<not> oracle_total h \<and> live h1 = live h
     | Some blk \<Rightarrow> fresh_block h h1 (length m) blk \<and> live h1 = live h \<union> blk_keys blk"
    and by1: "cd_bytes l h1 = cd_bytes l h"
    using coredump_get_ok [OF inv n] by (elim exE conjE) (rule that)
  obtain p where b: "b = Some p" and fb: "fresh_block h h1 (length m) p" and lv1: "live h1 = live h \<union> blk_keys p"
    using c ot by (cases b) auto
  have ok1: "heap_ok h1" using g(2) by (simp add: cd_inv_def)
  obtain h2 where w: "heap_write h1 (blk_data p) 0 m = Some h2" and bh: "block_holds h2 p m"
    and ok2: "heap_ok h2" and f2: "frame {} h h2" and nx: "hp_next h2 = hp_next h1" and lv2: "live h2 = live h1"
    and new: "\<And>k. k \<in> blk_keys p \<Longrightarrow> hp_next h \<le> k"
    by (rule fresh_filled [OF ok1 g(3) fb refl]) blast
  have own: "k < hp_next h" if "k \<in> cd_owns l" for k
    using inv that by (auto simp: cd_inv_def cd_owns_def heap_ok_live)
  have h1le: "hp_next h \<le> hp_next h1" using g(3) by (simp add: frame_def)
  have same: "hp_mem h2 k = hp_mem h1 k" if "k \<in> cd_owns l" for k
    using f2 g(3) own [OF that] by (simp add: frame_def)
  have i2: "cd_inv l h2" "cd_bytes l h2 = cd_bytes l h1"
    using cd_inv_frame [OF g(2) same ok2] by simp_all
  have a2: "cd_abs l h2 = cd_abs l h" using i2 by1 by (simp add: cd_abs_def)
  have nin: "\<not> blk_ptr_in p (cd_owns l)" using new own by (fastforce simp: blk_ptr_in_def blk_keys_def)
  have ot2: "oracle_total h2" using ot f2 by (simp add: frame_def oracle_total_def)
  let ?r = "spec_message m (cd_abs l h)"
  obtain l' sends h3 ms where r: "coredump_received l p 0 h2 = Some (l', sends, h3)" "cd_inv l' h3"
    and f3: "frame (cd_owns l \<union> blk_keys p) h2 h3" and one: "length sends \<le> 1"
    and sep: "sent_keys sends \<inter> cd_owns l' = {}" and "cd_sends_ok h2 sends h3 ms"
    and ow: "cd_owns l' \<subseteq> cd_owns l \<union> {k. hp_next h2 \<le> k}" and res: "oracle_total h2 \<and> (0::int) = 0 \<longrightarrow> cd_abs l' h3 = fst (spec_message m (cd_abs l h2)) \<and>
       cd_sends_ok h2 sends h3 (snd (spec_message m (cd_abs l h2))) \<and>
       live h3 = (live h2 - cd_owns l - blk_keys p) \<union> cd_owns l' \<union> sent_keys sends"
    using coredump_received_ok [OF i2(1) bh n nin mo] by (elim exE conjE) (rule that)
  have so: "cd_sends_ok h2 sends h3 (snd ?r)" and ab: "cd_abs l' h3 = fst ?r"
    and lv3: "live h3 = (live h2 - cd_owns l - blk_keys p) \<union> cd_owns l' \<union> sent_keys sends"
    using res ot2 a2 by simp_all
  obtain h' where cc: "cd_complete l' sends h3 = Some (snd ?r, h')" "cd_inv l' h'" "cd_abs l' h' = cd_abs l' h3"
    "live h' = live h3 - sent_keys sends" "oracle_total h' = oracle_total h3"
    using cd_complete_ok [OF r(2) one sep so] by blast
  have old: "k \<notin> blk_keys p \<and> k \<notin> sent_keys sends" if "k \<in> live h" for k
  proof -
    have k: "k < hp_next h" using hok that by (simp add: heap_ok_iff_live)
    then have "\<not> hp_next h2 \<le> k" using h1le nx by simp
    then show ?thesis using k new [of k] so by (auto simp: cd_sends_ok_def sent_keys_def)
  qed
  have lv: "live h' = (live h - cd_owns l) \<union> cd_owns l'"
    using cc(4) lv3 lv2 lv1 old sep by auto
  have rx: "rx_cycle coredump_get coredump_received m 0 l h = Some (True, sends, l', h3)"
    using g(1) b w r(1) by (simp add: rx_cycle_def)
  have "oracle_total h'" using cc(5) ot2 f3 by (simp add: frame_def oracle_total_def)
  moreover have "cd_owns l' \<inter> live h \<subseteq> cd_owns l"
    using ow hok h1le nx by (fastforce simp: heap_ok_iff_live)
  ultimately show ?thesis using rx cc ab lv by auto
qed

lemma cd_session_ok:
  assumes "cd_inv l h" "oracle_total h" "\<forall>m \<in> set ms. cd_sized m"
  shows "\<exists>l' h'. cd_session ms l h = Some (fst (spec_session ms (cd_abs l h)), l', h') \<and> cd_inv l' h' \<and>
    cd_abs l' h' = snd (spec_session ms (cd_abs l h)) \<and>
    live h' = (live h - cd_owns l) \<union> cd_owns l' \<and> oracle_total h'"
  using assms
proof (induction ms arbitrary: l h)
  case Nil
  then have "cd_owns l \<subseteq> live h" by (auto simp: cd_inv_def cd_owns_def live_def)
  with Nil show ?case by auto
next
  case (Cons m ms)
  obtain sends l1 h1 h2 where a: "rx_cycle coredump_get coredump_received m 0 l h = Some (True, sends, l1, h1)"
    "cd_complete l1 sends h1 = Some (snd (spec_message m (cd_abs l h)), h2)" "cd_inv l1 h2"
    "cd_abs l1 h2 = fst (spec_message m (cd_abs l h))" "live h2 = (live h - cd_owns l) \<union> cd_owns l1"
    "oracle_total h2" "cd_owns l1 \<inter> live h \<subseteq> cd_owns l"
    using cd_delivery_ok [OF Cons.prems(1) _ Cons.prems(2), of m] Cons.prems(3) by auto
  obtain l' h' where b: "cd_session ms l1 h2 = Some (fst (spec_session ms (cd_abs l1 h2)), l', h')"
    "cd_inv l' h'" "cd_abs l' h' = snd (spec_session ms (cd_abs l1 h2))"
    "live h' = (live h2 - cd_owns l1) \<union> cd_owns l'" "oracle_total h'"
    using Cons.IH [OF a(3) a(6)] Cons.prems(3) by auto
  show ?case
  proof (intro exI conjI)
    show "cd_session (m # ms) l h = Some (fst (spec_session (m # ms) (cd_abs l h)), l', h')"
      using a b(1) by (simp add: split_beta)
    show "live h' = (live h - cd_owns l) \<union> cd_owns l'"
      unfolding b(4) a(5) using a(7) by auto
  qed (use a b in \<open>simp_all add: split_beta\<close>)
qed

section \<open>Any events\<close>

text \<open>
  Messages with any content and transfer status, expiries of the timer and the debug command, in any
  order and with any allocation failing; the packets for \<open>hsspi_send\<close> are the core's.
\<close>

datatype cd_event = Reception "byte list" int | Timer_Expires | Force

fun cd_event_sized :: "cd_event \<Rightarrow> bool" where
  "cd_event_sized (Reception m status) \<longleftrightarrow> length m < 65536 \<and> cd_msg_ok coredump_layer_init m"
| "cd_event_sized _ \<longleftrightarrow> True"

fun cd_event_step :: "cd_event \<Rightarrow> coredump_layer \<Rightarrow> kheap \<Rightarrow> (coredump_layer \<times> kheap) option" where
  "cd_event_step (Reception m status) l h =
     map_option (\<lambda>(_, _, l, h). (l, h)) (rx_cycle coredump_get coredump_received m status l h)"
| "cd_event_step Timer_Expires l h =
     map_option (\<lambda>(l, _, h). (l, h)) (if cd_timer l then corredump_on_expired_timer l h else Some (l, None, h))"
| "cd_event_step Force l h = map_option (\<lambda>(_, h). (l, h)) (debug_coredump_force h)"

fun cd_events :: "cd_event list \<Rightarrow> coredump_layer \<Rightarrow> kheap \<Rightarrow> (coredump_layer \<times> kheap) option" where
  "cd_events [] l h = Some (l, h)"
| "cd_events (e # es) l h = do { (l, h) \<leftarrow> cd_event_step e l h; cd_events es l h }"

lemma make_packet_inv:
  assumes inv: "cd_inv l h" and n: "length bytes < 65536"
  shows "\<exists>b h'. coredump_make_packet bytes h = Some (b, h') \<and> cd_inv l h' \<and> cd_bytes l h' = cd_bytes l h"
proof -
  have ok: "heap_ok h" using inv by (simp add: cd_inv_def)
  obtain b h' where a: "coredump_make_packet bytes h = Some (b, h')" "heap_ok h'" and f: "frame {} h h'"
    using coredump_make_packet_ok [OF ok n] by blast
  have same: "hp_mem h' k = hp_mem h k" if "k \<in> cd_owns l" for k
    using f inv that by (auto simp: frame_def cd_inv_def cd_owns_def heap_ok_live)
  show ?thesis using a cd_inv_frame [OF inv same a(2)] by blast
qed

lemma cd_event_ok:
  assumes inv: "cd_inv l h" and ok: "cd_event_sized e"
  shows "\<exists>l' h'. cd_event_step e l h = Some (l', h') \<and> cd_inv l' h'"
proof (cases e)
  case (Reception m status)
  then have "length m < 65536" "cd_msg_ok l m" using ok by (simp_all add: cd_msg_ok_def)
  then obtain acc s l' h' where "rx_cycle coredump_get coredump_received m status l h = Some (acc, s, l', h')"
    "cd_inv l' h'"
    using coredump_ul.rx_cycle_ok [OF inv] by blast
  then show ?thesis using Reception by simp
next
  case Timer_Expires
  then show ?thesis
    using make_packet_inv [OF inv, of "[COREDUMP_RCV_STATUS, of_nat (cd_status l)]"] inv
    by (auto simp: corredump_on_expired_timer_def coredump_send_rcv_status_def cd_inv_def)
next
  case Force
  then show ?thesis using make_packet_inv [OF inv, of "[COREDUMP_FORCE_CMD]"]
    by (auto simp: debug_coredump_force_def)
qed

section \<open>Properties\<close>

text \<open>
  No memory fault: whatever messages arrive and however the transfers end, whichever
  allocations fail, and whenever the timer expires or user space forces a coredump, every step
  returns and keeps the invariant (at most \<open>cd_size\<close> bytes stored, in a live allocation of that size),
  as long as each announced size leaves room for the 32-bit sum of the overflow check.
\<close>

lemma coredump_safe:
  assumes "heap_ok h" and "\<forall>e \<in> set es. cd_event_sized e"
  shows "\<exists>l' h'. cd_events es coredump_layer_init h = Some (l', h') \<and> cd_inv l' h'"
proof -
  have "\<exists>l' h'. cd_events es l h = Some (l', h') \<and> cd_inv l' h'"
    if "cd_inv l h" "\<forall>e \<in> set es. cd_event_sized e" for l
    using that
  proof (induction es arbitrary: l h)
    case (Cons e es)
    then obtain l1 h1 where "cd_event_step e l h = Some (l1, h1)" "cd_inv l1 h1"
      using cd_event_ok by fastforce
    then show ?case using Cons by simp
  qed simp
  then show ?thesis using cd_inv_init [OF assms(1)] assms(2) by blast
qed

text \<open>
  Claim C5. While memory is available the layer is exactly the specified machine: for every
  sequence of messages of a fresh layer, the coredump kept and the replies sent are those of
  \<open>spec_session\<close>, every packet is freed, and nothing but the coredump itself stays allocated.
\<close>

theorem coredump_session_refines:
  assumes "heap_ok h" "oracle_total h" and "\<forall>m \<in> set ms. cd_sized m"
  shows "\<exists>l' h'. cd_session ms coredump_layer_init h = Some (fst (spec_session ms None), l', h') \<and>
    cd_abs l' h' = snd (spec_session ms None) \<and> live h' = live h \<union> cd_owns l'"
proof -
  have i: "cd_abs coredump_layer_init h = None" "cd_owns coredump_layer_init = {}"
    by (simp_all add: coredump_layer_init_def cd_abs_def cd_bytes_def cd_owns_def)
  show ?thesis using cd_session_ok [OF cd_inv_init [OF assms(1)] assms(2,3)] unfolding i by auto
qed

theorem coredump_session_refines_witness:
  "\<exists>l' h'. cd_session [[0, 3, 0, 0, 0, 6, 0], [1, 1, 2], [1, 7, 8], [7, 7], [1, 3]] coredump_layer_init empty_heap
     = Some ([[2, 1]], l', h') \<and> cd_abs l' h' = Some (3, 6, 1, [1, 2, 3]) \<and> live h' = cd_owns l'"
proof -
  let ?ms = "[[0, 3, 0, 0, 0, 6, 0], [1, 1, 2], [1, 7, 8], [7, 7], [1, 3]] :: byte list list"
  have "\<forall>m \<in> set ?ms. cd_sized m"
    by (simp add: cd_sized_def cd_msg_ok_def COREDUMP_HEADER_NTF_def chunk_def)
  moreover have "spec_session ?ms None = ([[2, 1]], Some (3, 6, 1, [1, 2, 3]))"
    by (simp add: spec_message_def spec_header_def COREDUMP_HEADER_NTF_def COREDUMP_BODY_NTF_def
        COREDUMP_RCV_STATUS_def COREDUMP_RCV_ACK_def COREDUMP_RCV_NACK_def chunk_def
        checksum_def Let_def)
  moreover have "live empty_heap = {}" "oracle_total empty_heap"
    by (simp_all add: live_def empty_heap_def oracle_total_def)
  ultimately show ?thesis
    using coredump_session_refines [OF heap_ok_empty, of ?ms] by auto
qed

lemma spec_bodies:
  "bodies \<noteq> [] \<Longrightarrow> [] \<notin> set bodies \<Longrightarrow> length got + length (concat bodies) = n \<Longrightarrow>
   spec_session (map ((#) COREDUMP_BODY_NTF) bodies) (Some (n, crc, COREDUMP_RCV_NACK, got)) =
     (let status = (if checksum (got @ concat bodies) = crc then COREDUMP_RCV_ACK else COREDUMP_RCV_NACK)
      in ([[COREDUMP_RCV_STATUS, of_nat status]], Some (n, crc, status, got @ concat bodies)))"
proof (induction bodies arbitrary: got)
  case (Cons b bs)
  have tags: "COREDUMP_BODY_NTF \<noteq> COREDUMP_HEADER_NTF"
    by (simp add: COREDUMP_BODY_NTF_def COREDUMP_HEADER_NTF_def)
  show ?case
  proof (cases bs)
    case Nil
    then show ?thesis using Cons.prems tags by (simp add: spec_message_def Let_def)
  next
    case (Cons b2 bs2)
    then have b: "bs \<noteq> []" "[] \<notin> set bs" "0 < length (concat bs)" using Cons.prems by auto
    moreover have "length (concat (b # bs)) = length b + length (concat bs)" by simp
    ultimately have "length got + length b < n" using Cons.prems(3) by linarith
    then show ?thesis using Cons.IH [of "got @ b"] b Cons.prems tags
      by (simp add: spec_message_def Let_def)
  qed
qed simp

lemma coredump_transfer_ok:
  assumes "cd_inv l h" "oracle_total h"
    and hdr: "6 \<le> length hdr" "length hdr < 65535" "le32 (chunk hdr 0 4) = length (concat bodies)"
    and size: "length (concat bodies) + 65535 < 4294967296"
    and bodies: "bodies \<noteq> []" "[] \<notin> set bodies" "\<forall>b \<in> set bodies. length b < 65535"
  shows "\<exists>l' h'. cd_session ((COREDUMP_HEADER_NTF # hdr) # map ((#) COREDUMP_BODY_NTF) bodies) l h =
      Some ([[COREDUMP_RCV_STATUS, if checksum (concat bodies) = le16 (chunk hdr 4 2) then 1 else 0]], l', h') \<and>
    cd_bytes l' h' = Some (concat bodies) \<and> debug_coredump_get l' = (cd_data l', length (concat bodies)) \<and>
    cd_inv l' h'"
proof -
  let ?ms = "(COREDUMP_HEADER_NTF # hdr) # map ((#) COREDUMP_BODY_NTF) bodies"
  have sized: "\<forall>m \<in> set ?ms. cd_sized m" using hdr size bodies
    by (auto simp: cd_sized_def cd_msg_ok_def COREDUMP_BODY_NTF_def COREDUMP_HEADER_NTF_def)
  have "length (concat bodies) \<noteq> 0" using bodies by (cases bodies) auto
  then have h: "spec_header hdr = Some (length (concat bodies), le16 (chunk hdr 4 2), COREDUMP_RCV_NACK, [])"
    using hdr by (simp add: spec_header_def)
  have sp: "spec_session ?ms (cd_abs l h) =
     (let status = (if checksum (concat bodies) = le16 (chunk hdr 4 2) then COREDUMP_RCV_ACK else COREDUMP_RCV_NACK)
      in ([[COREDUMP_RCV_STATUS, of_nat status]],
          Some (length (concat bodies), le16 (chunk hdr 4 2), status, concat bodies)))"
    using hdr h spec_bodies [OF bodies(1,2), of "[]"] by (simp add: spec_message_def Let_def)
  from cd_session_ok [OF assms(1,2) sized] show ?thesis
    unfolding sp Let_def
    using cd_bytes_facts(1)
    by (fastforce simp: cd_abs_def debug_coredump_get_def COREDUMP_RCV_ACK_def COREDUMP_RCV_NACK_def)
qed



text \<open>
  Replacing a coredump: \<open>debug_coredump_get\<close> hands out the layer's pointer, and nothing keeps
  a new header from reallocating it.  Afterwards the pointer and length read earlier refer to freed
  memory, so that using them is a fault; and if the allocation fails, the old coredump stays
  allocated while the layer has forgotten it.
\<close>

lemma coredump_new_header:
  assumes inv: "cd_inv l h" and k: "cd_data l = Ptr k" and wr: "0 < cd_wr_idx l"
    and sz: "0 < chn_size chn" "chn_size chn + 65535 < 4294967296"
  shows "\<exists>l' h'. coredump_header_ntf_received l chn h = Some (l', h') \<and>
    (if hp_oracle h (hp_next h) = None
     then cd_data l' = NullPtr \<and> hp_mem h' k = hp_mem h k \<and> hp_mem h' k \<noteq> None
     else (case debug_coredump_get l of (data, len) \<Rightarrow> heap_read h' data 0 len = None))"
proof -
  obtain bs where bs: "hp_mem h k = Some bs" "heap_ok h" using inv k by (auto simp: cd_inv_def)
  then have "k \<noteq> hp_next h" using heap_ok_live by fastforce
  then show ?thesis using k wr sz bs
    by (auto simp: coredump_header_ntf_received_def krealloc_def Let_def debug_coredump_get_def
        heap_read_def split: option.splits)
qed

end
