(* ===== verification/Log.thy ===== *)
theory Log
  imports Rb Coredump
begin

text \<open>
  The log layer (hsspi_log.c).  It keeps the firmware's traces in the ring buffer of \<open>Rb\<close> and the
  firmware's log modules in an array that debugfs entries point into.  Arrays are numbered like other
  allocations and kept in \<open>lg_arrays\<close>; a pointer to a module is the number and an index, and using it
  after its array was freed is a fault.  A \<open>completion\<close> is a number; it lives on the stack of the
  waiting reader (\<open>lg_waiting\<close>), and completing one whose reader has returned is a fault.  The calls
  into debug.c and the completions made are recorded in \<open>lg_events\<close>.
\<close>

definition LOG_CID_TRACE_NTF :: nat where "LOG_CID_TRACE_NTF = 0"
definition LOG_CID_SET_LOG_LVL :: nat where "LOG_CID_SET_LOG_LVL = 1"
definition LOG_CID_GET_LOG_LVL :: nat where "LOG_CID_GET_LOG_LVL = 2"
definition LOG_CID_GET_LOG_SRC :: nat where "LOG_CID_GET_LOG_SRC = 3"

text \<open>\<open>lm_name\<close> is the string without its final zero; the array \<open>name\<close> has 64 bytes.\<close>

record log_module =
  lm_id :: byte
  lm_lvl :: byte
  lm_name :: "byte list"
  lm_read_done :: "nat option"

datatype log_event = New_trace | Module_entry nat nat | Completed nat

record log_layer =
  lg_count :: nat
  lg_modules :: kptr
  lg_arrays :: "nat \<Rightarrow> log_module list option"
  lg_rb :: rb
  lg_enabled :: bool
  lg_waiting :: "nat set"
  lg_events :: "log_event list"

type_synonym log_packet = hsspi_block

section \<open>Packets\<close>

definition log_packet_alloc :: "nat \<Rightarrow> kheap \<Rightarrow> (log_packet option \<times> kheap) option" where
  "log_packet_alloc len h =
     (let (ok, h1) = kzalloc_struct h in
        if \<not> ok then Some (None, h1)
        else case hsspi_init_block zero_block (u16 len) h1 of
          None \<Rightarrow> None
        | Some (rc, p, h2) \<Rightarrow> if rc \<noteq> 0 then Some (None, h2) else Some (Some p, h2))"

definition log_packet_free :: "log_packet \<Rightarrow> kheap \<Rightarrow> kheap option" where
  "log_packet_free p h = map_option snd (hsspi_deinit_block p h)"

definition log_packet_hdr :: "nat \<Rightarrow> nat \<Rightarrow> byte list" where
  "log_packet_hdr cmd_id b_size = le16_bytes cmd_id @ le16_bytes b_size"

definition encode_packet :: "byte list \<Rightarrow> kheap \<Rightarrow> (log_packet option \<times> kheap) option" where
  "encode_packet msg h =
     (case log_packet_alloc (length msg) h of
        None \<Rightarrow> None
      | Some (None, h1) \<Rightarrow> Some (None, h1)
      | Some (Some p, h1) \<Rightarrow> map_option (\<lambda>h2. (Some p, h2)) (heap_write h1 (blk_data p) 0 msg))"

definition encode_get_log_sources_packet :: "kheap \<Rightarrow> (log_packet option \<times> kheap) option" where
  "encode_get_log_sources_packet = encode_packet (log_packet_hdr LOG_CID_GET_LOG_SRC 0)"

definition encode_set_log_level_packet :: "byte \<Rightarrow> byte \<Rightarrow> kheap \<Rightarrow> (log_packet option \<times> kheap) option" where
  "encode_set_log_level_packet mid lvl = encode_packet (log_packet_hdr LOG_CID_SET_LOG_LVL 2 @ [mid, lvl])"

definition encode_get_log_level_packet :: "byte \<Rightarrow> kheap \<Rightarrow> (log_packet option \<times> kheap) option" where
  "encode_get_log_level_packet mid = encode_packet (log_packet_hdr LOG_CID_GET_LOG_LVL 1 @ [mid])"

definition log_get ::
  "log_layer \<Rightarrow> nat \<Rightarrow> kheap \<Rightarrow> (log_packet option \<times> log_layer \<times> kheap) option" where
  "log_get layer len h = map_option (\<lambda>(p, h'). (p, layer, h')) (log_packet_alloc len h)"

definition log_sent :: "log_layer \<Rightarrow> log_packet \<Rightarrow> int \<Rightarrow> kheap \<Rightarrow> (log_layer \<times> kheap) option" where
  "log_sent layer p status h = map_option (\<lambda>h'. (layer, h')) (log_packet_free p h)"

section \<open>Responses\<close>

text \<open>
  The loop of \<open>parse_log_sources_response\<close> over what is left of the block.  Reading past its end, or
  a name that does not fit the 64 bytes of \<open>log_module.name\<close>, is a fault.
\<close>

fun parse_modules :: "nat \<Rightarrow> byte list \<Rightarrow> log_module list option" where
  "parse_modules 0 data = Some []"
| "parse_modules (Suc n) (mid # lvl # data) =
     (let name = takeWhile (\<lambda>c. c \<noteq> 0) data in
        if length name = length data \<or> 64 \<le> length name then None
        else map_option (\<lambda>ms. \<lparr>lm_id = mid, lm_lvl = lvl, lm_name = name, lm_read_done = None\<rparr> # ms)
               (parse_modules n (drop (length name + 1) data)))"
| "parse_modules (Suc n) _ = None"

definition free_modules :: "log_layer \<Rightarrow> log_layer option" where
  "free_modules layer =
     (case lg_modules layer of
        Ptr k \<Rightarrow> if lg_arrays layer k = None then None
                 else Some (layer\<lparr>lg_arrays := (lg_arrays layer)(k := None)\<rparr>)
      | _ \<Rightarrow> Some layer)"

text \<open>\<open>kcalloc\<close> of the module array.\<close>

definition alloc_modules :: "nat \<Rightarrow> kheap \<Rightarrow> kptr \<times> kheap" where
  "alloc_modules n h =
     (if n = 0 then (ZeroPtr, h)
      else let (ok, h') = kzalloc_struct h in (if ok then Ptr (hp_next h) else NullPtr, h'))"

definition parse_log_sources_response ::
  "log_layer \<Rightarrow> byte list \<Rightarrow> kheap \<Rightarrow> (int \<times> log_layer \<times> kheap) option" where
  "parse_log_sources_response layer data h =
     (if data = [] then None
      else do {
        let count = unat (hd data);
        layer \<leftarrow> free_modules (layer\<lparr>lg_count := count\<rparr>);
        let (mods, h) = alloc_modules count h;
        let layer = layer\<lparr>lg_modules := mods\<rparr>;
        case mods of
          NullPtr \<Rightarrow> Some (1, layer, h)
        | ZeroPtr \<Rightarrow> Some (0, layer, h)
        | Ptr k \<Rightarrow> do {
            ms \<leftarrow> parse_modules count (tl data);
            Some (0, layer\<lparr>lg_arrays := (lg_arrays layer)(k \<mapsto> ms),
                           lg_events := lg_events layer @ map (Module_entry k) [0..<count]\<rparr>, h)
          }
      })"

text \<open>The modules of the loops over \<open>log_modules\<close>: dereferenced only when there are any.\<close>

definition modules_at :: "log_layer \<Rightarrow> nat \<Rightarrow> log_module list option" where
  "modules_at layer n =
     (if n = 0 then Some []
      else case lg_modules layer of
        Ptr k \<Rightarrow> (case lg_arrays layer k of
            None \<Rightarrow> None
          | Some ms \<Rightarrow> if length ms < n then None else Some ms)
      | _ \<Rightarrow> None)"

definition set_level :: "byte \<Rightarrow> byte \<Rightarrow> log_module \<Rightarrow> log_module" where
  "set_level src_id src_lvl m = (if lm_id m = src_id then m\<lparr>lm_lvl := src_lvl\<rparr> else m)"

definition completions :: "byte \<Rightarrow> log_module list \<Rightarrow> nat list" where
  "completions src_id ms = List.map_filter (\<lambda>m. if lm_id m = src_id then lm_read_done m else None) ms"

definition parse_get_log_lvl_response :: "log_layer \<Rightarrow> byte list \<Rightarrow> (int \<times> log_layer) option" where
  "parse_get_log_lvl_response layer data =
     (if length data < 2 then None
      else do {
        ms \<leftarrow> modules_at layer (lg_count layer);
        let cs = completions (data ! 0) (take (lg_count layer) ms);
        if \<not> set cs \<subseteq> lg_waiting layer then None
        else Some (0,
          (case lg_modules layer of
             Ptr k \<Rightarrow> layer\<lparr>lg_arrays := (lg_arrays layer)(k :=
                 (if lg_count layer = 0 then lg_arrays layer k
                  else Some (map (set_level (data ! 0) (data ! 1)) (take (lg_count layer) ms)
                         @ drop (lg_count layer) ms)))\<rparr>
           | _ \<Rightarrow> layer)
          \<lparr>lg_events := lg_events layer @ map Completed cs\<rparr>)
      })"

text \<open>\<open>rest\<close> is the block after the header: the parsers do not look at \<open>b_size\<close>.\<close>

definition log_dispatch ::
  "log_layer \<Rightarrow> nat \<Rightarrow> nat \<Rightarrow> byte list \<Rightarrow> kheap \<Rightarrow> (log_layer \<times> kheap) option" where
  "log_dispatch layer cmd_id b_size rest h =
     (if cmd_id = LOG_CID_TRACE_NTF then
        (case rb_push (lg_rb layer) rest b_size of
           Some (Some (_, rb)) \<Rightarrow>
             Some (layer\<lparr>lg_rb := rb, lg_events := lg_events layer @ [New_trace]\<rparr>, h)
         | _ \<Rightarrow> None)
      else if cmd_id = LOG_CID_SET_LOG_LVL then Some (layer, h)
      else if cmd_id = LOG_CID_GET_LOG_LVL then
        map_option (\<lambda>(_, layer). (layer, h)) (parse_get_log_lvl_response layer rest)
      else if cmd_id = LOG_CID_GET_LOG_SRC then
        map_option (\<lambda>(_, layer, h). (layer, h)) (parse_log_sources_response layer rest h)
      else Some (layer, h))"

definition log_received ::
  "log_layer \<Rightarrow> log_packet \<Rightarrow> int \<Rightarrow> kheap \<Rightarrow> (log_layer \<times> log_packet list \<times> kheap) option" where
  "log_received layer p status h = do {
     (layer, h) \<leftarrow>
       (if status \<noteq> 0 \<or> blk_length p < 4 then Some (layer, h)
        else do {
          bytes \<leftarrow> heap_read h (blk_data p) 0 (blk_length p);
          let cmd_id = le16 (chunk bytes 0 2);
          let b_size = le16 (chunk bytes 2 2);
          if blk_length p < 4 + b_size then Some (layer, h)
          else log_dispatch layer cmd_id b_size (drop 4 bytes) h
        });
     h \<leftarrow> log_packet_free p h;
     Some (layer, [], h)
   }"

section \<open>Trace operations of debugfs\<close>

text \<open>
  \<open>ret\<close> is what \<open>hsspi_send\<close> returns.  The result names the packet the core took over.
\<close>

definition send_packet ::
  "int \<Rightarrow> log_packet \<Rightarrow> kheap \<Rightarrow> (log_packet option \<times> kheap) option" where
  "send_packet ret p h = (if ret \<noteq> 0 then map_option (\<lambda>h'. (None, h')) (log_packet_free p h) else Some (Some p, h))"

definition log_enable_set ::
  "log_layer \<Rightarrow> bool \<Rightarrow> int \<Rightarrow> kheap \<Rightarrow> (log_layer \<times> log_packet option \<times> kheap) option" where
  "log_enable_set layer enable ret h =
     (if lg_enabled layer then Some (layer, None, h)
      else do {
        (p, h) \<leftarrow> encode_get_log_sources_packet h;
        case p of
          None \<Rightarrow> Some (layer, None, h)
        | Some p \<Rightarrow> do {
            (q, h) \<leftarrow> send_packet ret p h;
            Some (if ret \<noteq> 0 then layer else layer\<lparr>lg_enabled := enable\<rparr>, q, h)
          }
      })"

definition log_enable_get :: "log_layer \<Rightarrow> bool" where
  "log_enable_get layer = lg_enabled layer"

text \<open>A module reached through a debugfs entry: array \<open>k\<close>, index \<open>i\<close>.\<close>

definition module_deref :: "log_layer \<Rightarrow> nat \<Rightarrow> nat \<Rightarrow> log_module option" where
  "module_deref layer k i =
     (case lg_arrays layer k of
        None \<Rightarrow> None
      | Some ms \<Rightarrow> if i < length ms then Some (ms ! i) else None)"

definition log_level_set ::
  "log_layer \<Rightarrow> nat \<Rightarrow> nat \<Rightarrow> nat \<Rightarrow> int \<Rightarrow> kheap \<Rightarrow> (log_packet option \<times> kheap) option" where
  "log_level_set layer k i lvl ret h = do {
     m \<leftarrow> module_deref layer k i;
     (p, h) \<leftarrow> encode_set_log_level_packet (lm_id m) (of_nat lvl) h;
     case p of
       None \<Rightarrow> Some (None, h)
     | Some p \<Rightarrow> send_packet ret p h
   }"

text \<open>
  \<open>log_level_get\<close> up to its wait: \<open>cmpl\<close> is the completion on its stack.  The first component is the
  returned level when it does not wait.
\<close>

definition log_level_get_start ::
  "log_layer \<Rightarrow> nat \<Rightarrow> nat \<Rightarrow> nat \<Rightarrow> int \<Rightarrow> kheap \<Rightarrow>
   (nat option \<times> log_layer \<times> log_packet option \<times> kheap) option" where
  "log_level_get_start layer k i cmpl ret h = do {
     m \<leftarrow> module_deref layer k i;
     (p, h) \<leftarrow> encode_get_log_level_packet (lm_id m) h;
     case p of
       None \<Rightarrow> Some (Some 0, layer, None, h)
     | Some p \<Rightarrow> do {
         ms \<leftarrow> lg_arrays layer k;
         let layer = layer\<lparr>lg_arrays := (lg_arrays layer)(k \<mapsto> ms[i := m\<lparr>lm_read_done := Some cmpl\<rparr>])\<rparr>;
         (q, h) \<leftarrow> send_packet ret p h;
         if ret \<noteq> 0 then Some (Some 0, layer, q, h)
         else Some (None, layer\<lparr>lg_waiting := insert cmpl (lg_waiting layer)\<rparr>, q, h)
       }
   }"

text \<open>After the wait: the level is read and the stack frame with the completion is left.\<close>

definition log_level_get_finish ::
  "log_layer \<Rightarrow> nat \<Rightarrow> nat \<Rightarrow> nat \<Rightarrow> (nat \<times> log_layer) option" where
  "log_level_get_finish layer k i cmpl =
     map_option (\<lambda>m. (unat (lm_lvl m), layer\<lparr>lg_waiting := lg_waiting layer - {cmpl}\<rparr>)) (module_deref layer k i)"

definition log_trace_get_next :: "bool \<Rightarrow> log_layer \<Rightarrow> ((byte list option \<times> nat) \<times> log_layer) option" where
  "log_trace_get_next alloc layer =
     map_option (\<lambda>(r, rb). (r, layer\<lparr>lg_rb := rb\<rparr>)) (rb_pop alloc (lg_rb layer))"

definition log_trace_get_next_size :: "log_layer \<Rightarrow> (nat \<times> log_layer) option" where
  "log_trace_get_next_size layer =
     map_option (\<lambda>(n, rb). (n, layer\<lparr>lg_rb := rb\<rparr>)) (rb_next_size (lg_rb layer))"

definition log_trace_next_avail :: "log_layer \<Rightarrow> bool" where
  "log_trace_next_avail layer = rb_can_pop (lg_rb layer)"

definition log_trace_reset :: "log_layer \<Rightarrow> log_layer" where
  "log_trace_reset layer = layer\<lparr>lg_rb := rb_reset (lg_rb layer)\<rparr>"

section \<open>Life cycle\<close>

definition log_layer_init :: "byte list option \<Rightarrow> int + log_layer" where
  "log_layer_init mem =
     (case rb_init mem TRACE_RB_SIZE of
        Inl e \<Rightarrow> Inl e
      | Inr rb \<Rightarrow> Inr \<lparr>lg_count = 0, lg_modules = NullPtr, lg_arrays = (\<lambda>_. None), lg_rb = rb,
          lg_enabled = False, lg_waiting = {}, lg_events = []\<rparr>)"

definition log_layer_deinit :: "log_layer \<Rightarrow> log_layer option" where
  "log_layer_deinit layer =
     map_option (\<lambda>l. l\<lparr>lg_rb := rb_deinit (lg_rb l)\<rparr>) (free_modules layer)"

end
