(* ===== verification/Log_Props.thy ===== *)
theory Log_Props
  imports Log Coredump_Props Rb_Props
begin

text \<open>
  The log layer: its parser accepts exactly the well-formed answers, a new list of modules replaces
  the old one, traces reach the ring buffer, a level query returns the level answered, and with a
  firmware that keeps the protocol nothing faults.
\<close>

section \<open>Packets\<close>

text \<open>The packets of the log layer are allocated and freed like those of the coredump layer.\<close>

lemma log_packet_alloc_eq: "log_packet_alloc = coredump_packet_alloc"
  by (intro ext) (simp add: log_packet_alloc_def coredump_packet_alloc_def)

lemma log_packet_free_eq: "log_packet_free = coredump_packet_free"
  by (intro ext) (simp add: log_packet_free_def coredump_packet_free_def)

lemma encode_packet_eq: "encode_packet = coredump_make_packet"
  by (intro ext) (simp add: encode_packet_def coredump_make_packet_def log_packet_alloc_eq)

lemmas log_packet_eqs = log_packet_alloc_eq log_packet_free_eq encode_packet_eq

section \<open>The module list on the wire\<close>

definition modules_bytes :: "log_module list \<Rightarrow> byte list" where
  "modules_bytes ms = concat (map (\<lambda>m. lm_id m # lm_lvl m # lm_name m @ [0]) ms)"

definition module_ok :: "log_module \<Rightarrow> bool" where
  "module_ok m \<longleftrightarrow> 0 \<notin> set (lm_name m) \<and> length (lm_name m) < 64 \<and> lm_read_done m = None"

lemma modules_bytes_simps [simp]:
  "modules_bytes [] = []"
  "modules_bytes (m # ms) = lm_id m # lm_lvl m # lm_name m @ 0 # modules_bytes ms"
  by (simp_all add: modules_bytes_def)

lemma takeWhile_name:
  "0 \<notin> set xs \<Longrightarrow> takeWhile (\<lambda>c. c \<noteq> (0::byte)) (xs @ 0 # ys) = xs"
  by (induction xs) auto

lemma split_name:
  assumes "length (takeWhile (\<lambda>c. c \<noteq> (0::byte)) xs) \<noteq> length xs"
  shows "xs = takeWhile (\<lambda>c. c \<noteq> 0) xs @ 0 # drop (length (takeWhile (\<lambda>c. c \<noteq> 0) xs) + 1) xs"
    "0 \<notin> set (takeWhile (\<lambda>c. c \<noteq> 0) xs)"
proof -
  have d: "dropWhile (\<lambda>c. c \<noteq> 0) xs \<noteq> []"
    using assms by (metis append_Nil2 takeWhile_dropWhile_id)
  then have "hd (dropWhile (\<lambda>c. c \<noteq> 0) xs) = 0" using hd_dropWhile by blast
  with d have "dropWhile (\<lambda>c. c \<noteq> 0) xs = 0 # tl (dropWhile (\<lambda>c. c \<noteq> 0) xs)" by (metis list.collapse)
  then have eq: "xs = takeWhile (\<lambda>c. c \<noteq> 0) xs @ 0 # tl (dropWhile (\<lambda>c. c \<noteq> 0) xs)"
    by (metis takeWhile_dropWhile_id)
  have "drop (length ys + 1) (ys @ 0 # zs) = zs" for ys zs :: "byte list" by simp
  from this [of "takeWhile (\<lambda>c. c \<noteq> 0) xs" "tl (dropWhile (\<lambda>c. c \<noteq> 0) xs)"]
  show "xs = takeWhile (\<lambda>c. c \<noteq> 0) xs @ 0 # drop (length (takeWhile (\<lambda>c. c \<noteq> 0) xs) + 1) xs"
    unfolding eq [symmetric] using eq by simp
  show "0 \<notin> set (takeWhile (\<lambda>c. c \<noteq> 0) xs)" by (auto dest: set_takeWhileD)
qed

lemma parse_modules_bytes:
  "\<forall>m \<in> set ms. module_ok m \<Longrightarrow> parse_modules (length ms) (modules_bytes ms @ rest) = Some ms"
  by (induction ms) (auto simp: module_ok_def takeWhile_name)

lemma parse_modules_Some:
  "parse_modules n data = Some ms \<Longrightarrow>
   length ms = n \<and> (\<forall>m \<in> set ms. module_ok m) \<and> (\<exists>rest. data = modules_bytes ms @ rest)"
proof (induction n data arbitrary: ms rule: parse_modules.induct)
  case (2 n mid lvl data)
  let ?name = "takeWhile (\<lambda>c. c \<noteq> 0) data"
  from 2(2) obtain ms' where l: "length ?name \<noteq> length data" "length ?name < 64"
    and p: "parse_modules n (drop (length ?name + 1) data) = Some ms'"
    and ms: "ms = \<lparr>lm_id = mid, lm_lvl = lvl, lm_name = ?name, lm_read_done = None\<rparr> # ms'"
    by (auto simp: Let_def split: if_splits)
  have i: "length ms' = n \<and> (\<forall>m \<in> set ms'. module_ok m) \<and>
      (\<exists>rest. drop (length ?name + 1) data = modules_bytes ms' @ rest)"
    using 2(1) [OF refl _ p] l by simp
  then obtain rest where "drop (length ?name + 1) data = modules_bytes ms' @ rest" by blast
  with split_name(1) [OF l(1)] have "data = ?name @ 0 # modules_bytes ms' @ rest" by simp
  then show ?case using i l ms split_name(2) [OF l(1)] by (auto simp: module_ok_def)
qed simp_all

section \<open>Invariant\<close>

text \<open>The current array, if any, is the only one alive.\<close>

definition log_inv :: "log_layer \<Rightarrow> kheap \<Rightarrow> bool" where
  "log_inv l h \<longleftrightarrow> heap_ok h \<and> rb_inv 65535 (lg_rb l) \<and>
     (\<forall>k ms. lg_arrays l k = Some ms \<longrightarrow> lg_modules l = Ptr k) \<and>
     (\<forall>k. lg_modules l = Ptr k \<longrightarrow> (\<exists>ms. lg_arrays l k = Some ms \<and> length ms = lg_count l)) \<and>
     (lg_modules l = ZeroPtr \<longrightarrow> lg_count l = 0)"

text \<open>The modules listed; \<open>None\<close> without an array although modules are counted.\<close>

definition log_modules :: "log_layer \<Rightarrow> log_module list option" where
  "log_modules l = modules_at l (lg_count l)"

text \<open>
  What the firmware may send in the current state: answers that are well formed, and level answers
  only while the readers asking for that module wait.
\<close>

definition level_ok :: "log_layer \<Rightarrow> byte list \<Rightarrow> bool" where
  "level_ok l data \<longleftrightarrow> 2 \<le> length data \<and>
     (\<exists>ms. log_modules l = Some ms \<and> set (completions (data ! 0) ms) \<subseteq> lg_waiting l)"

definition sources_ok :: "byte list \<Rightarrow> bool" where
  "sources_ok data \<longleftrightarrow> data \<noteq> [] \<and> parse_modules (unat (hd data)) (tl data) \<noteq> None"

definition log_msg_ok :: "log_layer \<Rightarrow> byte list \<Rightarrow> bool" where
  "log_msg_ok l bytes \<longleftrightarrow>
     (4 \<le> length bytes \<and> 4 + le16 (chunk bytes 2 2) \<le> length bytes \<longrightarrow>
       (le16 (chunk bytes 0 2) = LOG_CID_GET_LOG_LVL \<longrightarrow> level_ok l (drop 4 bytes)) \<and>
       (le16 (chunk bytes 0 2) = LOG_CID_GET_LOG_SRC \<longrightarrow> sources_ok (drop 4 bytes)))"

lemmas log_cids = LOG_CID_TRACE_NTF_def LOG_CID_SET_LOG_LVL_def LOG_CID_GET_LOG_LVL_def LOG_CID_GET_LOG_SRC_def

lemma log_inv_heap: "log_inv l h \<Longrightarrow> heap_ok h' \<Longrightarrow> log_inv l h'"
  by (simp add: log_inv_def)

lemma log_modules_array:
  "log_modules l = Some ms \<Longrightarrow> lg_count l \<noteq> 0 \<Longrightarrow> \<exists>k. lg_modules l = Ptr k \<and> lg_arrays l k = Some ms"
  by (auto simp: log_modules_def modules_at_def split: kptr.splits option.splits if_splits)

lemma log_modules_length:
  assumes inv: "log_inv l h" and ms: "log_modules l = Some ms"
  shows "length ms = lg_count l"
proof (cases "lg_count l = 0")
  case True
  then show ?thesis using ms by (cases "lg_modules l") (simp_all add: log_modules_def modules_at_def)
next
  case False
  then obtain k where "lg_modules l = Ptr k" "lg_arrays l k = Some ms"
    using log_modules_array [OF ms] by blast
  then show ?thesis using inv by (auto simp: log_inv_def)
qed

section \<open>The two responses\<close>

lemma level_response_ok:
  assumes inv: "log_inv l h" and ok: "level_ok l data"
  shows "\<exists>l'. parse_get_log_lvl_response l data = Some (0, l') \<and> log_inv l' h \<and>
    log_modules l' = map_option (map (set_level (data ! 0) (data ! 1))) (log_modules l) \<and>
    lg_events l' = lg_events l @ map Completed (completions (data ! 0) (the (log_modules l))) \<and>
    lg_modules l' = lg_modules l \<and> lg_rb l' = lg_rb l \<and> lg_waiting l' = lg_waiting l \<and>
    lg_enabled l' = lg_enabled l \<and> lg_count l' = lg_count l"
proof -
  obtain ms where ms: "log_modules l = Some ms" and d: "2 \<le> length data"
    and cs: "set (completions (data ! 0) ms) \<subseteq> lg_waiting l"
    using ok by (auto simp: level_ok_def)
  have len: "length ms = lg_count l" by (rule log_modules_length [OF inv ms])
  show ?thesis
  proof (cases "lg_count l = 0")
    case True
    then show ?thesis using inv ms d cs len
      by (cases "lg_modules l")
        (auto simp: parse_get_log_lvl_response_def log_modules_def modules_at_def log_inv_def
          completions_def map_filter_def)
  next
    case False
    then obtain k where k: "lg_modules l = Ptr k" "lg_arrays l k = Some ms"
      using log_modules_array [OF ms] by blast
    then show ?thesis using inv ms d cs len False
      by (auto simp: parse_get_log_lvl_response_def log_modules_def modules_at_def log_inv_def)
  qed
qed

lemma sources_response_ok:
  assumes inv: "log_inv l h" and p: "parse_modules (unat c) data = Some ms"
  shows "\<exists>rc l' h'. parse_log_sources_response l (c # data) h = Some (rc, l', h') \<and> log_inv l' h' \<and>
    same_mem h h' \<and> lg_count l' = unat c \<and> lg_rb l' = lg_rb l \<and> lg_waiting l' = lg_waiting l \<and>
    lg_enabled l' = lg_enabled l \<and> (\<forall>k. k < hp_next h \<longrightarrow> lg_arrays l' k = None) \<and>
    (if unat c \<noteq> 0 \<and> hp_oracle h (hp_next h) = None
     then rc = 1 \<and> lg_modules l' = NullPtr \<and> log_modules l' = None \<and> lg_events l' = lg_events l
     else rc = 0 \<and> log_modules l' = Some ms \<and>
       lg_events l' = lg_events l @ map (Module_entry (hp_next h)) [0..<unat c])"
proof -
  have hok: "heap_ok h" using inv by (simp add: log_inv_def)
  have len: "length ms = unat c" using parse_modules_Some [OF p] by simp
  let ?l = "l\<lparr>lg_count := unat c\<rparr>"
  obtain l1 where f: "free_modules ?l = Some l1" and l1: "lg_arrays l1 = (\<lambda>_. None)" "lg_count l1 = unat c"
    "lg_rb l1 = lg_rb l" "lg_waiting l1 = lg_waiting l" "lg_enabled l1 = lg_enabled l" "lg_events l1 = lg_events l"
  proof (cases "lg_modules l")
    case (Ptr k)
    then have "lg_arrays l k \<noteq> None" "\<And>j. j \<noteq> k \<Longrightarrow> lg_arrays l j = None"
      using inv by (auto simp: log_inv_def)
    then show ?thesis using Ptr that by (auto simp: free_modules_def fun_eq_iff)
  next
    case NullPtr
    moreover then have "lg_arrays l = (\<lambda>_. None)" using inv
      by (auto simp: log_inv_def fun_eq_iff)
    ultimately show ?thesis using that by (simp add: free_modules_def)
  next
    case ZeroPtr
    moreover then have "lg_arrays l = (\<lambda>_. None)" using inv
      by (auto simp: log_inv_def fun_eq_iff)
    ultimately show ?thesis using that by (simp add: free_modules_def)
  qed
  show ?thesis
  proof (cases "unat c = 0")
    case True
    then show ?thesis using f l1 p inv
      by (auto simp: parse_log_sources_response_def alloc_modules_def log_inv_def log_modules_def
          modules_at_def)
  next
    case False
    show ?thesis
    proof (cases "hp_oracle h (hp_next h)")
      case None
      then show ?thesis using False f l1 inv
        by (auto simp: parse_log_sources_response_def alloc_modules_def kzalloc_struct_def log_inv_def
            log_modules_def modules_at_def same_mem_def heap_ok_def)
    next
      case (Some junk)
      then show ?thesis using False f l1 inv p len
        by (auto simp: parse_log_sources_response_def alloc_modules_def kzalloc_struct_def log_inv_def
            log_modules_def modules_at_def same_mem_def heap_ok_def)
    qed
  qed
qed

section \<open>Reception\<close>

lemma rb_push_take: "n \<le> length data \<Longrightarrow> rb_push rb data n = rb_push rb (take n data) n"
  by (simp add: rb_push_def rb_write_entry_def mem_read_def chunk_def Let_def cong: option.case_cong)

lemma rb_push_any:
  assumes "rb_inv 65535 rb" "n \<le> length data" "n < 65536"
  shows "\<exists>rc rb'. rb_push rb data n = Returns (rc, rb') \<and> rb_inv 65535 rb' \<and>
    (if n = 0 then rb' = rb else \<exists>k. rb_log rb' = drop k (rb_log rb) @ [take n data])"
proof (cases "n = 0")
  case True
  then show ?thesis using assms by (simp add: rb_push_def)
next
  case False
  have d: "take n data \<noteq> []" "length (take n data) \<le> 65535" "length (take n data) = n"
    using False assms by auto
  have p: "rb_push rb data n = rb_push rb (take n data) (length (take n data))"
    unfolding d(3) by (rule rb_push_take [OF assms(2)])
  obtain rb' k where "rb_push rb (take n data) (length (take n data)) = Returns (0, rb')" "rb_inv 65535 rb'"
    "rb_log rb' = drop k (rb_log rb) @ [take n data]"
    using rb_push_ok [OF assms(1) d(1,2)] unfolding rb_pushed_def by blast
  then show ?thesis unfolding p using False by auto
qed

lemma log_dispatch_ok:
  assumes inv: "log_inv l h" and n: "n \<le> length rest" "n < 65536"
    and lvl: "cmd = LOG_CID_GET_LOG_LVL \<longrightarrow> level_ok l rest" and src: "cmd = LOG_CID_GET_LOG_SRC \<longrightarrow> sources_ok rest"
  shows "\<exists>l' h'. log_dispatch l cmd n rest h = Some (l', h') \<and> log_inv l' h' \<and> same_mem h h'"
proof -
  have rb: "rb_inv 65535 (lg_rb l)" using inv by (simp add: log_inv_def)
  consider "cmd = LOG_CID_TRACE_NTF" | "cmd = LOG_CID_GET_LOG_LVL" | "cmd = LOG_CID_GET_LOG_SRC"
    | "cmd \<notin> {LOG_CID_TRACE_NTF, LOG_CID_GET_LOG_LVL, LOG_CID_GET_LOG_SRC}" by auto
  then show ?thesis
  proof cases
    case 1
    obtain rc rb' where p: "rb_push (lg_rb l) rest n = Returns (rc, rb')" "rb_inv 65535 rb'"
      using rb_push_any [OF rb n] by blast
    have "log_inv (l\<lparr>lg_rb := rb', lg_events := lg_events l @ [New_trace]\<rparr>) h"
      using inv p(2) by (simp add: log_inv_def)
    then show ?thesis using 1 p(1) by (simp add: log_dispatch_def)
  next
    case 2
    then obtain l' where "parse_get_log_lvl_response l rest = Some (0, l')" "log_inv l' h"
      using level_response_ok [OF inv, of rest] lvl by blast
    then show ?thesis using 2 by (simp add: log_dispatch_def log_cids)
  next
    case 3
    then obtain c data ms where "rest = c # data" "parse_modules (unat c) data = Some ms"
      using src by (cases rest) (auto simp: sources_ok_def)
    moreover then obtain rc l' h' where "parse_log_sources_response l (c # data) h = Some (rc, l', h')"
      "log_inv l' h'" "same_mem h h'"
      using sources_response_ok [OF inv] by blast
    ultimately show ?thesis using 3 by (simp add: log_dispatch_def log_cids)
  next
    case 4
    then show ?thesis using inv by (simp add: log_dispatch_def)
  qed
qed

lemma log_handle_ok:
  assumes inv: "log_inv l h" and b: "block_holds h p bs" and ok: "status = 0 \<longrightarrow> log_msg_ok l bs"
  shows "\<exists>l' h'. (if status \<noteq> 0 \<or> blk_length p < 4 then Some (l, h)
        else do {
          bytes \<leftarrow> heap_read h (blk_data p) 0 (blk_length p);
          let cmd_id = le16 (chunk bytes 0 2);
          let b_size = le16 (chunk bytes 2 2);
          if blk_length p < 4 + b_size then Some (l, h)
          else log_dispatch l cmd_id b_size (drop 4 bytes) h
        }) = Some (l', h') \<and> log_inv l' h' \<and> same_mem h h'"
proof -
  have l: "blk_length p = length bs" and r: "heap_read h (blk_data p) 0 (blk_length p) = Some bs"
    using b by (auto simp: block_holds_def dest: heap_read_whole)
  let ?n = "le16 (chunk bs 2 2)"
  show ?thesis
  proof (cases "status = 0 \<and> 4 \<le> length bs \<and> 4 + ?n \<le> length bs")
    case False
    then show ?thesis using inv l r by (auto simp: Let_def)
  next
    case True
    then have "?n \<le> length (drop 4 bs)" "?n < 65536" by (auto simp: le16_less)
    from log_dispatch_ok [OF inv this, of "le16 (chunk bs 0 2)"] show ?thesis
      using True ok l r by (auto simp: log_msg_ok_def Let_def)
  qed
qed

lemma log_received_ok:
  assumes inv: "log_inv l h" and b: "block_holds h p bs" and ok: "status = 0 \<longrightarrow> log_msg_ok l bs"
  shows "\<exists>l' h'. log_received l p status h = Some (l', [], h') \<and> log_inv l' h' \<and> frame (blk_keys p) h h'"
proof -
  obtain l' h1 where a: "(if status \<noteq> 0 \<or> blk_length p < 4 then Some (l, h)
        else do {
          bytes \<leftarrow> heap_read h (blk_data p) 0 (blk_length p);
          let cmd_id = le16 (chunk bytes 0 2);
          let b_size = le16 (chunk bytes 2 2);
          if blk_length p < 4 + b_size then Some (l, h)
          else log_dispatch l cmd_id b_size (drop 4 bytes) h
        }) = Some (l', h1)" and i: "log_inv l' h1" and s: "same_mem h h1"
    using log_handle_ok [OF inv b ok] by (elim exE conjE) (rule that)
  have b1: "block_holds h1 p bs" using b s by (simp add: block_holds_def same_mem_bytes)
  have ok1: "heap_ok h1" using i by (simp add: log_inv_def)
  obtain h' where f: "log_packet_free p h1 = Some h'" "heap_ok h'" "frame (blk_keys p) h1 h'"
    "hp_next h' = hp_next h1"
    using packet_free_ok [OF ok1 b1] unfolding log_packet_eqs by blast
  have "frame (blk_keys p) h h'"
    by (rule frame_trans [OF frame_same_mem [OF s] f(3)]) simp
  moreover have "log_inv l' h'" by (rule log_inv_heap [OF i f(2)])
  ultimately show ?thesis using a f(1) by (simp add: log_received_def)
qed

text \<open>The layer owns no block: its arrays are not reached through the heap of the blocks.\<close>

interpretation log_ul: upper_layer log_inv "\<lambda>_. {}" log_msg_ok log_get log_received
proof (unfold_locales, goal_cases)
  case (1 l h) then show ?case by (simp add: log_inv_def)
next
  case (2 l h k) then show ?case by simp
next
  case (3 l h h') then show ?case using log_inv_heap by blast
next
  case (4 l h n)
  have ok: "heap_ok h" using 4 by (simp add: log_inv_def)
  obtain b h' where a: "log_packet_alloc n h = Some (b, h')" "heap_ok h'" "frame {} h h'"
    "case b of None \<Rightarrow> \<not> oracle_total h \<and> live h' = live h
     | Some p \<Rightarrow> fresh_block h h' n p \<and> live h' = live h \<union> blk_keys p"
    using coredump_packet_alloc_ok [OF ok 4(2)] unfolding log_packet_eqs by blast
  have "log_inv l h'" by (rule log_inv_heap [OF 4(1) a(2)])
  then show ?case using a by (cases b) (auto simp: log_get_def)
next
  case (5 l h blk bs status)
  have "status = 0 \<longrightarrow> log_msg_ok l bs" using 5(5) by blast
  from log_received_ok [OF 5(1,2) this] show ?case by auto
qed

section \<open>Operations\<close>

datatype log_op =
    Log_receive "byte list" int
  | Log_enable bool int
  | Log_set_level nat nat nat int
  | Log_get_level nat nat nat int
  | Log_got_level nat nat nat
  | Log_next_trace
  | Log_next_size
  | Log_reset

text \<open>
  When an operation may happen: messages that keep the protocol, and module handles of the current
  array.  The results of \<open>hsspi_send\<close> are arbitrary.
\<close>

fun log_op_ok :: "log_op \<Rightarrow> log_layer \<Rightarrow> bool" where
  "log_op_ok (Log_receive bs status) l \<longleftrightarrow> length bs < 65536 \<and> (status = 0 \<longrightarrow> log_msg_ok l bs)"
| "log_op_ok (Log_set_level k i _ _) l \<longleftrightarrow> module_deref l k i \<noteq> None"
| "log_op_ok (Log_get_level k i _ _) l \<longleftrightarrow> module_deref l k i \<noteq> None"
| "log_op_ok (Log_got_level k i _) l \<longleftrightarrow> module_deref l k i \<noteq> None"
| "log_op_ok _ l \<longleftrightarrow> True"

fun log_step :: "log_op \<Rightarrow> log_layer \<Rightarrow> kheap \<Rightarrow> (log_layer \<times> kheap) option" where
  "log_step (Log_receive bs status) l h =
     map_option (\<lambda>(_, _, l, h). (l, h)) (rx_cycle log_get log_received bs status l h)"
| "log_step (Log_enable b ret) l h = map_option (\<lambda>(l, _, h). (l, h)) (log_enable_set l b ret h)"
| "log_step (Log_set_level k i lvl ret) l h = map_option (\<lambda>(_, h). (l, h)) (log_level_set l k i lvl ret h)"
| "log_step (Log_get_level k i c ret) l h =
     map_option (\<lambda>(_, l, _, h). (l, h)) (log_level_get_start l k i c ret h)"
| "log_step (Log_got_level k i c) l h = map_option (\<lambda>(_, l). (l, h)) (log_level_get_finish l k i c)"
| "log_step Log_next_trace l h = map_option (\<lambda>(_, l). (l, h)) (log_trace_get_next True l)"
| "log_step Log_next_size l h = map_option (\<lambda>(_, l). (l, h)) (log_trace_get_next_size l)"
| "log_step Log_reset l h = Some (log_trace_reset l, h)"

fun log_run :: "log_op list \<Rightarrow> log_layer \<Rightarrow> kheap \<Rightarrow> (log_layer \<times> kheap) option" where
  "log_run [] l h = Some (l, h)"
| "log_run (p # ps) l h = do { (l, h) \<leftarrow> log_step p l h; log_run ps l h }"

fun log_ops_ok :: "log_op list \<Rightarrow> log_layer \<Rightarrow> kheap \<Rightarrow> bool" where
  "log_ops_ok [] l h \<longleftrightarrow> True"
| "log_ops_ok (p # ps) l h \<longleftrightarrow> log_op_ok p l \<and>
     (case log_step p l h of None \<Rightarrow> True | Some (l', h') \<Rightarrow> log_ops_ok ps l' h')"

lemma encode_send_ok:
  assumes ok: "heap_ok h" and n: "length msg < 65536"
  shows "\<exists>b h1. encode_packet msg h = Some (b, h1) \<and> heap_ok h1 \<and>
    (case b of None \<Rightarrow> \<not> oracle_total h
     | Some p \<Rightarrow> block_holds h1 p msg \<and> (\<exists>q h2. send_packet ret p h1 = Some (q, h2) \<and> heap_ok h2))"
proof -
  obtain b h1 where a: "coredump_make_packet msg h = Some (b, h1)" "heap_ok h1"
    "case b of None \<Rightarrow> \<not> oracle_total h \<and> live h1 = live h
     | Some p \<Rightarrow> block_holds h1 p msg \<and> (\<forall>k \<in> blk_keys p. hp_next h \<le> k) \<and> live h1 = live h \<union> blk_keys p"
    using coredump_make_packet_ok [OF ok n] by blast
  show ?thesis
  proof (cases b)
    case None
    then show ?thesis using a by (simp add: log_packet_eqs)
  next
    case (Some p)
    then have b: "block_holds h1 p msg" using a by simp
    show ?thesis using Some a b packet_free_ok [OF a(2) b]
      by (auto simp: log_packet_eqs send_packet_def)
  qed
qed

lemma log_inv_array:
  assumes "log_inv l h" "lg_arrays l k = Some ms"
  shows "lg_modules l = Ptr k" "length ms = lg_count l"
proof -
  have a: "\<forall>k ms. lg_arrays l k = Some ms \<longrightarrow> lg_modules l = Ptr k"
    and b: "\<forall>k. lg_modules l = Ptr k \<longrightarrow> (\<exists>ms. lg_arrays l k = Some ms \<and> length ms = lg_count l)"
    using assms(1) unfolding log_inv_def by blast+
  show "lg_modules l = Ptr k" using a assms(2) by blast
  then obtain ms' where "lg_arrays l k = Some ms'" "length ms' = lg_count l" using b by blast
  then show "length ms = lg_count l" using assms(2) by simp
qed

lemma log_inv_set_array:
  assumes inv: "log_inv l h" and m: "lg_arrays l k = Some ms" and len: "length ms' = length ms"
    and ok: "heap_ok h'"
  shows "log_inv (l\<lparr>lg_arrays := (lg_arrays l)(k \<mapsto> ms')\<rparr>) h'"
proof -
  note k = log_inv_array [OF inv m]
  have "lg_arrays l j = None" if "j \<noteq> k" for j
    using log_inv_array(1) [OF inv, of j] k(1) that by (cases "lg_arrays l j") auto
  then show ?thesis using inv k len ok by (simp add: log_inv_def)
qed

lemma log_level_get_start_ok:
  assumes inv: "log_inv l h" and m: "lg_arrays l k = Some ms" "i < length ms"
  shows "\<exists>r l' q h'. log_level_get_start l k i c ret h = Some (r, l', q, h') \<and> log_inv l' h'"
proof -
  have ok: "heap_ok h" using inv by (simp add: log_inv_def)
  let ?l = "l\<lparr>lg_arrays := (lg_arrays l)(k \<mapsto> ms[i := (ms ! i)\<lparr>lm_read_done := Some c\<rparr>])\<rparr>"
  have i: "log_inv ?l h'" "log_inv (?l\<lparr>lg_waiting := w\<rparr>) h'" if "heap_ok h'" for h' w
    using log_inv_set_array [OF inv m(1) _ that] by (simp_all add: log_inv_def)
  obtain b h1 where e: "encode_get_log_level_packet (lm_id (ms ! i)) h = Some (b, h1)" "heap_ok h1"
    "case b of None \<Rightarrow> True | Some p \<Rightarrow> \<exists>q h2. send_packet ret p h1 = Some (q, h2) \<and> heap_ok h2"
    using encode_send_ok [OF ok, of "log_packet_hdr LOG_CID_GET_LOG_LVL 1 @ [lm_id (ms ! i)]" ret]
    by (auto simp: encode_get_log_level_packet_def log_packet_hdr_def split: option.splits)
  show ?thesis
  proof (cases b)
    case None
    then show ?thesis using e m log_inv_heap [OF inv e(2)]
      by (simp add: log_level_get_start_def module_deref_def)
  next
    case (Some p)
    then obtain q h2 where "send_packet ret p h1 = Some (q, h2)" "heap_ok h2" using e by auto
    then show ?thesis using Some e m i [of h2]
      by (simp add: log_level_get_start_def module_deref_def Let_def)
  qed
qed

lemma log_inv_rb: "log_inv l h \<Longrightarrow> rb_inv 65535 rb \<Longrightarrow> log_inv (l\<lparr>lg_rb := rb\<rparr>) h"
  by (simp add: log_inv_def)

lemma rb_reads_ok:
  assumes "rb_inv 65535 rb"
  shows "\<exists>r rb'. rb_pop True rb = Some (r, rb') \<and> rb_inv 65535 rb'"
    and "\<exists>n rb'. rb_next_size rb = Some (n, rb') \<and> rb_inv 65535 rb'"
proof -
  show "\<exists>r rb'. rb_pop True rb = Some (r, rb') \<and> rb_inv 65535 rb'"
    using rb_pop_Nil [OF assms] rb_pop_Cons [OF assms] assms by (cases "rb_unread rb") blast+
  show "\<exists>n rb'. rb_next_size rb = Some (n, rb') \<and> rb_inv 65535 rb'"
    using rb_next_size_Nil [OF assms] rb_next_size_Cons [OF assms] assms by (cases "rb_unread rb") blast+
qed

lemma log_enable_ok:
  assumes inv: "log_inv l h"
  shows "\<exists>l' q h'. log_enable_set l b ret h = Some (l', q, h') \<and> log_inv l' h'"
proof -
  have ok: "heap_ok h" using inv by (simp add: log_inv_def)
  obtain p h1 where e: "encode_get_log_sources_packet h = Some (p, h1)" "heap_ok h1"
    "case p of None \<Rightarrow> True | Some p \<Rightarrow> \<exists>q h2. send_packet ret p h1 = Some (q, h2) \<and> heap_ok h2"
    using encode_send_ok [OF ok, of "log_packet_hdr LOG_CID_GET_LOG_SRC 0" ret]
    by (auto simp: encode_get_log_sources_packet_def log_packet_hdr_def split: option.splits)
  have i: "log_inv l h'" "log_inv (l\<lparr>lg_enabled := b\<rparr>) h'" if "heap_ok h'" for h'
    using inv that by (simp_all add: log_inv_def)
  show ?thesis
  proof (cases p)
    case None
    then show ?thesis using e i inv by (simp add: log_enable_set_def)
  next
    case (Some p')
    then obtain q h2 where "send_packet ret p' h1 = Some (q, h2)" "heap_ok h2" using e by auto
    then show ?thesis using Some e i [of h2] inv by (simp add: log_enable_set_def)
  qed
qed

lemma log_level_set_ok:
  assumes ok: "heap_ok h" and m: "module_deref l k i = Some m"
  shows "\<exists>q h'. log_level_set l k i lvl ret h = Some (q, h') \<and> heap_ok h'"
proof -
  obtain p h1 where e: "encode_set_log_level_packet (lm_id m) (of_nat lvl) h = Some (p, h1)" "heap_ok h1"
    "case p of None \<Rightarrow> True | Some p \<Rightarrow> \<exists>q h2. send_packet ret p h1 = Some (q, h2) \<and> heap_ok h2"
    using encode_send_ok [OF ok, of "log_packet_hdr LOG_CID_SET_LOG_LVL 2 @ [lm_id m, of_nat lvl]" ret]
    by (auto simp: encode_set_log_level_packet_def log_packet_hdr_def split: option.splits)
  show ?thesis using m e by (cases p) (auto simp: log_level_set_def)
qed

lemma log_step_ok:
  assumes inv: "log_inv l h" and ok: "log_op_ok p l"
  shows "\<exists>l' h'. log_step p l h = Some (l', h') \<and> log_inv l' h'"
proof -
  have hok: "heap_ok h" and rb: "rb_inv 65535 (lg_rb l)" using inv by (simp_all add: log_inv_def)
  show ?thesis
  proof (cases p)
    case (Log_receive bs status)
    then have "length bs < 65536" "status = 0 \<Longrightarrow> log_msg_ok l bs" using ok by simp_all
    then obtain acc s l' h' where "rx_cycle log_get log_received bs status l h = Some (acc, s, l', h')" "log_inv l' h'"
      using log_ul.rx_cycle_ok [OF inv] by blast
    then show ?thesis using Log_receive by simp
  next
    case (Log_enable b ret)
    then show ?thesis using log_enable_ok [OF inv, of b ret] by auto
  next
    case (Log_set_level k i lvl ret)
    then obtain m where "module_deref l k i = Some m" using ok by auto
    then show ?thesis using log_level_set_ok [OF hok, of l k i m lvl ret] Log_set_level log_inv_heap [OF inv] by auto
  next
    case (Log_get_level k i c ret)
    then obtain ms where "lg_arrays l k = Some ms" "i < length ms"
      using ok by (auto simp: module_deref_def split: option.splits if_splits)
    then show ?thesis using log_level_get_start_ok [OF inv] Log_get_level by fastforce
  next
    case (Log_got_level k i c)
    then show ?thesis using ok inv by (auto simp: log_level_get_finish_def log_inv_def)
  next
    case Log_next_trace
    then show ?thesis using rb_reads_ok(1) [OF rb] log_inv_rb [OF inv] by (auto simp: log_trace_get_next_def)
  next
    case Log_next_size
    then show ?thesis using rb_reads_ok(2) [OF rb] log_inv_rb [OF inv] by (auto simp: log_trace_get_next_size_def)
  next
    case Log_reset
    then show ?thesis using log_inv_rb [OF inv rb_inv_tail [OF rb]] by (simp add: log_trace_reset_def)
  qed
qed

lemma log_init_inv:
  assumes "length mem = TRACE_RB_SIZE" "u16_at mem 0 = Some 0" "heap_ok h"
  shows "\<exists>l. log_layer_init (Some mem) = Inr l \<and> log_inv l h \<and> lg_modules l = NullPtr \<and> lg_count l = 0 \<and>
    rb_log (lg_rb l) = []"
proof -
  obtain rb where "rb_init (Some mem) TRACE_RB_SIZE = Inr rb" "rb_inv 65535 rb" "rb_log rb = []"
    using rb_init_inv [OF fits_TRACE_RB_SIZE assms(1,2)] by blast
  then show ?thesis using assms(3) by (simp add: log_layer_init_def log_inv_def)
qed

section \<open>Properties\<close>

text \<open>
  The loop of \<open>parse_log_sources_response\<close> reads back exactly the lists of modules: it
  accepts a message (without reading past its end or overrunning a name) if and only if the message
  starts with the encodings of as many modules as announced, each with a zero-terminated name of at
  most 63 bytes, and then returns these modules.
\<close>

lemma log_modules_roundtrip:
  "parse_modules n data = Some ms \<longleftrightarrow>
     length ms = n \<and> (\<forall>m \<in> set ms. module_ok m) \<and> (\<exists>rest. data = modules_bytes ms @ rest)"
  using parse_modules_Some parse_modules_bytes by blast

text \<open>
  Claim C33. A list of modules from the firmware replaces the old one: the layer then holds exactly
  the announced modules and debug.c is given one entry for each; the old array is freed, so that a
  debugfs entry made for it has become a dangling pointer.  If the array cannot be allocated the
  number of modules is kept although there is no array, and the next level response is a null-pointer
  access.
\<close>

theorem log_sources_response:
  assumes inv: "log_inv l h" and ms: "length ms < 256" "\<forall>m \<in> set ms. module_ok m"
  shows "\<exists>rc l' h'. parse_log_sources_response l (of_nat (length ms) # modules_bytes ms @ rest) h = Some (rc, l', h') \<and>
    log_inv l' h' \<and> lg_rb l' = lg_rb l \<and> (\<forall>k i. k < hp_next h \<longrightarrow> module_deref l' k i = None) \<and>
    (if ms \<noteq> [] \<and> hp_oracle h (hp_next h) = None
     then rc = 1 \<and> lg_count l' = length ms \<and> (\<forall>data. parse_get_log_lvl_response l' data = None)
     else rc = 0 \<and> log_modules l' = Some ms \<and>
       lg_events l' = lg_events l @ map (Module_entry (hp_next h)) [0..<length ms])"
proof -
  have u: "unat (of_nat (length ms) :: byte) = length ms" using ms(1) by simp
  have p: "parse_modules (unat (of_nat (length ms) :: byte)) (modules_bytes ms @ rest) = Some ms"
    unfolding u by (rule parse_modules_bytes [OF ms(2)])
  obtain rc l' h' where r: "parse_log_sources_response l (of_nat (length ms) # modules_bytes ms @ rest) h = Some (rc, l', h')"
    "log_inv l' h'" "same_mem h h'" "lg_count l' = length ms" "lg_rb l' = lg_rb l"
    "\<forall>k. k < hp_next h \<longrightarrow> lg_arrays l' k = None"
    "if length ms \<noteq> 0 \<and> hp_oracle h (hp_next h) = None
     then rc = 1 \<and> lg_modules l' = NullPtr \<and> log_modules l' = None \<and> lg_events l' = lg_events l
     else rc = 0 \<and> log_modules l' = Some ms \<and>
       lg_events l' = lg_events l @ map (Module_entry (hp_next h)) [0..<length ms]"
    using sources_response_ok [OF inv p] unfolding u by (elim exE conjE) (rule that)
  have "parse_get_log_lvl_response l' data = None" if "log_modules l' = None" for data
    using that by (simp add: parse_get_log_lvl_response_def log_modules_def)
  then show ?thesis using r by (auto simp: module_deref_def split: if_splits)
qed

lemma log_init_zeroed:
  "\<exists>l. log_layer_init (Some (replicate TRACE_RB_SIZE 0)) = Inr l \<and> log_inv l empty_heap \<and> rb_log (lg_rb l) = []"
  using log_init_inv [OF _ cleared_ring heap_ok_empty] by auto

theorem log_sources_response_witness:
  "\<exists>l rc l' h'. log_layer_init (Some (replicate TRACE_RB_SIZE 0)) = Inr l \<and>
     parse_log_sources_response l [1, 7, 3, 97, 0] empty_heap = Some (rc, l', h') \<and> rc = 0 \<and>
     log_modules l' = Some [\<lparr>lm_id = 7, lm_lvl = 3, lm_name = [97], lm_read_done = None\<rparr>]"
proof -
  let ?ms = "[\<lparr>lm_id = 7, lm_lvl = 3, lm_name = [97], lm_read_done = None\<rparr>] :: log_module list"
  obtain l where l: "log_layer_init (Some (replicate TRACE_RB_SIZE 0)) = Inr l" "log_inv l empty_heap"
    using log_init_zeroed by blast
  have ms: "length ?ms < 256" "\<forall>m \<in> set ?ms. module_ok m" by (simp_all add: module_ok_def)
  have "hp_oracle empty_heap n \<noteq> None" for n by (simp add: empty_heap_def)
  then show ?thesis using log_sources_response [OF l(2) ms, of "[]"] l(1) by auto
qed

lemma trace_received_ok:
  assumes inv: "log_inv l h" and b: "block_holds h p bs"
    and cmd: "status \<noteq> 0 \<or> length bs < 4 + le16 (chunk bs 2 2) \<or> le16 (chunk bs 0 2) = LOG_CID_TRACE_NTF"
  shows "\<exists>l' h'. log_received l p status h = Some (l', [], h') \<and> log_inv l' h' \<and> live h' = live h - blk_keys p \<and>
    (if status \<noteq> 0 \<or> length bs < 4 + le16 (chunk bs 2 2) then l' = l
     else log_modules l' = log_modules l \<and> lg_events l' = lg_events l @ [New_trace] \<and>
       (if le16 (chunk bs 2 2) = 0 then lg_rb l' = lg_rb l
        else \<exists>k. rb_log (lg_rb l') = drop k (rb_log (lg_rb l)) @ [chunk bs 4 (le16 (chunk bs 2 2))]))"
proof -
  let ?n = "le16 (chunk bs 2 2)"
  have l: "blk_length p = length bs" and r: "heap_read h (blk_data p) 0 (blk_length p) = Some bs"
    using b by (auto simp: block_holds_def dest: heap_read_whole)
  have ok: "heap_ok h" and rb: "rb_inv 65535 (lg_rb l)" using inv by (simp_all add: log_inv_def)
  obtain h' where f: "log_packet_free p h = Some h'" "heap_ok h'" "live h' = live h - blk_keys p"
    using packet_free_ok [OF ok b] unfolding log_packet_eqs by blast
  show ?thesis
  proof (cases "status \<noteq> 0 \<or> length bs < 4 + ?n")
    case True
    then show ?thesis using f l r log_inv_heap [OF inv f(2)] by (auto simp: log_received_def Let_def)
  next
    case False
    then have n: "?n \<le> length (drop 4 bs)" "?n < 65536" by (auto simp: le16_less)
    obtain rc rb' where p: "rb_push (lg_rb l) (drop 4 bs) ?n = Returns (rc, rb')" "rb_inv 65535 rb'"
      "if ?n = 0 then rb' = lg_rb l else \<exists>k. rb_log rb' = drop k (rb_log (lg_rb l)) @ [take ?n (drop 4 bs)]"
      using rb_push_any [OF rb n] by blast
    let ?l = "l\<lparr>lg_rb := rb', lg_events := lg_events l @ [New_trace]\<rparr>"
    have i: "log_inv ?l h'" using inv p(2) f(2) by (simp add: log_inv_def)
    have m: "log_modules ?l = log_modules l" by (cases "lg_modules l") (simp_all add: log_modules_def modules_at_def)
    have "log_received l p status h = Some (?l, [], h')"
      using False cmd p(1) f(1) l r by (simp add: log_received_def log_dispatch_def Let_def)
    then show ?thesis using False i m f(3) p(3) by (auto simp: chunk_def)
  qed
qed

text \<open>
  Claim C25. A trace notification whose announced size fits the packet appends exactly the announced
  bytes to the retained traces (dropping old ones at most) and wakes the readers; a packet that is
  too short for its header or its announced size, or was received with an error, changes nothing.  The
  packet is freed in every case.
\<close>

theorem log_trace_received:
  assumes inv: "log_inv l h" and b: "block_holds h p bs"
    and cmd: "status \<noteq> 0 \<or> length bs < 4 + le16 (chunk bs 2 2) \<or> le16 (chunk bs 0 2) = LOG_CID_TRACE_NTF"
  shows "\<exists>l' h'. log_received l p status h = Some (l', [], h') \<and> log_inv l' h' \<and> live h' = live h - blk_keys p \<and>
    (if status \<noteq> 0 \<or> length bs < 4 + le16 (chunk bs 2 2) then l' = l
     else log_modules l' = log_modules l \<and> lg_events l' = lg_events l @ [New_trace] \<and>
       (if le16 (chunk bs 2 2) = 0 then lg_rb l' = lg_rb l
        else \<exists>k. rb_log (lg_rb l') = drop k (rb_log (lg_rb l)) @ [chunk bs 4 (le16 (chunk bs 2 2))]))"
  using assms by (rule trace_received_ok)

lemma block_example:
  fixes bs :: "byte list"
  shows "\<exists>h (p :: hsspi_block). heap_ok h \<and> oracle_total h \<and> block_holds h p bs"
proof -
  let ?h = "empty_heap\<lparr>hp_mem := [0 \<mapsto> bs], hp_next := 1\<rparr>"
  let ?p = "\<lparr>blk_data = Ptr 0, blk_length = length bs, blk_size = length bs\<rparr> :: hsspi_block"
  have "heap_ok ?h" "oracle_total ?h" "block_holds ?h ?p bs"
    by (simp_all add: heap_ok_def empty_heap_def oracle_total_def block_holds_def)
  then show ?thesis by blast
qed

theorem log_trace_received_witness:
  "\<exists>l h p l' h' k. log_inv l h \<and> block_holds h p [0, 0, 2, 0, 65, 66, 9] \<and>
     log_received l p 0 h = Some (l', [], h') \<and> lg_events l' = lg_events l @ [New_trace] \<and>
     rb_log (lg_rb l') = drop k (rb_log (lg_rb l)) @ [[65, 66]]"
proof -
  let ?bs = "[0, 0, 2, 0, 65, 66, 9] :: byte list"
  obtain h and p :: hsspi_block where h: "heap_ok h" "block_holds h p ?bs" using block_example [of ?bs] by auto
  obtain l where l: "log_inv l empty_heap" using log_init_zeroed by blast
  have i: "log_inv l h" by (rule log_inv_heap [OF l h(1)])
  obtain l' h' k where "log_received l p 0 h = Some (l', [], h')" "lg_events l' = lg_events l @ [New_trace]"
    "rb_log (lg_rb l') = drop k (rb_log (lg_rb l)) @ [[65, 66]]"
    using log_trace_received [OF i h(2), of 0] by (auto simp: chunk_def LOG_CID_TRACE_NTF_def)
  with i h(2) show ?thesis by blast
qed

lemma completions_set_level [simp]: "completions c (map (set_level c v) ms) = completions c ms"
  by (induction ms) (auto simp: completions_def set_level_def split: option.splits)

lemma completions_update:
  assumes "\<forall>m \<in> set ms. lm_id m = lm_id (ms ! i) \<longrightarrow> lm_read_done m = None" "i < length ms"
  shows "set (completions (lm_id (ms ! i)) (ms[i := (ms ! i)\<lparr>lm_read_done := Some c\<rparr>])) = {c}"
proof -
  let ?m = "(ms ! i)\<lparr>lm_read_done := Some c\<rparr>"
  have "?m \<in> set (ms[i := ?m])" using assms(2) by (rule set_update_memI)
  moreover have "set (ms[i := ?m]) \<subseteq> insert ?m (set ms)" by (rule set_update_subset_insert)
  ultimately show ?thesis using assms(1)
    by (auto simp: completions_def map_filter_def image_iff split: if_splits) fastforce+
qed

text \<open>
  Claim C34. A level query works, once: \<open>log_level_get\<close> sends the query for the module, the answer
  wakes the waiting reader and the reader returns the level answered.  But the module keeps the
  pointer to the reader's completion, so that a second answer for the module writes to the stack
  frame of a call that has returned.
\<close>

theorem log_level_query:
  assumes inv: "log_inv l h" and ot: "oracle_total h"
    and m: "lg_arrays l k = Some ms" "i < length ms"
    and others: "\<forall>m \<in> set ms. lm_id m = lm_id (ms ! i) \<longrightarrow> lm_read_done m = None"
    and c: "c \<notin> lg_waiting l"
  shows "\<exists>l1 p h1 l2 l3. log_level_get_start l k i c 0 h = Some (None, l1, Some p, h1) \<and>
    block_holds h1 p (log_packet_hdr LOG_CID_GET_LOG_LVL 1 @ [lm_id (ms ! i)]) \<and>
    parse_get_log_lvl_response l1 [lm_id (ms ! i), v] = Some (0, l2) \<and>
    Completed c \<in> set (lg_events l2) \<and>
    log_level_get_finish l2 k i c = Some (unat v, l3) \<and>
    parse_get_log_lvl_response l3 [lm_id (ms ! i), w] = None"
proof -
  have ok: "heap_ok h" using inv by (simp add: log_inv_def)
  note a = log_inv_array [OF inv m(1)]
  let ?m = "(ms ! i)\<lparr>lm_read_done := Some c\<rparr>" and ?id = "lm_id (ms ! i)"
  let ?ms = "ms[i := ?m]"
  let ?l1 = "l\<lparr>lg_arrays := (lg_arrays l)(k \<mapsto> ?ms), lg_waiting := insert c (lg_waiting l)\<rparr>"
  obtain b h1 where e: "encode_packet (log_packet_hdr LOG_CID_GET_LOG_LVL 1 @ [?id]) h = Some (b, h1)"
    "case b of None \<Rightarrow> \<not> oracle_total h
     | Some p \<Rightarrow> block_holds h1 p (log_packet_hdr LOG_CID_GET_LOG_LVL 1 @ [?id])"
    using encode_send_ok [OF ok, of "log_packet_hdr LOG_CID_GET_LOG_LVL 1 @ [?id]" 0]
    by (auto simp: log_packet_hdr_def split: option.splits)
  then obtain p where p: "b = Some p" "block_holds h1 p (log_packet_hdr LOG_CID_GET_LOG_LVL 1 @ [?id])"
    using ot by (cases b) auto
  have start: "log_level_get_start l k i c 0 h = Some (None, ?l1, Some p, h1)"
    using m e(1) p(1)
    by (simp add: log_level_get_start_def module_deref_def encode_get_log_level_packet_def send_packet_def Let_def)
  have cs: "set (completions ?id ?ms) = {c}"
    using others m(2) by (rule completions_update)
  let ?l2 = "?l1\<lparr>lg_arrays := (lg_arrays ?l1)(k \<mapsto> map (set_level ?id v) ?ms),
    lg_events := lg_events ?l1 @ map Completed (completions ?id ?ms)\<rparr>"
  let ?l3 = "?l2\<lparr>lg_waiting := lg_waiting ?l2 - {c}\<rparr>"
  have n: "lg_count l \<noteq> 0" "length ?ms = lg_count l" using a(2) m(2) by auto
  have r1: "parse_get_log_lvl_response ?l1 [?id, v] = Some (0, ?l2)"
    using a(1) n cs by (simp add: parse_get_log_lvl_response_def modules_at_def Let_def)
  have fin: "log_level_get_finish ?l2 k i c = Some (unat v, ?l3)"
    using m(2) by (simp add: log_level_get_finish_def module_deref_def set_level_def)
  have r2: "parse_get_log_lvl_response ?l3 [?id, w] = None"
    using a(1) n cs c by (simp add: parse_get_log_lvl_response_def modules_at_def Let_def)
  have ev: "Completed c \<in> set (lg_events ?l2)" using cs by simp
  show ?thesis
    by (intro exI conjI) (rule start p(2) r1 ev fin r2)+
qed

theorem log_level_query_witness:
  "\<exists>l k c l1 p h1 l2 l3. log_level_get_start l k 0 c 0 empty_heap = Some (None, l1, Some p, h1) \<and>
     parse_get_log_lvl_response l1 [7, 5] = Some (0, l2) \<and> log_level_get_finish l2 k 0 c = Some (5, l3) \<and>
     parse_get_log_lvl_response l3 [7, 2] = None"
proof -
  let ?ms = "[\<lparr>lm_id = 7, lm_lvl = 3, lm_name = [97], lm_read_done = None\<rparr>] :: log_module list"
  obtain l0 where l0: "log_inv l0 empty_heap" using log_init_zeroed by blast
  let ?l = "l0\<lparr>lg_count := 1, lg_modules := Ptr 9, lg_arrays := [9 \<mapsto> ?ms], lg_waiting := {}\<rparr>"
  have i: "log_inv ?l empty_heap" using l0 by (simp add: log_inv_def)
  have o: "oracle_total empty_heap" by (simp add: oracle_total_def empty_heap_def)
  have m: "lg_arrays ?l 9 = Some ?ms" "0 < length ?ms" "(0::nat) \<notin> lg_waiting ?l"
    "\<forall>m \<in> set ?ms. lm_id m = lm_id (?ms ! 0) \<longrightarrow> lm_read_done m = None"
    by simp_all
  obtain l1 p h1 l2 l3 where "log_level_get_start ?l 9 0 0 0 empty_heap = Some (None, l1, Some p, h1)"
    "parse_get_log_lvl_response l1 [lm_id (?ms ! 0), 5] = Some (0, l2)"
    "log_level_get_finish l2 9 0 0 = Some (unat (5 :: byte), l3)"
    "parse_get_log_lvl_response l3 [lm_id (?ms ! 0), 2] = None"
    using log_level_query [OF i o m(1,2,4,3), of 5 2] by blast
  then show ?thesis
    by (intro exI [of _ ?l] exI [of _ 9] exI [of _ 0] exI [of _ l1] exI [of _ p] exI [of _ h1] exI [of _ l2]
        exI [of _ l3]) simp
qed

text \<open>
  No memory fault: from initialisation, any messages of a firmware that keeps the protocol
  (well-formed answers, level answers only to waiting readers), any receive errors, results of
  \<open>hsspi_send\<close> and failing allocations of packets and arrays, and any use of the debugfs operations on
  the current modules, in any order: every operation returns and the invariant is kept.
\<close>

lemma log_safe:
  assumes "length mem = TRACE_RB_SIZE" "u16_at mem 0 = Some 0" "heap_ok h"
  shows "\<exists>l. log_layer_init (Some mem) = Inr l \<and>
    (log_ops_ok ps l h \<longrightarrow> (\<exists>l' h'. log_run ps l h = Some (l', h') \<and> log_inv l' h'))"
proof -
  obtain l where l: "log_layer_init (Some mem) = Inr l" "log_inv l h"
    using log_init_inv [OF assms] by blast
  have "\<exists>l' h'. log_run ps l h = Some (l', h') \<and> log_inv l' h'" if "log_inv l h" "log_ops_ok ps l h" for l
    using that
  proof (induction ps arbitrary: l h)
    case (Cons p ps)
    then obtain l1 h1 where s: "log_step p l h = Some (l1, h1)" "log_inv l1 h1"
      using log_step_ok [of l h p] by auto
    then show ?case using Cons.IH [OF s(2)] Cons.prems(2) by simp
  qed simp
  then show ?thesis using l by blast
qed

end
