(* ===== verification/Rom.thy ===== *)
theory Rom
  imports Kmem Block
begin

text \<open>
  The common part of libqmrom (qmrom_common.c, qmrom.h, spi_rom_protocol.h) and the transfer functions
  of qmrom_spi.c it stands on: talking to the boot ROM of the chip in small frames.

  The chip, the SPI controller and the GPIO lines are the parameter \<open>'w dev\<close>: functions on a world of
  any type.  \<open>struct qmrom_handle\<close> is the record \<open>rom\<close>, with the two frame buffers \<open>hstc\<close> and \<open>sstc\<close> as byte
  lists, and with two fields that are not in the source: the world, and the list of the frames sent so
  far.  Function pointers in \<open>rom_ops\<close> are the chip revision whose function they name.  An access outside a buffer,
  or a call through a null function pointer, is \<open>None\<close>.  Delays are not modelled.
\<close>

section \<open>Error codes\<close>

definition SPI_ERR_INVALID_STC_LEN :: int where "SPI_ERR_INVALID_STC_LEN = - 8010"
definition SPI_ERR_WAIT_READY_TIMEOUT :: int where "SPI_ERR_WAIT_READY_TIMEOUT = - 8011"
definition PEG_ERR_FIRST_KEY_CERT_OR_FW_VER :: int where "PEG_ERR_FIRST_KEY_CERT_OR_FW_VER = - 9005"
definition SPI_PROTO_WRONG_RESP :: int where "SPI_PROTO_WRONG_RESP = - 10001"

definition MAX_STC_FRAME_LEN :: nat where "MAX_STC_FRAME_LEN = 2048"

section \<open>The handle\<close>

datatype chip = A0 | B0 | C0

definition chip_rev_code :: "chip \<Rightarrow> int" where
  "chip_rev_code c = (case c of A0 \<Rightarrow> 160 | B0 \<Rightarrow> 176 | C0 \<Rightarrow> 192)"

definition CHIP_REVISION_UNKNOWN :: int where "CHIP_REVISION_UNKNOWN = 255"

text \<open>
  \<open>dev_xfer speed tx\<close>: one full-duplex transfer with its return code and the bytes received;
  \<open>dev_ready\<close>: the level of the ready line; \<open>dev_cs speed cs_change\<close>: the dummy byte that moves chip
  select; \<open>dev_reset\<close>: the reset callback; \<open>dev_alloc\<close>: whether an allocation succeeds.
\<close>

record 'w dev =
  dev_xfer :: "nat \<Rightarrow> byte list \<Rightarrow> 'w \<Rightarrow> int \<times> byte list \<times> 'w"
  dev_ready :: "'w \<Rightarrow> bool \<times> 'w"
  dev_cs :: "nat \<Rightarrow> bool \<Rightarrow> 'w \<Rightarrow> int \<times> 'w"
  dev_reset :: "'w \<Rightarrow> int \<times> 'w"
  dev_alloc :: "'w \<Rightarrow> bool \<times> 'w"

record 'w rom =
  rom_world :: 'w
  rom_sent :: "byte list list"
  rom_speed_hz :: nat
  rom_retries :: nat
  rom_chip_rev :: int
  rom_device_version :: nat
  rom_lcs_state :: nat
  rom_hstc :: "byte list"
  rom_sstc :: "byte list"
  rom_soc_id :: "byte list"
  rom_uuid :: "byte list"
  rom_is_be :: bool
  rom_flash_fw :: "chip option"
  rom_flash_unstitched_fw :: "chip option"
  rom_flash_debug_cert :: "chip option"
  rom_erase_debug_cert :: "chip option"

type_synonym ('w, 'a) rom_result = "('a \<times> 'w rom) option"

section \<open>Transfers (qmrom_spi.c)\<close>

text \<open>\<open>wbuf\<close> is \<open>hstc\<close> and \<open>rbuf\<close> is \<open>sstc\<close> in every call.\<close>

definition qmrom_spi_transfer :: "'w dev \<Rightarrow> nat \<Rightarrow> 'w rom \<Rightarrow> ('w, int) rom_result" where
  "qmrom_spi_transfer d n s = do {
     tx \<leftarrow> mem_read (rom_hstc s) 0 n;
     let (rc, rx, w) = dev_xfer d (rom_speed_hz s) tx (rom_world s);
     rbuf \<leftarrow> (if n \<le> length (rom_sstc s) then mem_write (rom_sstc s) 0 (take n rx) else None);
     Some (rc, s\<lparr>rom_world := w, rom_sent := rom_sent s @ [tx], rom_sstc := rbuf\<rparr>)
   }"

definition qmrom_spi_set_cs_level :: "'w dev \<Rightarrow> nat \<Rightarrow> 'w rom \<Rightarrow> ('w, int) rom_result" where
  "qmrom_spi_set_cs_level d level s =
     (let (rc, w) = dev_cs d (rom_speed_hz s) (level = 0) (rom_world s) in Some (rc, s\<lparr>rom_world := w\<rparr>))"

fun wait_line :: "'w dev \<Rightarrow> nat \<Rightarrow> 'w \<Rightarrow> 'w" where
  "wait_line d 0 w = snd (dev_ready d w)"
| "wait_line d (Suc n) w = (let (v, w) = dev_ready d w in if v then w else wait_line d n w)"

definition qmrom_spi_wait_for_ready_line :: "'w dev \<Rightarrow> nat \<Rightarrow> 'w rom \<Rightarrow> ('w, int) rom_result" where
  "qmrom_spi_wait_for_ready_line d timeout_ms s =
     (let (v, w) = dev_ready d (wait_line d timeout_ms (rom_world s))
      in Some (if v then 0 else - 1, s\<lparr>rom_world := w\<rparr>))"

definition qmrom_spi_set_freq :: "nat \<Rightarrow> 'w rom \<Rightarrow> 'w rom" where
  "qmrom_spi_set_freq freq s = s\<lparr>rom_speed_hz := freq\<rparr>"

section \<open>Frames\<close>

text \<open>\<open>struct stc\<close>: a flag byte, the layer \<open>ul\<close>, a 16-bit length, the payload.\<close>

definition sstc_raw_flags :: "'w rom \<Rightarrow> nat" where
  "sstc_raw_flags s = unat (rom_sstc s ! 0)"

definition sstc_len :: "'w rom \<Rightarrow> nat" where
  "sstc_len s = le16 (chunk (rom_sstc s) 2 2)"

definition out_waiting :: "'w rom \<Rightarrow> bool" where
  "out_waiting s \<longleftrightarrow> bit (rom_sstc s ! 0) 7"

definition out_active :: "'w rom \<Rightarrow> bool" where
  "out_active s \<longleftrightarrow> bit (rom_sstc s ! 0) 6"

definition sstc_payload0 :: "'w rom \<Rightarrow> nat" where
  "sstc_payload0 s = unat (rom_sstc s ! 4)"

definition set_sstc_len :: "nat \<Rightarrow> 'w rom \<Rightarrow> ('w, unit) rom_result" where
  "set_sstc_len n s =
     map_option (\<lambda>b. ((), s\<lparr>rom_sstc := b\<rparr>)) (mem_write (rom_sstc s) 2 (le16_bytes n))"

definition sstc2uint16 :: "'w rom \<Rightarrow> nat \<Rightarrow> nat option" where
  "sstc2uint16 s offset =
     (if offset + 2 \<le> sstc_len s then u16_at (rom_sstc s) (4 + offset) else Some 48877)"

definition bswap_16 :: "nat \<Rightarrow> nat" where
  "bswap_16 n = (n mod 256) * 256 + n div 256 mod 256"

text \<open>
  The host's frame is built in \<open>hstc\<close>, where \<open>len\<close> is a \<open>uint16_t\<close>, and its header and as many bytes as
  \<open>len\<close> then says are transferred.
\<close>

definition send_frame :: "'w dev \<Rightarrow> byte \<Rightarrow> nat \<Rightarrow> byte list \<Rightarrow> 'w rom \<Rightarrow> ('w, int) rom_result" where
  "send_frame d flags len payload s = do {
     b \<leftarrow> mem_write (rom_hstc s) 0 ([flags, 1] @ le16_bytes (u16 len) @ payload);
     qmrom_spi_transfer d (4 + u16 len) (s\<lparr>rom_hstc := b\<rparr>)
   }"

definition qmrom_pre_read :: "'w dev \<Rightarrow> 'w rom \<Rightarrow> ('w, int) rom_result" where
  "qmrom_pre_read d = send_frame d 0x40 0 [0]"

definition qmrom_read :: "'w dev \<Rightarrow> 'w rom \<Rightarrow> ('w, int) rom_result" where
  "qmrom_read d s =
     (let rd_size = sstc_len s in
        if MAX_STC_FRAME_LEN < rd_size then Some (SPI_ERR_INVALID_STC_LEN, s)
        else send_frame d 0x20 rd_size (replicate rd_size 0) s)"

definition qmrom_write_cmd :: "'w dev \<Rightarrow> nat \<Rightarrow> 'w rom \<Rightarrow> ('w, int) rom_result" where
  "qmrom_write_cmd d cmd = send_frame d 0x80 1 [of_nat cmd]"

definition qmrom_write_cmd32 :: "'w dev \<Rightarrow> nat \<Rightarrow> 'w rom \<Rightarrow> ('w, int) rom_result" where
  "qmrom_write_cmd32 d cmd = send_frame d 0x80 4 (le32_bytes cmd)"

definition qmrom_write_size_cmd :: "'w dev \<Rightarrow> nat \<Rightarrow> byte list \<Rightarrow> 'w rom \<Rightarrow> ('w, int) rom_result" where
  "qmrom_write_size_cmd d cmd data = send_frame d 0x80 (length data + 1) (of_nat cmd # data)"

definition qmrom_write_size_cmd32 :: "'w dev \<Rightarrow> nat \<Rightarrow> byte list \<Rightarrow> 'w rom \<Rightarrow> ('w, int) rom_result" where
  "qmrom_write_size_cmd32 d cmd data = send_frame d 0x80 (length data + 4) (le32_bytes cmd @ data)"

definition qmrom_reboot_bootloader :: "'w dev \<Rightarrow> 'w rom \<Rightarrow> ('w, int) rom_result" where
  "qmrom_reboot_bootloader d s = do {
     (rc, s) \<leftarrow> qmrom_spi_set_cs_level d 0 s;
     if rc \<noteq> 0 then Some (rc, s)
     else do {
       let s = s\<lparr>rom_world := snd (dev_reset d (rom_world s))\<rparr>;
       qmrom_spi_set_cs_level d 1 s
     }
   }"

section \<open>Unstitching\<close>

text \<open>
  A stitched firmware is four parts, each after its 32-bit size.  \<open>tot_len\<close> and the sizes are
  \<open>uint32_t\<close>, so the first sum of each check wraps; \<open>sizeof\<close> and \<open>fw->size\<close> are 64 bits wide.
\<close>

record unstitched_firmware =
  fw_img :: "byte list"
  fw_crt :: "byte list"
  key1_crt :: "byte list"
  key2_crt :: "byte list"

text \<open>The size of the part at \<open>tot\<close>, its offset, and the next \<open>tot_len\<close>; \<open>Inl\<close> when the check fails.\<close>

definition unstitch_part :: "bool \<Rightarrow> byte list \<Rightarrow> nat \<Rightarrow> (unit + nat \<times> nat \<times> nat) option" where
  "unstitch_part final data tot = do {
     n \<leftarrow> u32_at data tot;
     let total = u32 (tot + n) + 4;
     if (if final then total \<noteq> length data else length data < total) then Some (Inl ())
     else Some (Inr (n, u32 (tot + 4), u32 (u32 (tot + 4) + n)))
   }"

fun allocs :: "'w dev \<Rightarrow> nat \<Rightarrow> 'w \<Rightarrow> bool \<times> 'w" where
  "allocs d 0 w = (True, w)"
| "allocs d (Suc n) w = (let (ok, w) = dev_alloc d w in if ok then allocs d n w else (False, w))"

definition unstitch_sizes :: "byte list \<Rightarrow> (unit + (nat \<times> nat) list) option" where
  "unstitch_sizes data = do {
     r1 \<leftarrow> unstitch_part False data 0;
     case r1 of Inl e \<Rightarrow> Some (Inl e) | Inr (n1, p1, tot) \<Rightarrow> do {
     r2 \<leftarrow> unstitch_part False data tot;
     case r2 of Inl e \<Rightarrow> Some (Inl e) | Inr (n2, p2, tot) \<Rightarrow> do {
     r3 \<leftarrow> unstitch_part False data tot;
     case r3 of Inl e \<Rightarrow> Some (Inl e) | Inr (n3, p3, tot) \<Rightarrow> do {
     r4 \<leftarrow> unstitch_part True data tot;
     case r4 of Inl e \<Rightarrow> Some (Inl e) | Inr (n4, p4, tot) \<Rightarrow>
       Some (Inr [(n1, p1), (n2, p2), (n3, p3), (n4, p4)])
   }}}}"

definition qmrom_unstitch_fw ::
  "'w dev \<Rightarrow> byte list \<Rightarrow> int \<Rightarrow> 'w \<Rightarrow> (int \<times> unstitched_firmware option \<times> 'w) option" where
  "qmrom_unstitch_fw d data revision w =
     (if revision = chip_rev_code A0 then Some (- EINVAL, None, w)
      else if length data < 8 then Some (- EINVAL, None, w)
      else do {
        r \<leftarrow> unstitch_sizes data;
        case r of
          Inl _ \<Rightarrow> Some (- EINVAL, None, w)
        | Inr parts \<Rightarrow>
            (let (ok, w) = allocs d 4 w in
               if \<not> ok then Some (- ENOMEM, None, w)
               else do {
                 k1 \<leftarrow> mem_read data (snd (parts ! 0)) (fst (parts ! 0));
                 k2 \<leftarrow> mem_read data (snd (parts ! 1)) (fst (parts ! 1));
                 crt \<leftarrow> mem_read data (snd (parts ! 2)) (fst (parts ! 2));
                 img \<leftarrow> mem_read data (snd (parts ! 3)) (fst (parts ! 3));
                 Some (0, Some \<lparr>fw_img = img, fw_crt = crt, key1_crt = k1, key2_crt = k2\<rparr>, w)
               })
      })"

section \<open>Sequences\<close>

text \<open>\<open>rc = f(); if (rc) return rc;\<close> followed by the rest.\<close>

definition and_then :: "('w, int) rom_result \<Rightarrow> ('w rom \<Rightarrow> ('w, int) rom_result) \<Rightarrow> ('w, int) rom_result" where
  "and_then r k = do { (rc, s) \<leftarrow> r; if rc \<noteq> 0 then Some (rc, s) else k s }"

text \<open>
  The loop of the three \<open>flash_data\<close> functions: \<open>sent < fw->size\<close> while there is data left, \<open>n\<close> bytes
  of it at most in a turn.  \<open>step\<close> is told whether the chunk is the last one.
\<close>

function chunk_loop ::
  "nat \<Rightarrow> (bool \<Rightarrow> byte list \<Rightarrow> 'w rom \<Rightarrow> ('w, int) rom_result) \<Rightarrow> byte list \<Rightarrow> 'w rom \<Rightarrow> ('w, int) rom_result" where
  "chunk_loop n step data s =
     (if data = [] \<or> n = 0 then Some (0, s)
      else and_then (step (drop n data = []) (take n data) s) (chunk_loop n step (drop n data)))"
  by auto
termination by (relation "measure (\<lambda>(n, step, data, s). length data)") auto

lemmas [simp del] = chunk_loop.simps

end
