(* ===== verification/Rom_C0.thy ===== *)
theory Rom_C0
  imports Rom
begin

text \<open>
  The boot ROM of the C0 revision (qmrom_c0.c): 32-bit commands, chunks of 2040 bytes, and the ready
  line consulted before each frame.  The statistics under \<open>C0_WRITE_STATS\<close> are not compiled.
\<close>

definition CHUNK_SIZE_C0 :: nat where "CHUNK_SIZE_C0 = 2040"
definition SPI_READY_TIMEOUT_MS_C0 :: nat where "SPI_READY_TIMEOUT_MS_C0 = 200"
definition DEFAULT_SPI_CLOCKRATE_C0 :: nat where "DEFAULT_SPI_CLOCKRATE_C0 = 5000000"
definition SPI_SH_READY_CMD_BIT_MASK_C0 :: nat where "SPI_SH_READY_CMD_BIT_MASK_C0 = 0x22"
definition HBK_LOC :: nat where "HBK_LOC = 12"
definition HBK_2E_ICV :: byte where "HBK_2E_ICV = 0"
definition HBK_2E_OEM :: byte where "HBK_2E_OEM = 1"
definition CC_BSV_CHIP_MANUFACTURE_LCS :: nat where "CC_BSV_CHIP_MANUFACTURE_LCS = 0"
definition CC_BSV_SECURE_LCS :: nat where "CC_BSV_SECURE_LCS = 5"
definition ROM_SOC_ID_LEN :: nat where "ROM_SOC_ID_LEN = 32"
definition ROM_UUID_LEN :: nat where "ROM_UUID_LEN = 16"

datatype c0_cmd =
    ROM_CMD_C0_SEC_LOAD_ICV_IMG_TO_RRAM
  | ROM_CMD_C0_SEC_LOAD_OEM_IMG_TO_RRAM
  | ROM_CMD_C0_GET_CHIP_VER
  | ROM_CMD_C0_GET_SOC_INFO
  | ROM_CMD_C0_ERASE_DBG_CERT
  | ROM_CMD_C0_USE_DIRECT_RRAM_WR
  | ROM_CMD_C0_USE_INDIRECT_RRAM_WR
  | ROM_CMD_C0_WRITE_DBG_CERT
  | ROM_CMD_C0_SEC_IMAGE_DATA
  | ROM_CMD_C0_CERT_DATA
  | ROM_CMD_C0_DEBUG_CERT_SIZE

fun c0_cmd_code :: "c0_cmd \<Rightarrow> nat" where
  "c0_cmd_code ROM_CMD_C0_SEC_LOAD_ICV_IMG_TO_RRAM = 0x00"
| "c0_cmd_code ROM_CMD_C0_SEC_LOAD_OEM_IMG_TO_RRAM = 0x01"
| "c0_cmd_code ROM_CMD_C0_GET_CHIP_VER = 0x02"
| "c0_cmd_code ROM_CMD_C0_GET_SOC_INFO = 0x03"
| "c0_cmd_code ROM_CMD_C0_ERASE_DBG_CERT = 0x04"
| "c0_cmd_code ROM_CMD_C0_USE_DIRECT_RRAM_WR = 0x05"
| "c0_cmd_code ROM_CMD_C0_USE_INDIRECT_RRAM_WR = 0x06"
| "c0_cmd_code ROM_CMD_C0_WRITE_DBG_CERT = 0x07"
| "c0_cmd_code ROM_CMD_C0_SEC_IMAGE_DATA = 0x12"
| "c0_cmd_code ROM_CMD_C0_CERT_DATA = 0x13"
| "c0_cmd_code ROM_CMD_C0_DEBUG_CERT_SIZE = 0x14"

text \<open>The answers of \<open>enum C0_RESP\<close>; \<open>enum B0_RESP\<close> has the same ones with the same values.\<close>

datatype rom_resp =
    READY_FOR_CS_LOW_CMD
  | WRONG_CS_LOW_CMD
  | WAITING_FOR_NS_RRAM_FILE_SIZE
  | WAITING_FOR_NS_SRAM_FILE_SIZE
  | WAITING_FOR_NS_RRAM_FILE_DATA
  | WAITING_FOR_NS_SRAM_FILE_DATA
  | WAITING_FOR_SEC_FILE_DATA
  | ERR_NS_SRAM_OR_RRAM_SIZE_CMD
  | ERR_SEC_RRAM_SIZE_CMD
  | ERR_WAITING_FOR_NS_IMAGE_DATA_CMD
  | ERR_WAITING_FOR_SEC_IMAGE_DATA_CMD
  | ERR_IMAGE_SIZE_IS_ZERO
  | ERR_IMAGE_SIZE_TOO_BIG
  | ERR_IMAGE_IS_NOT_16BYTES_MUL
  | ERR_GOT_DATA_MORE_THAN_ALLOWED
  | ERR_RRAM_DATA_REMAINDER_NOT_ALLOWED
  | ERR_WAITING_FOR_CERT_DATA_CMD
  | WAITING_FOR_FIRST_KEY_CERT
  | WAITING_FOR_SECOND_KEY_CERT
  | WAITING_FOR_CONTENT_CERT
  | WAITING_FOR_DEBUG_CERT_DATA
  | ERR_FIRST_KEY_CERT_OR_FW_VER
  | ERR_SECOND_KEY_CERT
  | ERR_CONTENT_CERT_DOWNLOAD_ADDR
  | ERR_TOO_MANY_IMAGES_IN_CONTENT_CERT
  | ERR_ADDRESS_NOT_DIVIDED_BY_8
  | ERR_IMAGE_BOUNDARIES
  | ERR_CERT_TYPE
  | ERR_PRODUCT_ID
  | ERR_RRAM_RANGE_OR_WRITE
  | WAITING_TO_DEBUG_CERTIFICATE_SIZE
  | ERR_DEBUG_CERT_SIZE

fun resp_code :: "rom_resp \<Rightarrow> nat" where
  "resp_code READY_FOR_CS_LOW_CMD = 0x00"
| "resp_code WRONG_CS_LOW_CMD = 0x01"
| "resp_code WAITING_FOR_NS_RRAM_FILE_SIZE = 0x02"
| "resp_code WAITING_FOR_NS_SRAM_FILE_SIZE = 0x03"
| "resp_code WAITING_FOR_NS_RRAM_FILE_DATA = 0x04"
| "resp_code WAITING_FOR_NS_SRAM_FILE_DATA = 0x05"
| "resp_code WAITING_FOR_SEC_FILE_DATA = 0x06"
| "resp_code ERR_NS_SRAM_OR_RRAM_SIZE_CMD = 0x07"
| "resp_code ERR_SEC_RRAM_SIZE_CMD = 0x08"
| "resp_code ERR_WAITING_FOR_NS_IMAGE_DATA_CMD = 0x09"
| "resp_code ERR_WAITING_FOR_SEC_IMAGE_DATA_CMD = 0x0a"
| "resp_code ERR_IMAGE_SIZE_IS_ZERO = 0x0b"
| "resp_code ERR_IMAGE_SIZE_TOO_BIG = 0x0c"
| "resp_code ERR_IMAGE_IS_NOT_16BYTES_MUL = 0x0d"
| "resp_code ERR_GOT_DATA_MORE_THAN_ALLOWED = 0x0e"
| "resp_code ERR_RRAM_DATA_REMAINDER_NOT_ALLOWED = 0x0f"
| "resp_code ERR_WAITING_FOR_CERT_DATA_CMD = 0x10"
| "resp_code WAITING_FOR_FIRST_KEY_CERT = 0x11"
| "resp_code WAITING_FOR_SECOND_KEY_CERT = 0x12"
| "resp_code WAITING_FOR_CONTENT_CERT = 0x13"
| "resp_code WAITING_FOR_DEBUG_CERT_DATA = 0x14"
| "resp_code ERR_FIRST_KEY_CERT_OR_FW_VER = 0x15"
| "resp_code ERR_SECOND_KEY_CERT = 0x16"
| "resp_code ERR_CONTENT_CERT_DOWNLOAD_ADDR = 0x17"
| "resp_code ERR_TOO_MANY_IMAGES_IN_CONTENT_CERT = 0x18"
| "resp_code ERR_ADDRESS_NOT_DIVIDED_BY_8 = 0x19"
| "resp_code ERR_IMAGE_BOUNDARIES = 0x1a"
| "resp_code ERR_CERT_TYPE = 0x1b"
| "resp_code ERR_PRODUCT_ID = 0x1c"
| "resp_code ERR_RRAM_RANGE_OR_WRITE = 0x1d"
| "resp_code WAITING_TO_DEBUG_CERTIFICATE_SIZE = 0x1e"
| "resp_code ERR_DEBUG_CERT_SIZE = 0x1f"

section \<open>Frames after the ready line\<close>

text \<open>The macros ignore whether the line became ready in time.\<close>

definition after_ready :: "'w dev \<Rightarrow> ('w rom \<Rightarrow> ('w, int) rom_result) \<Rightarrow> 'w rom \<Rightarrow> ('w, int) rom_result" where
  "after_ready d f s = do {
     (_, s) \<leftarrow> qmrom_spi_wait_for_ready_line d SPI_READY_TIMEOUT_MS_C0 s;
     f s
   }"

definition qmrom_pre_read_c0 :: "'w dev \<Rightarrow> 'w rom \<Rightarrow> ('w, int) rom_result" where
  "qmrom_pre_read_c0 d = after_ready d (qmrom_pre_read d)"

definition qmrom_read_c0 :: "'w dev \<Rightarrow> 'w rom \<Rightarrow> ('w, int) rom_result" where
  "qmrom_read_c0 d = after_ready d (qmrom_read d)"

definition qmrom_write_cmd32_c0 :: "'w dev \<Rightarrow> c0_cmd \<Rightarrow> 'w rom \<Rightarrow> ('w, int) rom_result" where
  "qmrom_write_cmd32_c0 d cmd = after_ready d (qmrom_write_cmd32 d (c0_cmd_code cmd))"

definition qmrom_write_size_cmd32_c0 :: "'w dev \<Rightarrow> c0_cmd \<Rightarrow> byte list \<Rightarrow> 'w rom \<Rightarrow> ('w, int) rom_result" where
  "qmrom_write_size_cmd32_c0 d cmd data = after_ready d (qmrom_write_size_cmd32 d (c0_cmd_code cmd) data)"

section \<open>Polling\<close>

text \<open>One transfer of the current \<open>hstc\<close>, header and payload.\<close>

definition transfer_hstc :: "'w dev \<Rightarrow> 'w rom \<Rightarrow> ('w, int) rom_result" where
  "transfer_hstc d s = qmrom_spi_transfer d (4 + le16 (chunk (rom_hstc s) 2 2)) s"

definition clear_hstc :: "'w rom \<Rightarrow> ('w, unit) rom_result" where
  "clear_hstc s = map_option (\<lambda>b. ((), s\<lparr>rom_hstc := b\<rparr>)) (mem_write (rom_hstc s) 0 [0, 0, 0, 0])"

definition clear_raw_flags :: "'w rom \<Rightarrow> ('w, unit) rom_result" where
  "clear_raw_flags s = map_option (\<lambda>b. ((), s\<lparr>rom_sstc := b\<rparr>)) (mem_write (rom_sstc s) 0 [0])"

definition c0_poll_once :: "'w dev \<Rightarrow> 'w rom \<Rightarrow> ('w, unit) rom_result" where
  "c0_poll_once d s = do {
     (rc, s) \<leftarrow> qmrom_spi_wait_for_ready_line d SPI_READY_TIMEOUT_MS_C0 s;
     if rc \<noteq> 0 then Some ((), s)
     else do { (_, s) \<leftarrow> transfer_hstc d s; Some ((), s) }
   }"

fun poll_loop :: "('w rom \<Rightarrow> ('w, unit) rom_result) \<Rightarrow> nat \<Rightarrow> 'w rom \<Rightarrow> ('w, unit) rom_result" where
  "poll_loop once retries s = do {
     (_, s) \<leftarrow> once s;
     (case retries of
        0 \<Rightarrow> Some ((), s)
      | Suc r \<Rightarrow> if sstc_raw_flags s = 0 then poll_loop once r s else Some ((), s))
   }"

definition qmrom_c0_poll_soc :: "'w dev \<Rightarrow> 'w rom \<Rightarrow> ('w, unit) rom_result" where
  "qmrom_c0_poll_soc d s = do {
     (_, s) \<leftarrow> clear_hstc s;
     (_, s) \<leftarrow> clear_raw_flags s;
     poll_loop (c0_poll_once d) (rom_retries s) s
   }"

text \<open>The loop of \<open>qmrom_c0_wait_ready\<close>; \<open>Some rc\<close> in the result when it returns from inside.\<close>

fun c0_ready_loop :: "'w dev \<Rightarrow> nat \<Rightarrow> 'w rom \<Rightarrow> ('w, int option) rom_result" where
  "c0_ready_loop d 0 s = Some (None, s)"
| "c0_ready_loop d (Suc r) s =
     (if sstc_raw_flags s = SPI_SH_READY_CMD_BIT_MASK_C0 then Some (None, s)
      else if out_waiting s then do {
        (_, s) \<leftarrow> qmrom_pre_read_c0 d s;
        (_, s) \<leftarrow> qmrom_read_c0 d s;
        c0_ready_loop d r s
      }
      else if out_active s then do {
        (rc, s) \<leftarrow> qmrom_read_c0 d s;
        Some (Some rc, s)
      }
      else do {
        (_, s) \<leftarrow> qmrom_c0_poll_soc d s;
        c0_ready_loop d r s
      })"

definition qmrom_c0_wait_ready :: "'w dev \<Rightarrow> 'w rom \<Rightarrow> ('w, int) rom_result" where
  "qmrom_c0_wait_ready d s = do {
     let retries = rom_retries s;
     (_, s) \<leftarrow> qmrom_c0_poll_soc d s;
     (r, s) \<leftarrow> c0_ready_loop d retries s;
     case r of
       Some rc \<Rightarrow> Some (rc, s)
     | None \<Rightarrow> Some (if sstc_raw_flags s = SPI_SH_READY_CMD_BIT_MASK_C0 then 0 else SPI_ERR_WAIT_READY_TIMEOUT, s)
   }"

text \<open>When the loop of \<open>qmrom_c0_poll_cmd_resp\<close> runs out, \<open>retries\<close> is -1 and so is the result.\<close>

fun c0_resp_loop :: "'w dev \<Rightarrow> nat \<Rightarrow> 'w rom \<Rightarrow> ('w, int) rom_result" where
  "c0_resp_loop d retries s =
     (if out_waiting s then do {
        (_, s) \<leftarrow> qmrom_pre_read_c0 d s;
        qmrom_read_c0 d s
      }
      else do {
        (_, s) \<leftarrow> qmrom_c0_poll_soc d s;
        (case retries of 0 \<Rightarrow> Some (- 1, s) | Suc r \<Rightarrow> c0_resp_loop d r s)
      })"

definition qmrom_c0_poll_cmd_resp :: "'w dev \<Rightarrow> 'w rom \<Rightarrow> ('w, int) rom_result" where
  "qmrom_c0_poll_cmd_resp d s = do {
     let retries = rom_retries s;
     (_, s) \<leftarrow> qmrom_c0_poll_soc d s;
     c0_resp_loop d retries s
   }"

lemmas [simp del] = poll_loop.simps c0_resp_loop.simps

section \<open>Operations\<close>

text \<open>Chip revision and version, at their offsets in the answer to \<open>GET_CHIP_VER\<close>.\<close>

definition read_version :: "nat \<Rightarrow> nat \<Rightarrow> 'w rom \<Rightarrow> ('w, unit) rom_result" where
  "read_version rev_offset version_offset s = do {
     rev_word \<leftarrow> sstc2uint16 s rev_offset;
     version \<leftarrow> sstc2uint16 s version_offset;
     Some ((), s\<lparr>rom_chip_rev := int (rev_word mod 256), rom_device_version := bswap_16 version\<rparr>)
   }"

text \<open>The answer to \<open>GET_SOC_INFO\<close>, and the operations of the revision.\<close>

definition c0_soc_info :: "'w rom \<Rightarrow> ('w, int) rom_result" where
  "c0_soc_info s = do {
     soc \<leftarrow> mem_read (rom_sstc s) 8 ROM_SOC_ID_LEN;
     lcs \<leftarrow> u32_at (rom_sstc s) (8 + ROM_SOC_ID_LEN);
     uuid \<leftarrow> mem_read (rom_sstc s) (12 + ROM_SOC_ID_LEN) ROM_UUID_LEN;
     Some (0, s\<lparr>rom_soc_id := rev soc, rom_lcs_state := lcs, rom_uuid := rev uuid,
       rom_flash_fw := Some C0, rom_flash_debug_cert := Some C0, rom_erase_debug_cert := Some C0\<rparr>)
   }"

definition qmrom_c0_probe_device :: "'w dev \<Rightarrow> 'w rom \<Rightarrow> ('w, int) rom_result" where
  "qmrom_c0_probe_device d s =
     and_then (qmrom_reboot_bootloader d (qmrom_spi_set_freq DEFAULT_SPI_CLOCKRATE_C0 (s\<lparr>rom_is_be := False\<rparr>))) (\<lambda>s.
     and_then (qmrom_c0_wait_ready d s) (\<lambda>s.
     and_then (qmrom_write_cmd32_c0 d ROM_CMD_C0_GET_CHIP_VER s) (\<lambda>s.
     and_then (qmrom_c0_poll_cmd_resp d s) (\<lambda>s. do {
       (_, s) \<leftarrow> read_version 4 6 s;
       if rom_chip_rev s \<noteq> chip_rev_code C0 then Some (- 1, s\<lparr>rom_chip_rev := - 1\<rparr>)
       else
         and_then (qmrom_c0_wait_ready d s) (\<lambda>s.
         and_then (qmrom_write_cmd32_c0 d ROM_CMD_C0_GET_SOC_INFO s) (\<lambda>s.
         and_then (qmrom_c0_poll_cmd_resp d s) c0_soc_info))
     }))))"

text \<open>One turn of \<open>qmrom_c0_flash_data\<close>.\<close>

definition c0_flash_chunk ::
  "'w dev \<Rightarrow> c0_cmd \<Rightarrow> rom_resp \<Rightarrow> bool \<Rightarrow> bool \<Rightarrow> byte list \<Rightarrow> 'w rom \<Rightarrow> ('w, int) rom_result" where
  "c0_flash_chunk d cmd resp skip_last_check final data s =
     and_then (qmrom_write_size_cmd32_c0 d cmd data s) (\<lambda>s.
       if skip_last_check \<and> final then Some (0, s)
       else do {
         (_, s) \<leftarrow> qmrom_c0_poll_soc d s;
         (_, s) \<leftarrow> qmrom_pre_read_c0 d s;
         (_, s) \<leftarrow> qmrom_read_c0 d s;
         if sstc_payload0 s \<noteq> resp_code resp then
           Some (if sstc_payload0 s = resp_code ERR_FIRST_KEY_CERT_OR_FW_VER
                 then PEG_ERR_FIRST_KEY_CERT_OR_FW_VER else SPI_PROTO_WRONG_RESP, s)
         else Some (0, s)
       })"

definition qmrom_c0_flash_data ::
  "'w dev \<Rightarrow> byte list \<Rightarrow> c0_cmd \<Rightarrow> rom_resp \<Rightarrow> bool \<Rightarrow> 'w rom \<Rightarrow> ('w, int) rom_result" where
  "qmrom_c0_flash_data d fw cmd resp skip_last_check s =
     chunk_loop CHUNK_SIZE_C0 (c0_flash_chunk d cmd resp skip_last_check) fw s"

text \<open>The checks of the key certificate against the life-cycle state: \<open>Some True\<close> to go on.\<close>

definition check_platform :: "byte list \<Rightarrow> nat \<Rightarrow> bool option" where
  "check_platform key1 lcs =
     (if length key1 \<le> HBK_LOC then None
      else if key1 ! HBK_LOC = HBK_2E_ICV \<and> lcs \<noteq> CC_BSV_CHIP_MANUFACTURE_LCS then Some False
      else if key1 ! HBK_LOC = HBK_2E_OEM \<and> lcs \<noteq> CC_BSV_SECURE_LCS then Some False
      else Some True)"

definition c0_flash_cmd :: "nat \<Rightarrow> c0_cmd" where
  "c0_flash_cmd lcs = (if lcs = CC_BSV_SECURE_LCS then ROM_CMD_C0_SEC_LOAD_OEM_IMG_TO_RRAM
                       else ROM_CMD_C0_SEC_LOAD_ICV_IMG_TO_RRAM)"

text \<open>Selecting the write mode: the command, a poll, the answer read and ignored, another poll.\<close>

definition c0_set_write_mode :: "'w dev \<Rightarrow> 'w rom \<Rightarrow> ('w, int) rom_result" where
  "c0_set_write_mode d s =
     and_then (qmrom_c0_wait_ready d s) (\<lambda>s.
     and_then (qmrom_write_cmd32_c0 d ROM_CMD_C0_USE_INDIRECT_RRAM_WR s) (\<lambda>s. do {
       (_, s) \<leftarrow> qmrom_c0_poll_soc d s;
       (_, s) \<leftarrow> qmrom_pre_read_c0 d s;
       (_, s) \<leftarrow> qmrom_read_c0 d s;
       (_, s) \<leftarrow> qmrom_c0_poll_soc d s;
       Some (0, s)
     }))"

definition c0_send_parts :: "'w dev \<Rightarrow> unstitched_firmware \<Rightarrow> 'w rom \<Rightarrow> ('w, int) rom_result" where
  "c0_send_parts d fws s =
     and_then (qmrom_c0_flash_data d (key1_crt fws) ROM_CMD_C0_CERT_DATA WAITING_FOR_SECOND_KEY_CERT False s) (\<lambda>s.
     and_then (qmrom_c0_flash_data d (key2_crt fws) ROM_CMD_C0_CERT_DATA WAITING_FOR_CONTENT_CERT False s) (\<lambda>s.
     and_then (qmrom_c0_flash_data d (fw_crt fws) ROM_CMD_C0_CERT_DATA WAITING_FOR_SEC_FILE_DATA False s) (\<lambda>s.
     qmrom_c0_flash_data d (fw_img fws) ROM_CMD_C0_SEC_IMAGE_DATA WAITING_FOR_SEC_FILE_DATA True s)))"

text \<open>When the first answer is not the expected one, \<open>rc\<close> is still 0.\<close>

definition c0_flash_parts :: "'w dev \<Rightarrow> unstitched_firmware \<Rightarrow> 'w rom \<Rightarrow> ('w, int) rom_result" where
  "c0_flash_parts d fws s =
     (case check_platform (key1_crt fws) (rom_lcs_state s) of
        None \<Rightarrow> None
      | Some False \<Rightarrow> Some (- EINVAL, s)
      | Some True \<Rightarrow>
          and_then (c0_set_write_mode d s) (\<lambda>s.
          and_then (qmrom_write_cmd32_c0 d (c0_flash_cmd (rom_lcs_state s)) s) (\<lambda>s. do {
            (_, s) \<leftarrow> qmrom_c0_poll_cmd_resp d s;
            if sstc_payload0 s \<noteq> resp_code WAITING_FOR_FIRST_KEY_CERT then Some (0, s)
            else do {
              (_, s) \<leftarrow> qmrom_c0_poll_soc d s;
              c0_send_parts d fws s
            }
          })))"

definition qmrom_c0_flash_fw :: "'w dev \<Rightarrow> byte list \<Rightarrow> 'w rom \<Rightarrow> ('w, int) rom_result" where
  "qmrom_c0_flash_fw d fw s = do {
     (rc, fws, w) \<leftarrow> qmrom_unstitch_fw d fw (rom_chip_rev s) (rom_world s);
     let s = s\<lparr>rom_world := w\<rparr>;
     case fws of None \<Rightarrow> Some (rc, s) | Some fws \<Rightarrow> c0_flash_parts d fws s
   }"

definition qmrom_c0_flash_debug_cert :: "'w dev \<Rightarrow> byte list \<Rightarrow> 'w rom \<Rightarrow> ('w, int) rom_result" where
  "qmrom_c0_flash_debug_cert d dbg_cert s =
     and_then (c0_set_write_mode d s) (\<lambda>s.
     and_then (qmrom_write_cmd32_c0 d ROM_CMD_C0_WRITE_DBG_CERT s) (\<lambda>s. do {
       (_, s) \<leftarrow> qmrom_c0_poll_cmd_resp d s;
       if sstc_payload0 s \<noteq> resp_code WAITING_TO_DEBUG_CERTIFICATE_SIZE then Some (0, s)
       else do {
         (rc, s) \<leftarrow> qmrom_write_size_cmd32_c0 d ROM_CMD_C0_DEBUG_CERT_SIZE (le32_bytes (length dbg_cert)) s;
         (_, s) \<leftarrow> qmrom_c0_poll_cmd_resp d s;
         if sstc_payload0 s \<noteq> resp_code WAITING_FOR_DEBUG_CERT_DATA then Some (rc, s)
         else do {
           (_, s) \<leftarrow> qmrom_c0_flash_data d dbg_cert ROM_CMD_C0_CERT_DATA WAITING_FOR_DEBUG_CERT_DATA True s;
           Some (0, s)
         }
       }
     }))"

definition qmrom_c0_erase_debug_cert :: "'w dev \<Rightarrow> 'w rom \<Rightarrow> ('w, int) rom_result" where
  "qmrom_c0_erase_debug_cert d s =
     and_then (qmrom_c0_wait_ready d s) (qmrom_write_cmd32_c0 d ROM_CMD_C0_ERASE_DBG_CERT)"

end
