(* ===== verification/Rom_A0.thy ===== *)
theory Rom_A0
  imports Rom_C0
begin

text \<open>
  The boot ROM of the A0 revision (qmrom_a0.c): big-endian lengths, chunks of 1016 bytes sent without a
  command byte, and a firmware that is not stitched.
\<close>

definition CHUNK_SIZE_A0 :: nat where "CHUNK_SIZE_A0 = 1016"
definition DEFAULT_SPI_CLOCKRATE_A0 :: nat where "DEFAULT_SPI_CLOCKRATE_A0 = 750000"
definition ROM_CMD_A0_DOWNLOAD_RRAM_CMD :: nat where "ROM_CMD_A0_DOWNLOAD_RRAM_CMD = 0x40"

text \<open>\<open>enum A0_RESP\<close>, as far as the host uses it; the values are consecutive.\<close>

definition SPI_RSP_WAIT_DOWNLOAD_MODE :: nat where "SPI_RSP_WAIT_DOWNLOAD_MODE = 1"
definition SPI_RSP_WAIT_FOR_KEY1_CERT :: nat where "SPI_RSP_WAIT_FOR_KEY1_CERT = 2"
definition SPI_RSP_WAIT_IMAGE_SIZE :: nat where "SPI_RSP_WAIT_IMAGE_SIZE = 5"
definition SPI_RSP_WAIT_FOR_IMAGE :: nat where "SPI_RSP_WAIT_FOR_IMAGE = 6"

definition a0_poll_once :: "'w dev \<Rightarrow> 'w rom \<Rightarrow> ('w, unit) rom_result" where
  "a0_poll_once d s = do { (_, s) \<leftarrow> qmrom_spi_transfer d 1 s; Some ((), s) }"

definition qmrom_a0_poll_soc :: "'w dev \<Rightarrow> 'w rom \<Rightarrow> ('w, unit) rom_result" where
  "qmrom_a0_poll_soc d s = do {
     (_, s) \<leftarrow> clear_hstc s;
     poll_loop (a0_poll_once d) (rom_retries s) s
   }"

fun a0_ready_loop :: "'w dev \<Rightarrow> nat \<Rightarrow> 'w rom \<Rightarrow> ('w, unit) rom_result" where
  "a0_ready_loop d 0 s = Some ((), s)"
| "a0_ready_loop d (Suc r) s =
     (if out_waiting s then Some ((), s)
      else do { (_, s) \<leftarrow> qmrom_a0_poll_soc d s; a0_ready_loop d r s })"

definition qmrom_a0_wait_ready :: "'w dev \<Rightarrow> 'w rom \<Rightarrow> ('w, int) rom_result" where
  "qmrom_a0_wait_ready d s = do {
     let retries = rom_retries s;
     (_, s) \<leftarrow> qmrom_a0_poll_soc d s;
     (_, s) \<leftarrow> a0_ready_loop d retries s;
     Some (if out_waiting s then 0 else SPI_ERR_WAIT_READY_TIMEOUT, s)
   }"

text \<open>\<open>pre_read\<close>, the length swapped in place, and \<open>read\<close>.\<close>

definition a0_pre_read :: "'w dev \<Rightarrow> 'w rom \<Rightarrow> ('w, unit) rom_result" where
  "a0_pre_read d s = do {
     (_, s) \<leftarrow> qmrom_pre_read d s;
     set_sstc_len (bswap_16 (sstc_len s)) s
   }"

definition a0_read_response :: "'w dev \<Rightarrow> 'w rom \<Rightarrow> ('w, unit) rom_result" where
  "a0_read_response d s = do {
     (_, s) \<leftarrow> a0_pre_read d s;
     (_, s) \<leftarrow> qmrom_read d s;
     Some ((), s)
   }"

definition a0_read_version :: "'w rom \<Rightarrow> ('w, unit) rom_result" where
  "a0_read_version s = do {
     rev_word \<leftarrow> sstc2uint16 s 1;
     Some ((), s\<lparr>rom_chip_rev := int (bswap_16 rev_word mod 256)\<rparr>)
   }"

definition qmrom_a0_probe_device :: "'w dev \<Rightarrow> 'w rom \<Rightarrow> ('w, int) rom_result" where
  "qmrom_a0_probe_device d s =
     and_then (qmrom_reboot_bootloader d (qmrom_spi_set_freq DEFAULT_SPI_CLOCKRATE_A0 (s\<lparr>rom_is_be := True\<rparr>))) (\<lambda>s.
     and_then (qmrom_a0_wait_ready d s) (\<lambda>s. do {
       (_, s) \<leftarrow> a0_pre_read d s;
       if 255 < sstc_len s then Some (- 1, s)
       else do {
         (_, s) \<leftarrow> qmrom_read d s;
         (_, s) \<leftarrow> a0_read_version s;
         if rom_chip_rev s \<noteq> chip_rev_code A0 then Some (- 1, s\<lparr>rom_chip_rev := - 1\<rparr>)
         else Some (0, s\<lparr>rom_flash_fw := Some A0, rom_flash_debug_cert := None, rom_erase_debug_cert := None\<rparr>)
       }
     }))"

definition qmrom_a0_write_data :: "'w dev \<Rightarrow> byte list \<Rightarrow> 'w rom \<Rightarrow> ('w, int) rom_result" where
  "qmrom_a0_write_data d data = send_frame d 0x80 (length data) data"

definition a0_write_chunk :: "'w dev \<Rightarrow> bool \<Rightarrow> byte list \<Rightarrow> 'w rom \<Rightarrow> ('w, int) rom_result" where
  "a0_write_chunk d final data s = do {
     (_, s) \<leftarrow> qmrom_a0_poll_soc d s;
     (_, s) \<leftarrow> a0_read_response d s;
     if sstc_payload0 s \<noteq> SPI_RSP_WAIT_FOR_IMAGE then Some (SPI_PROTO_WRONG_RESP, s)
     else qmrom_a0_write_data d data s
   }"

definition qmrom_a0_write_chunks :: "'w dev \<Rightarrow> byte list \<Rightarrow> 'w rom \<Rightarrow> ('w, int) rom_result" where
  "qmrom_a0_write_chunks d fw s = chunk_loop CHUNK_SIZE_A0 (a0_write_chunk d) fw s"

text \<open>The loop over the answers before the image; \<open>resps\<close> are those still to come.\<close>

fun a0_handshake :: "'w dev \<Rightarrow> nat list \<Rightarrow> 'w rom \<Rightarrow> ('w, int) rom_result" where
  "a0_handshake d [] s = Some (0, s)"
| "a0_handshake d (resp # resps) s = do {
     (_, s) \<leftarrow> qmrom_a0_poll_soc d s;
     (_, s) \<leftarrow> a0_read_response d s;
     if sstc_payload0 s \<noteq> resp then Some (SPI_PROTO_WRONG_RESP, s)
     else if resp < SPI_RSP_WAIT_IMAGE_SIZE then and_then (qmrom_write_cmd d 0 s) (a0_handshake d resps)
     else a0_handshake d resps s
   }"

definition qmrom_a0_flash_fw :: "'w dev \<Rightarrow> byte list \<Rightarrow> 'w rom \<Rightarrow> ('w, int) rom_result" where
  "qmrom_a0_flash_fw d fw s =
     and_then (qmrom_reboot_bootloader d s) (\<lambda>s.
     and_then (qmrom_a0_wait_ready d s) (\<lambda>s. do {
       (_, s) \<leftarrow> a0_read_response d s;
       if sstc_payload0 s \<noteq> SPI_RSP_WAIT_DOWNLOAD_MODE then Some (SPI_PROTO_WRONG_RESP, s)
       else
         and_then (qmrom_write_cmd d ROM_CMD_A0_DOWNLOAD_RRAM_CMD s) (\<lambda>s.
         and_then (a0_handshake d [SPI_RSP_WAIT_FOR_KEY1_CERT..<SPI_RSP_WAIT_FOR_IMAGE] s) (\<lambda>s.
         and_then (qmrom_a0_write_data d (le32_bytes (length fw)) s) (qmrom_a0_write_chunks d fw)))
     }))"

end
