(* ===== verification/Rom_B0.thy ===== *)
theory Rom_B0
  imports Rom_C0
begin

text \<open>
  The boot ROM of the B0 revision (qmrom_b0.c): one-byte commands and chunks of 1008 bytes; the answer
  to each chunk is read before the next one is sent.
\<close>

definition CHUNK_SIZE_B0 :: nat where "CHUNK_SIZE_B0 = 1008"
definition DEFAULT_SPI_CLOCKRATE_B0 :: nat where "DEFAULT_SPI_CLOCKRATE_B0 = 3000000"
definition SPI_SH_READY_CMD_BIT_MASK :: nat where "SPI_SH_READY_CMD_BIT_MASK = 0x20"

datatype b0_cmd =
    ROM_CMD_B0_SEC_LOAD_ICV_IMG_TO_RRAM
  | ROM_CMD_B0_SEC_LOAD_OEM_IMG_TO_RRAM
  | ROM_CMD_B0_GET_CHIP_VER
  | ROM_CMD_B0_GET_SOC_INFO
  | ROM_CMD_B0_ERASE_DBG_CERT
  | ROM_CMD_B0_WRITE_DBG_CERT
  | ROM_CMD_B0_SEC_IMAGE_DATA
  | ROM_CMD_B0_CERT_DATA
  | ROM_CMD_B0_DEBUG_CERT_SIZE

fun b0_cmd_code :: "b0_cmd \<Rightarrow> nat" where
  "b0_cmd_code ROM_CMD_B0_SEC_LOAD_ICV_IMG_TO_RRAM = 0x00"
| "b0_cmd_code ROM_CMD_B0_SEC_LOAD_OEM_IMG_TO_RRAM = 0x01"
| "b0_cmd_code ROM_CMD_B0_GET_CHIP_VER = 0x02"
| "b0_cmd_code ROM_CMD_B0_GET_SOC_INFO = 0x03"
| "b0_cmd_code ROM_CMD_B0_ERASE_DBG_CERT = 0x04"
| "b0_cmd_code ROM_CMD_B0_WRITE_DBG_CERT = 0x05"
| "b0_cmd_code ROM_CMD_B0_SEC_IMAGE_DATA = 0x0f"
| "b0_cmd_code ROM_CMD_B0_CERT_DATA = 0x10"
| "b0_cmd_code ROM_CMD_B0_DEBUG_CERT_SIZE = 0x11"

definition b0_write_cmd :: "'w dev \<Rightarrow> b0_cmd \<Rightarrow> 'w rom \<Rightarrow> ('w, int) rom_result" where
  "b0_write_cmd d cmd = qmrom_write_cmd d (b0_cmd_code cmd)"

definition b0_write_size_cmd :: "'w dev \<Rightarrow> b0_cmd \<Rightarrow> byte list \<Rightarrow> 'w rom \<Rightarrow> ('w, int) rom_result" where
  "b0_write_size_cmd d cmd data = qmrom_write_size_cmd d (b0_cmd_code cmd) data"

section \<open>Polling\<close>

definition b0_poll_once :: "'w dev \<Rightarrow> 'w rom \<Rightarrow> ('w, unit) rom_result" where
  "b0_poll_once d s = do { (_, s) \<leftarrow> transfer_hstc d s; Some ((), s) }"

definition qmrom_b0_poll_soc :: "'w dev \<Rightarrow> 'w rom \<Rightarrow> ('w, unit) rom_result" where
  "qmrom_b0_poll_soc d s = do {
     (_, s) \<leftarrow> clear_hstc s;
     poll_loop (b0_poll_once d) (rom_retries s) s
   }"

fun b0_ready_loop :: "'w dev \<Rightarrow> nat \<Rightarrow> 'w rom \<Rightarrow> ('w, int option) rom_result" where
  "b0_ready_loop d 0 s = Some (None, s)"
| "b0_ready_loop d (Suc r) s =
     (if sstc_raw_flags s = SPI_SH_READY_CMD_BIT_MASK then Some (None, s)
      else if out_waiting s then do {
        (_, s) \<leftarrow> qmrom_pre_read d s;
        b0_ready_loop d r s
      }
      else if out_active s then do {
        (rc, s) \<leftarrow> qmrom_read d s;
        if rc \<noteq> 0 then Some (Some rc, s) else b0_ready_loop d r s
      }
      else do {
        (_, s) \<leftarrow> qmrom_b0_poll_soc d s;
        b0_ready_loop d r s
      })"

definition qmrom_b0_wait_ready :: "'w dev \<Rightarrow> 'w rom \<Rightarrow> ('w, int) rom_result" where
  "qmrom_b0_wait_ready d s = do {
     let retries = rom_retries s;
     (_, s) \<leftarrow> qmrom_b0_poll_soc d s;
     (r, s) \<leftarrow> b0_ready_loop d retries s;
     case r of
       Some rc \<Rightarrow> Some (rc, s)
     | None \<Rightarrow> Some (if sstc_raw_flags s = SPI_SH_READY_CMD_BIT_MASK then 0 else SPI_ERR_WAIT_READY_TIMEOUT, s)
   }"

text \<open>The result is success only when the answer came before the last allowed turn.\<close>

fun b0_resp_loop :: "'w dev \<Rightarrow> nat \<Rightarrow> 'w rom \<Rightarrow> ('w, int) rom_result" where
  "b0_resp_loop d retries s =
     (if out_waiting s then do {
        (_, s) \<leftarrow> qmrom_pre_read d s;
        if 255 < sstc_len s then Some (- 1, s)
        else do {
          (_, s) \<leftarrow> qmrom_read d s;
          Some (if 0 < retries then 0 else - 1, s)
        }
      }
      else do {
        (_, s) \<leftarrow> qmrom_b0_poll_soc d s;
        (case retries of 0 \<Rightarrow> Some (- 1, s) | Suc r \<Rightarrow> b0_resp_loop d r s)
      })"

definition qmrom_b0_poll_cmd_resp :: "'w dev \<Rightarrow> 'w rom \<Rightarrow> ('w, int) rom_result" where
  "qmrom_b0_poll_cmd_resp d s = do {
     let retries = rom_retries s;
     (_, s) \<leftarrow> qmrom_b0_poll_soc d s;
     b0_resp_loop d retries s
   }"

lemmas [simp del] = b0_resp_loop.simps

section \<open>Operations\<close>

definition b0_soc_info :: "'w rom \<Rightarrow> ('w, int) rom_result" where
  "b0_soc_info s = do {
     soc \<leftarrow> mem_read (rom_sstc s) 5 ROM_SOC_ID_LEN;
     lcs \<leftarrow> mem_read (rom_sstc s) (5 + ROM_SOC_ID_LEN) 1;
     uuid \<leftarrow> mem_read (rom_sstc s) (6 + ROM_SOC_ID_LEN) ROM_UUID_LEN;
     Some (0, s\<lparr>rom_soc_id := rev soc, rom_lcs_state := unat (hd lcs), rom_uuid := rev uuid,
       rom_flash_fw := Some B0, rom_flash_unstitched_fw := Some B0,
       rom_flash_debug_cert := Some B0, rom_erase_debug_cert := Some B0\<rparr>)
   }"

definition qmrom_b0_probe_device :: "'w dev \<Rightarrow> 'w rom \<Rightarrow> ('w, int) rom_result" where
  "qmrom_b0_probe_device d s =
     and_then (qmrom_reboot_bootloader d (qmrom_spi_set_freq DEFAULT_SPI_CLOCKRATE_B0 (s\<lparr>rom_is_be := False\<rparr>))) (\<lambda>s.
     and_then (qmrom_b0_wait_ready d s) (\<lambda>s.
     and_then (b0_write_cmd d ROM_CMD_B0_GET_CHIP_VER s) (\<lambda>s.
     and_then (qmrom_b0_poll_cmd_resp d s) (\<lambda>s. do {
       (_, s) \<leftarrow> read_version 1 3 s;
       if rom_chip_rev s \<noteq> chip_rev_code B0 then Some (- 1, s\<lparr>rom_chip_rev := - 1\<rparr>)
       else
         and_then (qmrom_b0_wait_ready d s) (\<lambda>s.
         and_then (b0_write_cmd d ROM_CMD_B0_GET_SOC_INFO s) (\<lambda>s.
         and_then (qmrom_b0_poll_cmd_resp d s) b0_soc_info))
     }))))"

text \<open>One turn of \<open>qmrom_b0_flash_data\<close>.\<close>

definition b0_flash_chunk ::
  "'w dev \<Rightarrow> b0_cmd \<Rightarrow> rom_resp \<Rightarrow> bool \<Rightarrow> byte list \<Rightarrow> 'w rom \<Rightarrow> ('w, int) rom_result" where
  "b0_flash_chunk d cmd expected final data s = do {
     (_, s) \<leftarrow> qmrom_b0_poll_soc d s;
     (_, s) \<leftarrow> qmrom_pre_read d s;
     (_, s) \<leftarrow> qmrom_read d s;
     if sstc_payload0 s \<noteq> resp_code expected then
       Some (if sstc_payload0 s = resp_code ERR_FIRST_KEY_CERT_OR_FW_VER
             then PEG_ERR_FIRST_KEY_CERT_OR_FW_VER else SPI_PROTO_WRONG_RESP, s)
     else b0_write_size_cmd d cmd data s
   }"

definition qmrom_b0_flash_data ::
  "'w dev \<Rightarrow> byte list \<Rightarrow> b0_cmd \<Rightarrow> rom_resp \<Rightarrow> 'w rom \<Rightarrow> ('w, int) rom_result" where
  "qmrom_b0_flash_data d fw cmd expected s = chunk_loop CHUNK_SIZE_B0 (b0_flash_chunk d cmd expected) fw s"

definition b0_flash_cmd :: "nat \<Rightarrow> b0_cmd" where
  "b0_flash_cmd lcs = (if lcs = CC_BSV_SECURE_LCS then ROM_CMD_B0_SEC_LOAD_OEM_IMG_TO_RRAM
                       else ROM_CMD_B0_SEC_LOAD_ICV_IMG_TO_RRAM)"

definition b0_send_parts :: "'w dev \<Rightarrow> unstitched_firmware \<Rightarrow> 'w rom \<Rightarrow> ('w, int) rom_result" where
  "b0_send_parts d fws s =
     and_then (qmrom_b0_flash_data d (key1_crt fws) ROM_CMD_B0_CERT_DATA WAITING_FOR_FIRST_KEY_CERT s) (\<lambda>s.
     and_then (qmrom_b0_flash_data d (key2_crt fws) ROM_CMD_B0_CERT_DATA WAITING_FOR_SECOND_KEY_CERT s) (\<lambda>s.
     and_then (qmrom_b0_flash_data d (fw_crt fws) ROM_CMD_B0_CERT_DATA WAITING_FOR_CONTENT_CERT s) (\<lambda>s.
     qmrom_b0_flash_data d (fw_img fws) ROM_CMD_B0_SEC_IMAGE_DATA WAITING_FOR_SEC_FILE_DATA s)))"

definition qmrom_b0_flash_unstitched_fw :: "'w dev \<Rightarrow> unstitched_firmware \<Rightarrow> 'w rom \<Rightarrow> ('w, int) rom_result" where
  "qmrom_b0_flash_unstitched_fw d fws s =
     (case check_platform (key1_crt fws) (rom_lcs_state s) of
        None \<Rightarrow> None
      | Some False \<Rightarrow> Some (- EINVAL, s)
      | Some True \<Rightarrow>
          and_then (qmrom_b0_wait_ready d s) (\<lambda>s.
          and_then (b0_write_cmd d (b0_flash_cmd (rom_lcs_state s)) s) (b0_send_parts d fws)))"

definition qmrom_b0_flash_fw :: "'w dev \<Rightarrow> byte list \<Rightarrow> 'w rom \<Rightarrow> ('w, int) rom_result" where
  "qmrom_b0_flash_fw d fw s = do {
     (rc, fws, w) \<leftarrow> qmrom_unstitch_fw d fw (rom_chip_rev s) (rom_world s);
     let s = s\<lparr>rom_world := w\<rparr>;
     case fws of None \<Rightarrow> Some (rc, s) | Some fws \<Rightarrow> qmrom_b0_flash_unstitched_fw d fws s
   }"

definition qmrom_b0_flash_debug_cert :: "'w dev \<Rightarrow> byte list \<Rightarrow> 'w rom \<Rightarrow> ('w, int) rom_result" where
  "qmrom_b0_flash_debug_cert d dbg_cert s =
     and_then (qmrom_b0_wait_ready d s) (\<lambda>s.
     and_then (b0_write_cmd d ROM_CMD_B0_WRITE_DBG_CERT s) (\<lambda>s. do {
       (_, s) \<leftarrow> qmrom_b0_poll_soc d s;
       (_, s) \<leftarrow> qmrom_pre_read d s;
       (_, s) \<leftarrow> qmrom_read d s;
       (rc, s) \<leftarrow> b0_write_size_cmd d ROM_CMD_B0_DEBUG_CERT_SIZE (le32_bytes (length dbg_cert)) s;
       if sstc_payload0 s \<noteq> resp_code WAITING_TO_DEBUG_CERTIFICATE_SIZE then Some (SPI_PROTO_WRONG_RESP, s)
       else if rc \<noteq> 0 then Some (rc, s)
       else do {
         (_, s) \<leftarrow> qmrom_b0_flash_data d dbg_cert ROM_CMD_B0_CERT_DATA WAITING_FOR_DEBUG_CERT_DATA s;
         Some (0, s)
       }
     }))"

text \<open>The first result is tested for success, not for failure.\<close>

definition qmrom_b0_erase_debug_cert :: "'w dev \<Rightarrow> 'w rom \<Rightarrow> ('w, int) rom_result" where
  "qmrom_b0_erase_debug_cert d s = do {
     (rc, s) \<leftarrow> qmrom_b0_wait_ready d s;
     if rc = 0 then Some (rc, s)
     else b0_write_cmd d ROM_CMD_B0_ERASE_DBG_CERT s
   }"

end
