(* ===== verification/Rom_Ops.thy ===== *)
theory Rom_Ops
  imports Rom_A0 Rom_B0
begin

text \<open>
  The entry points of libqmrom (qmrom_common.c): probing the three revisions, setting up a handle, and
  the operations dispatched through \<open>rom_ops\<close>.  \<open>d\<close> is the device the handle's pointers stand for.
\<close>

definition qmrom_probe_device :: "'w dev \<Rightarrow> 'w rom \<Rightarrow> ('w, int) rom_result" where
  "qmrom_probe_device d s = do {
     (rc, s) \<leftarrow> qmrom_b0_probe_device d s;
     if rc = 0 then Some (rc, s)
     else do {
       (rc, s) \<leftarrow> qmrom_c0_probe_device d s;
       if rc = 0 then Some (rc, s)
       else do {
         (rc, s) \<leftarrow> qmrom_a0_probe_device d s;
         if rc = 0 then Some (rc, s) else Some (- 1, s)
       }
     }
   }"

text \<open>A handle after its allocation: zeroed, with two zeroed frame buffers.\<close>

definition qmrom_new_handle :: "nat \<Rightarrow> nat \<Rightarrow> 'w \<Rightarrow> 'w rom" where
  "qmrom_new_handle comms_retries speed_hz w =
     \<lparr>rom_world = w, rom_sent = [], rom_speed_hz = speed_hz, rom_retries = comms_retries,
      rom_chip_rev = CHIP_REVISION_UNKNOWN, rom_device_version = 65535, rom_lcs_state = 4294967295,
      rom_hstc = replicate (MAX_STC_FRAME_LEN + 4) 0, rom_sstc = replicate (MAX_STC_FRAME_LEN + 4) 0,
      rom_soc_id = replicate ROM_SOC_ID_LEN 0, rom_uuid = replicate ROM_UUID_LEN 0, rom_is_be = False,
      rom_flash_fw = None, rom_flash_unstitched_fw = None, rom_flash_debug_cert = None,
      rom_erase_debug_cert = None\<rparr>"

text \<open>The handle, or the null pointer; and the world.  Handle and buffers are three allocations.\<close>

definition qmrom_init :: "'w dev \<Rightarrow> nat \<Rightarrow> nat \<Rightarrow> 'w \<Rightarrow> ('w rom option \<times> 'w) option" where
  "qmrom_init d comms_retries speed_hz w =
     (let (ok, w) = allocs d 3 w in
        if \<not> ok then Some (None, w)
        else do {
          (rc, s) \<leftarrow> qmrom_probe_device d (qmrom_new_handle comms_retries speed_hz w);
          Some (if rc \<noteq> 0 then None else Some s, rom_world s)
        })"

definition qmrom_flash_dbg_cert :: "'w dev \<Rightarrow> byte list \<Rightarrow> 'w rom \<Rightarrow> ('w, int) rom_result" where
  "qmrom_flash_dbg_cert d cert s =
     (case rom_flash_debug_cert s of
        None \<Rightarrow> Some (- EINVAL, s)
      | Some C0 \<Rightarrow> qmrom_c0_flash_debug_cert d cert s
      | Some B0 \<Rightarrow> qmrom_b0_flash_debug_cert d cert s
      | Some A0 \<Rightarrow> None)"

definition qmrom_erase_dbg_cert :: "'w dev \<Rightarrow> 'w rom \<Rightarrow> ('w, int) rom_result" where
  "qmrom_erase_dbg_cert d s =
     (case rom_erase_debug_cert s of
        None \<Rightarrow> Some (- EINVAL, s)
      | Some C0 \<Rightarrow> qmrom_c0_erase_debug_cert d s
      | Some B0 \<Rightarrow> qmrom_b0_erase_debug_cert d s
      | Some A0 \<Rightarrow> None)"

definition qmrom_flash_fw :: "'w dev \<Rightarrow> byte list \<Rightarrow> 'w rom \<Rightarrow> ('w, int) rom_result" where
  "qmrom_flash_fw d fw s =
     (case rom_flash_fw s of
        None \<Rightarrow> None
      | Some C0 \<Rightarrow> qmrom_c0_flash_fw d fw s
      | Some B0 \<Rightarrow> qmrom_b0_flash_fw d fw s
      | Some A0 \<Rightarrow> qmrom_a0_flash_fw d fw s)"

definition qmrom_flash_unstitched_fw :: "'w dev \<Rightarrow> unstitched_firmware \<Rightarrow> 'w rom \<Rightarrow> ('w, int) rom_result" where
  "qmrom_flash_unstitched_fw d fws s =
     (case rom_flash_unstitched_fw s of
        Some B0 \<Rightarrow> qmrom_b0_flash_unstitched_fw d fws s
      | _ \<Rightarrow> None)"

end
