(* ===== verification/Driver.thy ===== *)
theory Driver
  imports Hsspi Rom_Ops
begin

text \<open>
  The SPI driver around the HSSPI core (qm35-spi.c, qm35.h, uci_ioctls.h, and the firmware lookup of
  qmrom_spi.c): the state of the chip, its supplies and its reset line, starting and stopping the core
  with the interrupt that goes with it, loading a firmware, the ioctls of the UCI device, suspend and
  resume.

  Two things are parameters.  \<open>await\<close> is what the HSSPI thread does to the core while a caller waits for
  its completion.  The record \<open>platform\<close> holds the chip behind the SPI bus, the regulators, the firmware
  files and the module parameters.
\<close>

section \<open>The state\<close>

datatype ctrl_state =
    QM35_CTRL_STATE_UNKNOWN
  | QM35_CTRL_STATE_OFF
  | QM35_CTRL_STATE_RESET
  | QM35_CTRL_STATE_COREDUMP
  | QM35_CTRL_STATE_READY
  | QM35_CTRL_STATE_FW_DOWNLOADING
  | QM35_CTRL_STATE_UCI_APP

fun ctrl_state_code :: "ctrl_state \<Rightarrow> nat" where
  "ctrl_state_code QM35_CTRL_STATE_UNKNOWN = 0x0000"
| "ctrl_state_code QM35_CTRL_STATE_OFF = 0x0001"
| "ctrl_state_code QM35_CTRL_STATE_RESET = 0x0002"
| "ctrl_state_code QM35_CTRL_STATE_COREDUMP = 0x0004"
| "ctrl_state_code QM35_CTRL_STATE_READY = 0x0008"
| "ctrl_state_code QM35_CTRL_STATE_FW_DOWNLOADING = 0x0010"
| "ctrl_state_code QM35_CTRL_STATE_UCI_APP = 0x0020"

text \<open>
  What the boot ROM library and the driver share: the rest of the world, the state of the chip and the
  level of the reset line, if there is one.
\<close>

type_synonym 'w chip_side = "'w \<times> ctrl_state \<times> bool option"

record 'w platform =
  pl_dev :: "'w dev"
  pl_regulator :: "nat \<Rightarrow> bool \<Rightarrow> 'w \<Rightarrow> int \<times> 'w"
  pl_request_firmware :: "string \<Rightarrow> byte list option"
  pl_fwname :: "string option"
  pl_qmrom_retries :: nat
  pl_reset_on_error :: bool
  pl_NO_UWB_HAL :: bool

text \<open>
  \<open>struct qm35_ctx\<close>.  A supply that the device tree does not define is \<open>None\<close>, one that it does is the
  number of times this driver has enabled it more often than disabled it.  \<open>q_rdy_irq\<close> is the disable
  depth of the SS_READY interrupt, or \<open>None\<close> when \<open>gpiod_to_irq\<close> fails.  \<open>q_handles\<close> are the handles
  of libqmrom that are allocated.
\<close>

record ('l, 'b, 'w) qm35 =
  q_hsspi :: "('l, 'b) hsspi"
  q_state :: ctrl_state
  q_gpio_reset :: "bool option"
  q_vdd :: "int option list"
  q_regulators_enabled :: bool
  q_rdy_irq :: "int option"
  q_dev_id :: nat
  q_soc_id :: "byte list"
  q_world :: 'w
  q_handles :: "'w chip_side rom list"

definition qm35_get_state :: "('l, 'b, 'w) qm35 \<Rightarrow> ctrl_state" where
  "qm35_get_state s = q_state s"

definition qm35_set_state :: "ctrl_state \<Rightarrow> ('l, 'b, 'w) qm35 \<Rightarrow> ('l, 'b, 'w) qm35" where
  "qm35_set_state st s = s\<lparr>q_state := st\<rparr>"

text \<open>\<open>qm35_reset\<close> on the two fields it uses.\<close>

definition reset_line :: "bool \<Rightarrow> ctrl_state \<times> bool option \<Rightarrow> int \<times> ctrl_state \<times> bool option" where
  "reset_line run sg =
     (case sg of
        (st, None) \<Rightarrow> (- ENODEV, st, None)
      | (st, Some _) \<Rightarrow>
          if \<not> run then (0, QM35_CTRL_STATE_RESET, Some True)
          else (0, QM35_CTRL_STATE_UNKNOWN, Some False))"

definition qm35_reset :: "bool \<Rightarrow> ('l, 'b, 'w) qm35 \<Rightarrow> int \<times> ('l, 'b, 'w) qm35" where
  "qm35_reset run s =
     (let (rc, st, g) = reset_line run (q_state s, q_gpio_reset s)
      in (rc, s\<lparr>q_state := st, q_gpio_reset := g\<rparr>))"

section \<open>Supplies\<close>

definition REGULATORS_ENABLED :: "('l, 'b, 'w) qm35 \<Rightarrow> bool" where
  "REGULATORS_ENABLED s \<longleftrightarrow> (\<exists>v \<in> set (q_vdd s). v \<noteq> None)"

text \<open>\<open>regulator_enable\<close> and \<open>regulator_disable\<close> count when they return 0.\<close>

definition qm35_regulator_set_one ::
  "'w platform \<Rightarrow> nat \<Rightarrow> bool \<Rightarrow> int option \<Rightarrow> 'w \<Rightarrow> int \<times> int option \<times> 'w" where
  "qm35_regulator_set_one pl i on reg w =
     (case reg of
        None \<Rightarrow> (0, None, w)
      | Some n \<Rightarrow>
          (let (ret, w) = pl_regulator pl i on w
           in (ret, Some (if ret \<noteq> 0 then n else if on then n + 1 else n - 1), w)))"

text \<open>The four supplies in order; an error is only printed.\<close>

fun set_supplies ::
  "'w platform \<Rightarrow> bool \<Rightarrow> nat \<Rightarrow> int option list \<Rightarrow> 'w \<Rightarrow> int option list \<times> 'w" where
  "set_supplies pl on i [] w = ([], w)"
| "set_supplies pl on i (r # rs) w =
     (let (_, r, w) = qm35_regulator_set_one pl i on r w; (rs, w) = set_supplies pl on (Suc i) rs w
      in (r # rs, w))"

definition qm35_regulators_set :: "'w platform \<Rightarrow> bool \<Rightarrow> ('l, 'b, 'w) qm35 \<Rightarrow> ('l, 'b, 'w) qm35" where
  "qm35_regulators_set pl on0 s =
     (let on = (if pl_NO_UWB_HAL pl then True else on0);
          is_enabled = q_regulators_enabled s;
          s = s\<lparr>q_regulators_enabled := on\<rparr>
      in if is_enabled = on then s
         else let (vdd, w) = set_supplies pl on 0 (q_vdd s) (q_world s)
              in s\<lparr>q_vdd := vdd, q_world := w\<rparr>)"

section \<open>Starting and stopping the core\<close>

definition enable_rdy_irq :: "('l, 'b, 'w) qm35 \<Rightarrow> ('l, 'b, 'w) qm35" where
  "enable_rdy_irq s = s\<lparr>q_rdy_irq := map_option (\<lambda>d. d - 1) (q_rdy_irq s)\<rparr>"

definition disable_rdy_irq :: "('l, 'b, 'w) qm35 \<Rightarrow> ('l, 'b, 'w) qm35" where
  "disable_rdy_irq s =
     (case q_rdy_irq s of
        None \<Rightarrow> s
      | Some d \<Rightarrow> s\<lparr>q_rdy_irq := Some (d + 1), q_hsspi := hsspi_clear_spi_slave_ready (q_hsspi s)\<rparr>)"

definition qm35_hsspi_start :: "('l, 'b, 'w) qm35 \<Rightarrow> ('l, 'b, 'w) qm35" where
  "qm35_hsspi_start s =
     (if hs_state (q_hsspi s) = HSSPI_RUNNING then s
      else let s = enable_rdy_irq s in s\<lparr>q_hsspi := hsspi_start (q_hsspi s)\<rparr>)"

text \<open>\<open>hsspi_stop\<close> and \<open>hsspi_unregister\<close> with their waits, as their callers see them.\<close>

type_synonym ('l, 'b) await = "('l, 'b) hsspi \<Rightarrow> ('l, 'b) hsspi"

definition stop_and_wait :: "('l, 'b) await \<Rightarrow> ('l, 'b, 'w) qm35 \<Rightarrow> ('l, 'b, 'w) qm35" where
  "stop_and_wait await s = s\<lparr>q_hsspi := await (hsspi_stop 0 (q_hsspi s))\<rparr>"

definition unregister_and_wait ::
  "('l, 'b) await \<Rightarrow> hsspi_layer \<Rightarrow> ('l, 'b, 'w) qm35 \<Rightarrow> int \<times> ('l, 'b, 'w) qm35" where
  "unregister_and_wait await layer s =
     (let (rc, core) = hsspi_unregister layer 0 (q_hsspi s)
      in (rc, s\<lparr>q_hsspi := (if rc = 0 then await core else core)\<rparr>))"

definition qm35_hsspi_stop :: "('l, 'b) await \<Rightarrow> ('l, 'b, 'w) qm35 \<Rightarrow> ('l, 'b, 'w) qm35" where
  "qm35_hsspi_stop await s =
     (if hs_state (q_hsspi s) = HSSPI_STOPPED then s
      else disable_rdy_irq (stop_and_wait await s))"

definition qm35_reset_sync :: "('l, 'b) await \<Rightarrow> ('l, 'b, 'w) qm35 \<Rightarrow> int \<times> ('l, 'b, 'w) qm35" where
  "qm35_reset_sync await s =
     (let s = qm35_hsspi_stop await s; (ret, s) = qm35_reset True s
      in (ret, qm35_hsspi_start s))"

text \<open>\<open>qm35_reset_hook\<close>, the core's \<open>reset_qm35\<close>.\<close>

definition qm35_reset_hook :: "'w platform \<Rightarrow> ('l, 'b, 'w) qm35 \<Rightarrow> ('l, 'b, 'w) qm35" where
  "qm35_reset_hook pl s = (if pl_reset_on_error pl then snd (qm35_reset True s) else s)"

section \<open>Loading a firmware\<close>

text \<open>The chip as libqmrom sees it; its reset callback is \<open>qmrom_spi_reset_device\<close>.\<close>

definition qmrom_spi_reset_device :: "'w chip_side \<Rightarrow> int \<times> 'w chip_side" where
  "qmrom_spi_reset_device ws = (let (w, sg) = ws; (rc, sg) = reset_line True sg in (rc, w, sg))"

definition chip_dev :: "'w dev \<Rightarrow> 'w chip_side dev" where
  "chip_dev d =
     \<lparr>dev_xfer = (\<lambda>hz tx (w, sg). let (rc, rx, w) = dev_xfer d hz tx w in (rc, rx, w, sg)),
      dev_ready = (\<lambda>(w, sg). let (v, w) = dev_ready d w in (v, w, sg)),
      dev_cs = (\<lambda>hz change (w, sg). let (rc, w) = dev_cs d hz change w in (rc, w, sg)),
      dev_reset = qmrom_spi_reset_device,
      dev_alloc = (\<lambda>(w, sg). let (ok, w) = dev_alloc d w in (ok, w, sg))\<rparr>"

definition fw_name :: "string option \<Rightarrow> int \<Rightarrow> nat \<Rightarrow> bool \<Rightarrow> string" where
  "fw_name fwname revision lcs_state use_prod_fw =
     (case fwname of
        Some name \<Rightarrow> name
      | None \<Rightarrow>
          if revision = chip_rev_code A0 then ''qm35_a0.bin''
          else if lcs_state = CC_BSV_SECURE_LCS then
            (if use_prod_fw then ''qm35_b0_oem_prod.bin'' else ''qm35_b0_oem.bin'')
          else ''qm35_b0_icv.bin'')"

definition qmrom_spi_get_firmware :: "'w platform \<Rightarrow> 'v rom \<Rightarrow> bool \<Rightarrow> byte list option" where
  "qmrom_spi_get_firmware pl h use_prod_fw =
     pl_request_firmware pl (fw_name (pl_fwname pl) (rom_chip_rev h) (rom_lcs_state h) use_prod_fw)"

definition qm_firmware_flashing ::
  "'w platform \<Rightarrow> 'w chip_side rom \<Rightarrow> bool \<Rightarrow> ('w chip_side, int) rom_result" where
  "qm_firmware_flashing pl h use_prod_fw =
     (case qmrom_spi_get_firmware pl h use_prod_fw of
        None \<Rightarrow> Some (- 1, h)
      | Some fw \<Rightarrow> qmrom_flash_fw (chip_dev (pl_dev pl)) fw h)"

text \<open>
  The handle is not freed.  The clock that \<open>qmrom_init\<close> finds does not matter: each probe sets it
  before its first transfer.
\<close>

definition put_chip_side :: "'w chip_side \<Rightarrow> ('l, 'b, 'w) qm35 \<Rightarrow> ('l, 'b, 'w) qm35" where
  "put_chip_side ws s = (case ws of (w, st, g) \<Rightarrow> s\<lparr>q_world := w, q_state := st, q_gpio_reset := g\<rparr>)"

definition record_soc_info :: "'v rom \<Rightarrow> ('l, 'b, 'w) qm35 \<Rightarrow> ('l, 'b, 'w) qm35" where
  "record_soc_info h s =
     (if rom_chip_rev h \<noteq> chip_rev_code A0
      then s\<lparr>q_dev_id := rom_device_version h, q_soc_id := rom_soc_id h\<rparr> else s)"

definition flash_twice ::
  "'w platform \<Rightarrow> 'w chip_side rom \<Rightarrow> ('w chip_side, int) rom_result" where
  "flash_twice pl h = do {
     (ret, h) \<leftarrow> qm_firmware_flashing pl h True;
     if ret = 0 then Some (ret, h)
     else do {
       (_, h) \<leftarrow> qmrom_reboot_bootloader (chip_dev (pl_dev pl)) h;
       qm_firmware_flashing pl h False
     }
   }"

definition qm_firmware_load ::
  "'w platform \<Rightarrow> ('l, 'b, 'w) qm35 \<Rightarrow> (int \<times> ('l, 'b, 'w) qm35) option" where
  "qm_firmware_load pl s0 = do {
     let state = qm35_get_state s0;
     let s = qm35_set_state QM35_CTRL_STATE_FW_DOWNLOADING s0;
     (h, ws) \<leftarrow> qmrom_init (chip_dev (pl_dev pl)) (pl_qmrom_retries pl) 0 (q_world s, q_state s, q_gpio_reset s);
     case h of
       None \<Rightarrow> Some (- 1, qm35_set_state state (put_chip_side ws s))
     | Some h \<Rightarrow> do {
         let s = record_soc_info h s;
         (ret, h) \<leftarrow> flash_twice pl h;
         Some (ret, qm35_set_state state (put_chip_side (rom_world h) (s\<lparr>q_handles := q_handles s @ [h]\<rparr>)))
       }
   }"

definition qm_get_dev_id :: "('l, 'b, 'w) qm35 \<Rightarrow> int \<times> nat" where
  "qm_get_dev_id s = (0, q_dev_id s)"

definition qm_get_soc_id :: "('l, 'b, 'w) qm35 \<Rightarrow> int \<times> byte list" where
  "qm_get_soc_id s = (0, q_soc_id s)"

section \<open>The UCI device\<close>

definition register_layer :: "hsspi_layer \<Rightarrow> ('l, 'b, 'w) qm35 \<Rightarrow> int \<times> ('l, 'b, 'w) qm35" where
  "register_layer layer s =
     (let (rc, core) = hsspi_register layer (q_hsspi s) in (rc, s\<lparr>q_hsspi := core\<rparr>))"

definition uci_open :: "('l, 'b, 'w) qm35 \<Rightarrow> int \<times> ('l, 'b, 'w) qm35" where
  "uci_open s = register_layer uci_lay s"

definition uci_release :: "('l, 'b) await \<Rightarrow> ('l, 'b, 'w) qm35 \<Rightarrow> int \<times> ('l, 'b, 'w) qm35" where
  "uci_release await s = (let (_, s) = unregister_and_wait await uci_lay s in (0, s))"

text \<open>
  The requests, with what the user's memory does: \<open>fault\<close> is whether \<open>copy_to_user\<close> fails, and
  \<open>QM35_CTRL_POWER\<close> has the result of \<open>get_user\<close> and the value read.
\<close>

datatype ioctl_req =
    QM35_CTRL_RESET bool
  | QM35_CTRL_GET_STATE bool
  | QM35_CTRL_FW_UPLOAD bool
  | QM35_CTRL_POWER int nat
  | Other_ioctl

text \<open>The result, the state stored for the user, and the new state of the driver.\<close>

type_synonym ('l, 'b, 'w) ioctl_result = "int \<times> ctrl_state option \<times> ('l, 'b, 'w) qm35"

definition copy_state :: "bool \<Rightarrow> ('l, 'b, 'w) qm35 \<Rightarrow> ('l, 'b, 'w) ioctl_result" where
  "copy_state fault s = (if fault then (- EFAULT, None, s) else (0, Some (q_state s), s))"

definition ioctl_reset :: "('l, 'b) await \<Rightarrow> bool \<Rightarrow> ('l, 'b, 'w) qm35 \<Rightarrow> ('l, 'b, 'w) ioctl_result" where
  "ioctl_reset await fault s =
     (let s = qm35_hsspi_stop await s; (ret, s) = qm35_reset True s; s = qm35_hsspi_start s
      in if ret \<noteq> 0 then (ret, None, s) else copy_state fault s)"

definition ioctl_fw_upload ::
  "'w platform \<Rightarrow> ('l, 'b) await \<Rightarrow> bool \<Rightarrow> ('l, 'b, 'w) qm35 \<Rightarrow> ('l, 'b, 'w) ioctl_result option" where
  "ioctl_fw_upload pl await fault s = do {
     (ret, s) \<leftarrow> qm_firmware_load pl (qm35_hsspi_stop await s);
     let s = qm35_hsspi_start s;
     Some (if ret \<noteq> 0 then (ret, None, s) else copy_state fault s)
   }"

definition ioctl_power ::
  "'w platform \<Rightarrow> ('l, 'b) await \<Rightarrow> int \<Rightarrow> nat \<Rightarrow> ('l, 'b, 'w) qm35 \<Rightarrow> ('l, 'b, 'w) ioctl_result" where
  "ioctl_power pl await ret on s =
     (if ret \<noteq> 0 then (ret, None, s)
      else
        let s = qm35_hsspi_stop await s;
            s = (if REGULATORS_ENABLED s then qm35_regulators_set pl (on \<noteq> 0) s else s);
            (_, s) = qm35_reset (on \<noteq> 0) s;
            s = (if \<not> REGULATORS_ENABLED s \<or> REGULATORS_ENABLED s \<and> on \<noteq> 0 then qm35_hsspi_start s else s)
        in (0, None, s))"

definition uci_ioctl ::
  "'w platform \<Rightarrow> ('l, 'b) await \<Rightarrow> ioctl_req \<Rightarrow> ('l, 'b, 'w) qm35 \<Rightarrow> ('l, 'b, 'w) ioctl_result option" where
  "uci_ioctl pl await req s =
     (case req of
        QM35_CTRL_GET_STATE fault \<Rightarrow> Some (copy_state fault s)
      | QM35_CTRL_RESET fault \<Rightarrow> Some (ioctl_reset await fault s)
      | QM35_CTRL_FW_UPLOAD fault \<Rightarrow> ioctl_fw_upload pl await fault s
      | QM35_CTRL_POWER ret on \<Rightarrow> Some (ioctl_power pl await ret on s)
      | Other_ioctl \<Rightarrow> Some (- EINVAL, None, s))"

section \<open>Interrupts and power management\<close>

text \<open>\<open>qm35_irq_handler\<close> of the driver: the chip is ready, and the core's part of the handler.\<close>

definition drv_irq_handler :: "('l, 'b, 'w) qm35 \<Rightarrow> ('l, 'b, 'w) qm35" where
  "drv_irq_handler s = s\<lparr>q_state := QM35_CTRL_STATE_READY, q_hsspi := qm35_irq_handler (q_hsspi s)\<rparr>"

definition qm35_pm_suspend :: "('l, 'b) await \<Rightarrow> ('l, 'b, 'w) qm35 \<Rightarrow> int \<times> ('l, 'b, 'w) qm35" where
  "qm35_pm_suspend await s = (0, qm35_hsspi_stop await s)"

definition qm35_pm_resume :: "('l, 'b, 'w) qm35 \<Rightarrow> int \<times> ('l, 'b, 'w) qm35" where
  "qm35_pm_resume s = (0, qm35_hsspi_start s)"

end
