(* ===== verification/Driver_Probe.thy ===== *)
theory Driver_Probe
  imports Driver
begin

text \<open>
  Setting up and removing the driver (qm35-spi.c): \<open>qm35_probe\<close> with its chain of labels,
  \<open>hsspi_irqs_setup\<close> and \<open>qm35_remove\<close>.

  The results of the calls into the rest of the kernel, and of the initialisers of the layers, are the
  records \<open>irqs_env\<close> and \<open>probe_env\<close>.  What \<open>devm\<close> releases by itself is not tracked; the resources that
  the driver must release are the set \<open>pr_held\<close>, beside the layer table and the thread state of the core.
  Waking the queue of the debug files before \<open>init_waitqueue_head\<close> is a null-pointer access, \<open>None\<close>.
\<close>

section \<open>Interrupts\<close>

text \<open>An error number, or 0; an optional GPIO is an error, or whether it exists.\<close>

record irqs_env =
  ir_wake_on_ssirq :: bool
  ir_wake_use_csn :: bool
  ir_wake_use_wakeup :: bool
  ir_ss_rdy :: int
  ir_request_ss_rdy :: int
  ir_ss_irq :: "int + bool"
  ir_enable_wake :: int
  ir_request_ss_irq :: int
  ir_exton :: "int + bool"
  ir_request_exton :: int
  ir_exton_level :: bool
  ir_csn :: int
  ir_wakeup :: int

text \<open>From the exton line to the end.\<close>

definition gpios_setup :: "irqs_env \<Rightarrow> int" where
  "gpios_setup e =
     (if ir_wake_use_csn e \<and> ir_csn e \<noteq> 0 then ir_csn e
      else if ir_wake_use_wakeup e \<and> ir_wakeup e \<noteq> 0 then ir_wakeup e
      else 0)"

definition exton_setup :: "irqs_env \<Rightarrow> ('l, 'b, 'w) qm35 \<Rightarrow> int \<times> ('l, 'b, 'w) qm35" where
  "exton_setup e s =
     (case ir_exton e of
        Inl err \<Rightarrow> (err, s)
      | Inr False \<Rightarrow> (gpios_setup e, s)
      | Inr True \<Rightarrow>
          if ir_request_exton e \<noteq> 0 then (ir_request_exton e, s)
          else (gpios_setup e,
                if \<not> ir_exton_level e then s\<lparr>q_hsspi := hsspi_clear_spi_slave_ready (q_hsspi s)\<rparr> else s))"

definition hsspi_irqs_setup :: "irqs_env \<Rightarrow> ('l, 'b, 'w) qm35 \<Rightarrow> int \<times> ('l, 'b, 'w) qm35" where
  "hsspi_irqs_setup e s =
     (if ir_ss_rdy e \<noteq> 0 then (ir_ss_rdy e, s)
      else if ir_request_ss_rdy e \<noteq> 0 then (ir_request_ss_rdy e, s)
      else
        let s = s\<lparr>q_rdy_irq := Some 0\<rparr> in
        case ir_ss_irq e of
          Inl err \<Rightarrow> (err, s)
        | Inr _ \<Rightarrow>
            if ir_wake_on_ssirq e \<and> ir_enable_wake e \<noteq> 0 then (ir_enable_wake e, s)
            else if ir_request_ss_irq e \<noteq> 0 then (ir_request_ss_irq e, s)
            else exton_setup e s)"

section \<open>What the driver holds\<close>

datatype resource =
    Res_debugfs
  | Res_hsspi
  | Res_uci_layer
  | Res_coredump_layer
  | Res_log_layer
  | Res_uci_dev

record ('l, 'b, 'w) probe =
  pr_ctx :: "('l, 'b, 'w) qm35"
  pr_held :: "resource set"
  pr_debug_wq :: bool

record probe_env =
  pb_spi_speed_hz :: int
  pb_spi_setup :: int
  pb_alloc :: bool
  pb_gpio_reset :: "int + bool"
  pb_vdd :: "bool list"
  pb_debug_root :: int
  pb_thread :: int
  pb_uci_layer :: int
  pb_debug :: int
  pb_coredump_layer :: int
  pb_log_layer :: int
  pb_irqs :: irqs_env
  pb_flash_on_probe :: bool
  pb_misc :: int

definition hold :: "resource \<Rightarrow> ('l, 'b, 'w) probe \<Rightarrow> ('l, 'b, 'w) probe" where
  "hold r p = p\<lparr>pr_held := insert r (pr_held p)\<rparr>"

definition release :: "resource \<Rightarrow> ('l, 'b, 'w) probe \<Rightarrow> ('l, 'b, 'w) probe" where
  "release r p = p\<lparr>pr_held := pr_held p - {r}\<rparr>"

definition on_ctx ::
  "(('l, 'b, 'w) qm35 \<Rightarrow> ('l, 'b, 'w) qm35) \<Rightarrow> ('l, 'b, 'w) probe \<Rightarrow> ('l, 'b, 'w) probe" where
  "on_ctx f p = p\<lparr>pr_ctx := f (pr_ctx p)\<rparr>"

text \<open>\<open>probe_debug_deinit\<close> wakes the queue, then removes the directory and all its files.\<close>

definition probe_debug_deinit :: "('l, 'b, 'w) probe \<Rightarrow> ('l, 'b, 'w) probe option" where
  "probe_debug_deinit p = (if pr_debug_wq p then Some (release Res_debugfs p) else None)"

text \<open>\<open>probe_debug_init\<close> undoes itself when it fails, down to the root directory.\<close>

definition probe_debug_init :: "int \<Rightarrow> ('l, 'b, 'w) probe \<Rightarrow> (int \<times> ('l, 'b, 'w) probe) option" where
  "probe_debug_init rc p =
     (let p = p\<lparr>pr_debug_wq := True\<rparr>
      in if rc \<noteq> 0 then map_option (\<lambda>p. (- 1, p)) (probe_debug_deinit p) else Some (0, p))"

definition hsspi_test_init :: "('l, 'b, 'w) qm35 \<Rightarrow> int \<times> ('l, 'b, 'w) qm35" where
  "hsspi_test_init s = register_layer test_hsspi_layer s"

definition hsspi_test_deinit :: "('l, 'b) await \<Rightarrow> ('l, 'b, 'w) qm35 \<Rightarrow> ('l, 'b, 'w) qm35" where
  "hsspi_test_deinit await s = snd (unregister_and_wait await test_hsspi_layer s)"

definition deinit_core :: "('l, 'b, 'w) probe \<Rightarrow> ('l, 'b, 'w) probe" where
  "deinit_core p = (if hsspi_deinit (q_hsspi (pr_ctx p)) = 0 then release Res_hsspi p else p)"

section \<open>The labels at the end of \<open>qm35_probe\<close>\<close>

definition L_poweroff :: "'w platform \<Rightarrow> ('l, 'b, 'w) probe \<Rightarrow> ('l, 'b, 'w) probe" where
  "L_poweroff pl p = on_ctx (qm35_regulators_set pl False) p"

definition L_hsspi_deinit :: "'w platform \<Rightarrow> ('l, 'b, 'w) probe \<Rightarrow> ('l, 'b, 'w) probe" where
  "L_hsspi_deinit pl p = L_poweroff pl (deinit_core p)"

definition L_uci_layer_deinit :: "'w platform \<Rightarrow> ('l, 'b, 'w) probe \<Rightarrow> ('l, 'b, 'w) probe" where
  "L_uci_layer_deinit pl p = L_hsspi_deinit pl (release Res_uci_layer p)"

definition L_debug_deinit :: "'w platform \<Rightarrow> ('l, 'b, 'w) probe \<Rightarrow> ('l, 'b, 'w) probe option" where
  "L_debug_deinit pl p = map_option (L_uci_layer_deinit pl) (probe_debug_deinit p)"

definition L_hsspi_test_deinit ::
  "'w platform \<Rightarrow> ('l, 'b) await \<Rightarrow> ('l, 'b, 'w) probe \<Rightarrow> ('l, 'b, 'w) probe option" where
  "L_hsspi_test_deinit pl await p = L_debug_deinit pl (on_ctx (hsspi_test_deinit await) p)"

definition L_coredump_layer_deinit ::
  "'w platform \<Rightarrow> ('l, 'b) await \<Rightarrow> ('l, 'b, 'w) probe \<Rightarrow> ('l, 'b, 'w) probe option" where
  "L_coredump_layer_deinit pl await p = L_hsspi_test_deinit pl await (release Res_coredump_layer p)"

definition L_log_layer_deinit ::
  "'w platform \<Rightarrow> ('l, 'b) await \<Rightarrow> ('l, 'b, 'w) probe \<Rightarrow> ('l, 'b, 'w) probe option" where
  "L_log_layer_deinit pl await p = L_coredump_layer_deinit pl await (release Res_log_layer p)"

definition L_coredump_layer_unregister ::
  "'w platform \<Rightarrow> ('l, 'b) await \<Rightarrow> ('l, 'b, 'w) probe \<Rightarrow> ('l, 'b, 'w) probe option" where
  "L_coredump_layer_unregister pl await p =
     L_log_layer_deinit pl await (on_ctx (\<lambda>s. snd (unregister_and_wait await coredump_lay s)) p)"

definition L_log_layer_unregister ::
  "'w platform \<Rightarrow> ('l, 'b) await \<Rightarrow> ('l, 'b, 'w) probe \<Rightarrow> ('l, 'b, 'w) probe option" where
  "L_log_layer_unregister pl await p =
     L_coredump_layer_unregister pl await (on_ctx (\<lambda>s. snd (unregister_and_wait await log_lay s)) p)"

section \<open>Probing\<close>

text \<open>The zeroed context; the enumeration of the states starts with \<open>HSSPI_RUNNING\<close>.\<close>

definition new_ctx :: "kheap \<Rightarrow> 'l \<Rightarrow> 'w \<Rightarrow> ('l, 'b, 'w) qm35" where
  "new_ctx heap up w =
     \<lparr>q_hsspi = (snd (hsspi_init 0 heap up))\<lparr>hs_state := HSSPI_RUNNING\<rparr>, q_state = QM35_CTRL_STATE_UNKNOWN,
      q_gpio_reset = None, q_vdd = [], q_regulators_enabled = False, q_rdy_irq = None, q_dev_id = 0,
      q_soc_id = [], q_world = w, q_handles = []\<rparr>"

text \<open>A supply that the device tree does not define is a null pointer.\<close>

definition qm35_regulators_setup_one :: "bool \<Rightarrow> int option" where
  "qm35_regulators_setup_one found = (if found then Some 0 else None)"

definition qm35_regulators_setup :: "bool list \<Rightarrow> ('l, 'b, 'w) qm35 \<Rightarrow> ('l, 'b, 'w) qm35" where
  "qm35_regulators_setup vdd s =
     s\<lparr>q_vdd := map qm35_regulators_setup_one vdd, q_regulators_enabled := False,
       q_state := QM35_CTRL_STATE_RESET\<rparr>"

text \<open>From \<open>hsspi_set_gpios\<close> on.\<close>

definition probe_start ::
  "'w platform \<Rightarrow> ('l, 'b) await \<Rightarrow> probe_env \<Rightarrow> ('l, 'b, 'w) probe \<Rightarrow> (int \<times> ('l, 'b, 'w) probe) option" where
  "probe_start pl await e p = do {
     let start = (\<lambda>s :: ('l, 'b, 'w) qm35. s\<lparr>q_hsspi := hsspi_start (q_hsspi s)\<rparr>);
     let p = (if \<not> pl_NO_UWB_HAL pl
              then (if \<not> REGULATORS_ENABLED (pr_ctx p) then on_ctx start p else p)
              else on_ctx start (on_ctx (qm35_regulators_set pl True) p));
     if pb_misc e \<noteq> 0 then map_option (\<lambda>p. (pb_misc e, p)) (L_log_layer_unregister pl await p)
     else Some (0, hold Res_uci_dev p)
   }"

text \<open>From \<open>hsspi_irqs_setup\<close> on.\<close>

definition probe_irqs ::
  "'w platform \<Rightarrow> ('l, 'b) await \<Rightarrow> probe_env \<Rightarrow> ('l, 'b, 'w) probe \<Rightarrow> (int \<times> ('l, 'b, 'w) probe) option" where
  "probe_irqs pl await e p = do {
     let (ret, s) = hsspi_irqs_setup (pb_irqs e) (pr_ctx p);
     let p = p\<lparr>pr_ctx := s\<rparr>;
     if ret \<noteq> 0 then map_option (\<lambda>p. (ret, p)) (L_log_layer_unregister pl await p)
     else if pb_flash_on_probe e then do {
       (ret, s) \<leftarrow> qm_firmware_load pl (qm35_regulators_set pl True (pr_ctx p));
       let p = p\<lparr>pr_ctx := qm35_regulators_set pl False s\<rparr>;
       if ret \<noteq> 0 then map_option (\<lambda>p. (ret, p)) (L_log_layer_unregister pl await p)
       else probe_start pl await e p
     }
     else probe_start pl await e p
   }"

text \<open>From the initialisation of the coredump layer on.\<close>

definition probe_layers ::
  "'w platform \<Rightarrow> ('l, 'b) await \<Rightarrow> probe_env \<Rightarrow> ('l, 'b, 'w) probe \<Rightarrow> (int \<times> ('l, 'b, 'w) probe) option" where
  "probe_layers pl await e p =
     (if pb_coredump_layer e \<noteq> 0 then map_option (\<lambda>p. (pb_coredump_layer e, p)) (L_hsspi_test_deinit pl await p)
      else let p = hold Res_coredump_layer p in
      if pb_log_layer e \<noteq> 0 then map_option (\<lambda>p. (pb_log_layer e, p)) (L_coredump_layer_deinit pl await p)
      else let p = hold Res_log_layer p; (ret, s) = register_layer coredump_lay (pr_ctx p); p = p\<lparr>pr_ctx := s\<rparr> in
      if ret \<noteq> 0 then map_option (\<lambda>p. (ret, p)) (L_log_layer_deinit pl await p)
      else let (ret, s) = register_layer log_lay (pr_ctx p); p = p\<lparr>pr_ctx := s\<rparr> in
      if ret \<noteq> 0 then map_option (\<lambda>p. (ret, p)) (L_coredump_layer_unregister pl await p)
      else probe_irqs pl await e p)"

text \<open>From \<open>debug_init_root\<close> on.  The core is initialised with the heap and the layers it is to work on.\<close>

definition probe_core ::
  "'w platform \<Rightarrow> ('l, 'b) await \<Rightarrow> probe_env \<Rightarrow> kheap \<Rightarrow> 'l \<Rightarrow> ('l, 'b, 'w) probe \<Rightarrow>
   (int \<times> ('l, 'b, 'w) probe) option" where
  "probe_core pl await e heap up p =
     (if pb_debug_root e \<noteq> 0 then map_option (\<lambda>p. (pb_debug_root e, L_poweroff pl p)) (probe_debug_deinit p)
      else let p = hold Res_debugfs p; (ret, core) = hsspi_init (pb_thread e) heap up;
               p = on_ctx (\<lambda>s. s\<lparr>q_hsspi := core\<rparr>) p in
      if ret \<noteq> 0 then Some (ret, L_poweroff pl p)
      else let p = hold Res_hsspi p in
      if pb_uci_layer e \<noteq> 0 then Some (pb_uci_layer e, L_hsspi_deinit pl p)
      else let p = hold Res_uci_layer p in do {
        (ret, p) \<leftarrow> probe_debug_init (pb_debug e) p;
        if ret \<noteq> 0 then Some (ret, L_uci_layer_deinit pl p)
        else let (ret, s) = hsspi_test_init (pr_ctx p); p = p\<lparr>pr_ctx := s\<rparr> in
        if ret \<noteq> 0 then map_option (\<lambda>p. (ret, p)) (L_debug_deinit pl p)
        else probe_layers pl await e p
      })"

definition qm35_probe ::
  "'w platform \<Rightarrow> ('l, 'b) await \<Rightarrow> probe_env \<Rightarrow> kheap \<Rightarrow> 'l \<Rightarrow> 'w \<Rightarrow> (int \<times> ('l, 'b, 'w) probe) option" where
  "qm35_probe pl await e heap up w = do {
     let p = \<lparr>pr_ctx = new_ctx heap up w, pr_held = {}, pr_debug_wq = False\<rparr>;
     if pb_spi_speed_hz e \<noteq> 0 \<and> pb_spi_setup e \<noteq> 0 then Some (pb_spi_setup e, p)
     else if \<not> pb_alloc e then Some (- ENOMEM, p)
     else case pb_gpio_reset e of
       Inl err \<Rightarrow> Some (err, p)
     | Inr present \<Rightarrow>
         probe_core pl await e heap up
           (on_ctx (\<lambda>s. qm35_regulators_setup (pb_vdd e) (s\<lparr>q_gpio_reset := (if present then Some False else None)\<rparr>)) p)
   }"

definition qm35_remove ::
  "'w platform \<Rightarrow> ('l, 'b) await \<Rightarrow> ('l, 'b, 'w) probe \<Rightarrow> ('l, 'b, 'w) probe option" where
  "qm35_remove pl await p = do {
     let p = release Res_uci_dev p;
     let p = on_ctx (stop_and_wait await) p;
     let p = on_ctx (\<lambda>s. snd (unregister_and_wait await log_lay s)) p;
     let p = on_ctx (\<lambda>s. snd (unregister_and_wait await coredump_lay s)) p;
     let p = release Res_coredump_layer (release Res_log_layer p);
     p \<leftarrow> probe_debug_deinit (on_ctx (hsspi_test_deinit await) p);
     Some (L_poweroff pl (deinit_core (release Res_uci_layer p)))
   }"

end
