(* ===== verification/Rom_Wp.thy ===== *)
theory Rom_Wp
  imports Rom_Ops "HOL-Library.Sublist"
begin

text \<open>
  Reasoning about libqmrom.  \<open>wp r Q\<close>: the result \<open>r\<close> is not a fault and its value and state satisfy
  \<open>Q\<close>.  \<open>sends s ps s'\<close> says what an operation did as seen from outside: the frame buffers keep their
  size, the configuration is untouched and exactly the payloads \<open>ps\<close> were written to the chip.
\<close>

named_theorems rom_wp \<open>what an operation on the boot ROM does\<close>

definition wp :: "('w, 'a) rom_result \<Rightarrow> ('a \<Rightarrow> 'w rom \<Rightarrow> bool) \<Rightarrow> bool" where
  "wp r Q \<longleftrightarrow> (case r of None \<Rightarrow> False | Some (v, s) \<Rightarrow> Q v s)"

lemma wp_Some [simp]: "wp (Some (v, s)) Q \<longleftrightarrow> Q v s"
  by (simp add: wp_def)

lemma wp_bind [simp]: "wp (r \<bind> (\<lambda>(v, s). f v s)) Q \<longleftrightarrow> wp r (\<lambda>v s. wp (f v s) Q)"
  by (auto simp: wp_def split: option.splits)

lemma wp_mono: "wp r P \<Longrightarrow> (\<And>v s. P v s \<Longrightarrow> Q v s) \<Longrightarrow> wp r Q"
  by (auto simp: wp_def split: option.splits)

lemma wp_ex: "wp r Q \<longleftrightarrow> (\<exists>v s. r = Some (v, s) \<and> Q v s)"
  by (auto simp: wp_def split: option.splits)

lemma wp_and_then [simp]:
  "wp (and_then r k) Q \<longleftrightarrow> wp r (\<lambda>rc s. if rc \<noteq> 0 then Q rc s else wp (k s) Q)"
  by (auto simp: and_then_def wp_def split: option.splits)

section \<open>What was written to the chip\<close>

definition rom_ok :: "'w rom \<Rightarrow> bool" where
  "rom_ok s \<longleftrightarrow> length (rom_hstc s) = 2052 \<and> length (rom_sstc s) = 2052"

definition is_write :: "byte list \<Rightarrow> bool" where
  "is_write f \<longleftrightarrow> f \<noteq> [] \<and> hd f = 0x80"

definition rom_writes :: "'w rom \<Rightarrow> byte list list" where
  "rom_writes s = map (drop 4) (filter is_write (rom_sent s))"

definition rom_cfg :: "'w rom \<Rightarrow> nat \<times> nat \<times> int \<times> chip option \<times> chip option \<times> chip option \<times> chip option" where
  "rom_cfg s = (rom_retries s, rom_lcs_state s, rom_chip_rev s, rom_flash_fw s, rom_flash_unstitched_fw s,
     rom_flash_debug_cert s, rom_erase_debug_cert s)"

definition sends :: "'w rom \<Rightarrow> byte list list \<Rightarrow> 'w rom \<Rightarrow> bool" where
  "sends s ps s' \<longleftrightarrow> rom_ok s' \<and> rom_writes s' = rom_writes s @ ps \<and> rom_cfg s' = rom_cfg s"

abbreviation quiet :: "'w rom \<Rightarrow> 'w rom \<Rightarrow> bool" where
  "quiet s s' \<equiv> sends s [] s'"

lemma sends_refl: "rom_ok s \<Longrightarrow> quiet s s"
  by (simp add: sends_def)

lemma sends_trans: "sends s ps s1 \<Longrightarrow> sends s1 qs s2 \<Longrightarrow> sends s (ps @ qs) s2"
  by (simp add: sends_def)

lemma quiet_sends: "quiet s s1 \<Longrightarrow> sends s1 qs s2 \<Longrightarrow> sends s qs s2"
  by (simp add: sends_def)

lemma sends_quiet: "sends s ps s1 \<Longrightarrow> quiet s1 s2 \<Longrightarrow> sends s ps s2"
  by (simp add: sends_def)

lemma sends_ok: "sends s ps s' \<Longrightarrow> rom_ok s'"
  by (simp add: sends_def)

lemma sends_cfg: "sends s ps s' \<Longrightarrow> rom_lcs_state s' = rom_lcs_state s \<and> rom_chip_rev s' = rom_chip_rev s"
  by (simp add: sends_def rom_cfg_def)

text \<open>Running one operation after another.\<close>

lemma wp_then:
  "wp r (\<lambda>v s1. sends s ps s1) \<Longrightarrow> (\<And>v s1. rom_ok s1 \<Longrightarrow> sends s ps s1 \<Longrightarrow> wp (f v s1) Q) \<Longrightarrow>
   wp (r \<bind> (\<lambda>(v, s). f v s)) Q"
  unfolding wp_bind by (erule wp_mono) (simp add: sends_ok)

section \<open>Transfers\<close>

lemma rom_transfer_ok:
  assumes ok: "rom_ok s" and n: "n \<le> 2052" "0 < n"
  shows "wp (qmrom_spi_transfer d n s) (\<lambda>rc s'. rom_hstc s' = rom_hstc s \<and>
    sends s (if rom_hstc s ! 0 = 0x80 then [drop 4 (take n (rom_hstc s))] else []) s')"
proof -
  obtain rc rx w where x: "dev_xfer d (rom_speed_hz s) (take n (rom_hstc s)) (rom_world s) = (rc, rx, w)"
    by (cases "dev_xfer d (rom_speed_hz s) (take n (rom_hstc s)) (rom_world s)") auto
  have ne: "rom_hstc s \<noteq> []" using ok by (auto simp: rom_ok_def)
  then have h: "hd (take n (rom_hstc s)) = rom_hstc s ! 0" "take n (rom_hstc s) \<noteq> []"
    using n by (simp_all add: hd_conv_nth)
  have r: "mem_read (rom_hstc s) 0 n = Some (take n (rom_hstc s))"
    using ok n by (simp add: rom_ok_def mem_read_def chunk_def)
  have w: "mem_write (rom_sstc s) 0 (take n rx) = Some (patch (rom_sstc s) 0 (take n rx))"
    using ok n by (simp add: rom_ok_def mem_write_def)
  show ?thesis
    using ok n h ne x r w
    by (simp add: qmrom_spi_transfer_def rom_ok_def sends_def rom_writes_def is_write_def
        rom_cfg_def Let_def)
qed

lemma take_drop_part: "length xs = k \<Longrightarrow> drop k (take (k + length p) (xs @ p @ r)) = p"
  by simp

lemma send_write:
  assumes ok: "rom_ok s" and n: "length payload \<le> 2048"
  shows "wp (send_frame d 0x80 (length payload) payload s) (\<lambda>rc s'. sends s [payload] s')"
proof -
  let ?b = "patch (rom_hstc s) 0 ([0x80, 1] @ le16_bytes (length payload) @ payload)"
  have w: "mem_write (rom_hstc s) 0 ([0x80, 1] @ le16_bytes (length payload) @ payload) = Some ?b"
    using ok n by (simp add: rom_ok_def mem_write_def)
  let ?s = "s\<lparr>rom_hstc := ?b\<rparr>"
  have ok1: "rom_ok ?s" using ok n by (simp add: rom_ok_def)
  have b: "?b ! 0 = 0x80" "drop 4 (take (4 + length payload) ?b) = payload"
    using take_drop_part [of "[0x80, 1] @ le16_bytes (length payload)" 4 payload]
    by (simp_all add: patch_def)
  have "wp (qmrom_spi_transfer d (4 + length payload) ?s) (\<lambda>rc s'. sends s [payload] s')"
    by (rule wp_mono [OF rom_transfer_ok [OF ok1]])
      (use n b in \<open>auto simp: sends_def rom_writes_def rom_cfg_def\<close>)
  then show ?thesis using w n by (simp add: send_frame_def u16_id)
qed

lemma send_other:
  assumes ok: "rom_ok s" and n: "length payload \<le> 2048" "len \<le> 2048" and f: "flags \<noteq> 0x80"
  shows "wp (send_frame d flags len payload s) (\<lambda>rc s'. quiet s s')"
proof -
  let ?b = "patch (rom_hstc s) 0 ([flags, 1] @ le16_bytes len @ payload)"
  have w: "mem_write (rom_hstc s) 0 ([flags, 1] @ le16_bytes len @ payload) = Some ?b"
    using ok n by (simp add: rom_ok_def mem_write_def)
  let ?s = "s\<lparr>rom_hstc := ?b\<rparr>"
  have ok1: "rom_ok ?s" using ok n by (simp add: rom_ok_def)
  have b: "?b ! 0 \<noteq> 0x80" using f by (simp add: patch_def)
  have "wp (qmrom_spi_transfer d (4 + len) ?s) (\<lambda>rc s'. quiet s s')"
    by (rule wp_mono [OF rom_transfer_ok [OF ok1]])
      (use n b in \<open>auto simp: sends_def rom_writes_def rom_cfg_def\<close>)
  then show ?thesis using w n by (simp add: send_frame_def u16_id)
qed

lemma wait_line_ok [rom_wp]: "rom_ok s \<Longrightarrow> wp (qmrom_spi_wait_for_ready_line d t s)
    (\<lambda>rc s'. quiet s s' \<and> rom_hstc s' = rom_hstc s)"
  by (simp add: qmrom_spi_wait_for_ready_line_def split_beta sends_def rom_ok_def rom_writes_def rom_cfg_def)

lemma pre_read_ok [rom_wp]: "rom_ok s \<Longrightarrow> wp (qmrom_pre_read d s) (\<lambda>rc s'. quiet s s')"
  unfolding qmrom_pre_read_def by (rule send_other) simp_all

lemma read_ok [rom_wp]: "rom_ok s \<Longrightarrow> wp (qmrom_read d s) (\<lambda>rc s'. quiet s s')"
  unfolding qmrom_read_def Let_def
  by (auto simp: sends_refl MAX_STC_FRAME_LEN_def intro!: send_other)

lemma write_cmd_ok [rom_wp]: "rom_ok s \<Longrightarrow> wp (qmrom_write_cmd d c s) (\<lambda>rc s'. sends s [[of_nat c]] s')"
  using send_write [of s "[of_nat c]" d] by (simp add: qmrom_write_cmd_def)

lemma write_cmd32_ok [rom_wp]: "rom_ok s \<Longrightarrow> wp (qmrom_write_cmd32 d c s) (\<lambda>rc s'. sends s [le32_bytes c] s')"
  using send_write [of s "le32_bytes c" d] by (simp add: qmrom_write_cmd32_def)

lemma write_size_cmd_ok: "rom_ok s \<Longrightarrow> length data \<le> 2047 \<Longrightarrow>
  wp (qmrom_write_size_cmd d c data s) (\<lambda>rc s'. sends s [of_nat c # data] s')"
  using send_write [of s "of_nat c # data" d] by (simp add: qmrom_write_size_cmd_def)

lemma write_size_cmd32_ok: "rom_ok s \<Longrightarrow> length data \<le> 2044 \<Longrightarrow>
  wp (qmrom_write_size_cmd32 d c data s) (\<lambda>rc s'. sends s [le32_bytes c @ data] s')"
  using send_write [of s "le32_bytes c @ data" d] by (simp add: qmrom_write_size_cmd32_def add.commute)

lemma cs_level_ok [rom_wp]: "rom_ok s \<Longrightarrow> wp (qmrom_spi_set_cs_level d l s) (\<lambda>rc s'. quiet s s')"
  by (simp add: qmrom_spi_set_cs_level_def split_beta sends_def rom_ok_def rom_writes_def rom_cfg_def)

lemma reset_quiet: "rom_ok s \<Longrightarrow> quiet s (s\<lparr>rom_world := w\<rparr>)"
  by (simp add: sends_def rom_ok_def rom_writes_def rom_cfg_def)

lemma reboot_ok [rom_wp]:
  assumes "rom_ok s"
  shows "wp (qmrom_reboot_bootloader d s) (\<lambda>rc s'. quiet s s')"
  unfolding qmrom_reboot_bootloader_def
proof (rule wp_then [OF cs_level_ok [OF assms]])
  fix rc :: int and s1 assume s1: "rom_ok s1" "quiet s s1"
  show "wp (if rc \<noteq> 0 then Some (rc, s1)
      else let s = s1\<lparr>rom_world := snd (dev_reset d (rom_world s1))\<rparr> in qmrom_spi_set_cs_level d 1 s)
     (\<lambda>rc. quiet s)"
    using s1 reset_quiet [OF s1(1)]
    by (auto simp: Let_def intro!: wp_mono [OF cs_level_ok] dest: sends_ok intro: quiet_sends)
qed

end
