(* ===== verification/Rom_Quiet.thy ===== *)
theory Rom_Quiet
  imports Rom_Wp
begin

text \<open>
  The operations that only poll, pre-read and read write nothing to the chip, whatever it answers:
  \<open>quietly f\<close>.  The rules follow the shape of the definitions.
\<close>

named_theorems quietly \<open>operations that write nothing\<close>

definition quietly :: "('w rom \<Rightarrow> ('w, 'a) rom_result) \<Rightarrow> bool" where
  "quietly f \<longleftrightarrow> (\<forall>s. rom_ok s \<longrightarrow> wp (f s) (\<lambda>_ s'. quiet s s'))"

lemma quietlyD: "quietly f \<Longrightarrow> rom_ok s \<Longrightarrow> wp (f s) (\<lambda>_ s'. quiet s s')"
  by (simp add: quietly_def)

lemma quietlyI: "(\<And>s. rom_ok s \<Longrightarrow> wp (f s) (\<lambda>_ s'. quiet s s')) \<Longrightarrow> quietly f"
  by (simp add: quietly_def)

lemma wp_quiet: "quiet s s1 \<Longrightarrow> wp r (\<lambda>_ s'. quiet s1 s') \<Longrightarrow> wp r (\<lambda>_ s'. quiet s s')"
  by (erule wp_mono) (rule quiet_sends)

lemma quietly_bind [quietly]:
  assumes "quietly f" "\<And>v. quietly (g v)"
  shows "quietly (\<lambda>s. f s \<bind> (\<lambda>(v, s). g v s))"
proof (rule quietlyI)
  fix s :: "'a rom" assume ok: "rom_ok s"
  show "wp (f s \<bind> (\<lambda>(v, s). g v s)) (\<lambda>_ s'. quiet s s')"
  proof (rule wp_then [OF quietlyD [OF assms(1) ok]])
    fix v s1 assume "rom_ok s1" "quiet s s1"
    then show "wp (g v s1) (\<lambda>_ s'. quiet s s')"
      by (intro wp_quiet [OF _ quietlyD [OF assms(2)]])
  qed
qed

lemma quietly_return [quietly]: "quietly (\<lambda>s. Some (v s, s))"
  by (simp add: quietly_def sends_refl)

lemma quietly_if [quietly]: "quietly f \<Longrightarrow> quietly g \<Longrightarrow> quietly (\<lambda>s. if b s then f s else g s)"
  by (simp add: quietly_def)

lemma quietly_and_then [quietly]:
  assumes "quietly f" "quietly g"
  shows "quietly (\<lambda>s. and_then (f s) g)"
  unfolding and_then_def by (intro quietly assms)

lemma quietly_case_option [quietly]:
  "quietly f \<Longrightarrow> (\<And>x. quietly (g x)) \<Longrightarrow> quietly (\<lambda>s. case v of None \<Rightarrow> f s | Some x \<Rightarrow> g x s)"
  by (cases v) simp_all

lemma quietly_pre_read [quietly]: "quietly (qmrom_pre_read d)"
  by (rule quietlyI) (rule pre_read_ok)

lemma quietly_read [quietly]: "quietly (qmrom_read d)"
  by (rule quietlyI) (rule read_ok)

lemma quietly_wait_line [quietly]: "quietly (qmrom_spi_wait_for_ready_line d t)"
  by (rule quietlyI) (rule wp_mono [OF wait_line_ok], simp_all)

section \<open>Polling\<close>

text \<open>The frame polled with starts with zeroes.\<close>

definition idle :: "'w rom \<Rightarrow> bool" where
  "idle s \<longleftrightarrow> take 4 (rom_hstc s) = [0, 0, 0, 0]"

definition polls :: "('w rom \<Rightarrow> ('w, unit) rom_result) \<Rightarrow> bool" where
  "polls once \<longleftrightarrow> (\<forall>s. rom_ok s \<longrightarrow> idle s \<longrightarrow> wp (once s) (\<lambda>_ s'. quiet s s' \<and> idle s'))"

lemma idle_header: "idle s \<Longrightarrow> rom_hstc s ! 0 = 0 \<and> chunk (rom_hstc s) 2 2 = [0, 0]"
proof -
  assume "idle s"
  then have t: "take 4 (rom_hstc s) = [0, 0, 0, 0]" by (simp add: idle_def)
  have "take 4 (rom_hstc s) ! 0 = rom_hstc s ! 0" by simp
  moreover have "drop 2 (take 4 (rom_hstc s)) = chunk (rom_hstc s) 2 2" by (simp add: chunk_def drop_take)
  ultimately show ?thesis unfolding t by simp
qed

lemma transfer_idle:
  assumes ok: "rom_ok s" and i: "idle s" and n: "0 < n" "n \<le> 2052"
  shows "wp (qmrom_spi_transfer d n s) (\<lambda>_ s'. quiet s s' \<and> idle s')"
  by (rule wp_mono [OF rom_transfer_ok [OF ok n(2,1)]]) (use idle_header [OF i] i in \<open>auto simp: idle_def\<close>)

lemma polls_transfer: "0 < n \<Longrightarrow> n \<le> 2052 \<Longrightarrow> polls (\<lambda>s. do { (_, s) \<leftarrow> qmrom_spi_transfer d n s; Some ((), s) })"
  by (auto simp: polls_def intro: transfer_idle)

lemma polls_hstc: "rom_ok s \<Longrightarrow> idle s \<Longrightarrow> wp (transfer_hstc d s) (\<lambda>_ s'. quiet s s' \<and> idle s')"
  using transfer_idle [of s 4 d] idle_header [of s] by (simp add: transfer_hstc_def)

lemma polls_c0: "polls (c0_poll_once d)"
  unfolding polls_def
proof (intro allI impI)
  fix s :: "'a rom" assume ok: "rom_ok s" and i: "idle s"
  have "wp (qmrom_spi_wait_for_ready_line d SPI_READY_TIMEOUT_MS_C0 s)
     (\<lambda>rc s1. wp (if rc \<noteq> 0 then Some ((), s1) else do { (_, s) \<leftarrow> transfer_hstc d s1; Some ((), s) })
       (\<lambda>_ s'. quiet s s' \<and> idle s'))"
  proof (rule wp_mono [OF wait_line_ok [OF ok]])
    fix rc :: int and s1 assume s1: "quiet s s1 \<and> rom_hstc s1 = rom_hstc s"
    then have "rom_ok s1" "idle s1" using i by (auto simp: idle_def dest: sends_ok)
    then show "wp (if rc \<noteq> 0 then Some ((), s1) else do { (_, s) \<leftarrow> transfer_hstc d s1; Some ((), s) })
       (\<lambda>_ s'. quiet s s' \<and> idle s')"
      using s1 by (auto intro!: wp_mono [OF polls_hstc] intro: quiet_sends)
  qed
  then show "wp (c0_poll_once d s) (\<lambda>_ s'. quiet s s' \<and> idle s')"
    by (simp add: c0_poll_once_def)
qed

lemma polls_b0: "polls (b0_poll_once d)"
  by (auto simp: polls_def b0_poll_once_def intro: polls_hstc)

lemma polls_a0: "polls (a0_poll_once d)"
  unfolding a0_poll_once_def by (rule polls_transfer) simp_all

lemma poll_loop_ok:
  assumes "polls once" "rom_ok s" "idle s"
  shows "wp (poll_loop once r s) (\<lambda>_ s'. quiet s s')"
  using assms(2,3)
proof (induction r arbitrary: s)
  case 0
  then show ?case using assms(1)
    by (subst poll_loop.simps) (auto simp: polls_def sends_ok elim!: wp_mono)
next
  case (Suc r)
  have "wp (once s) (\<lambda>_ s1. wp (if sstc_raw_flags s1 = 0 then poll_loop once r s1 else Some ((), s1)) (\<lambda>_ s'. quiet s s'))"
  proof (rule wp_mono)
    show "wp (once s) (\<lambda>_ s'. quiet s s' \<and> idle s')" using assms(1) Suc.prems by (simp add: polls_def)
    fix v s1 assume "quiet s s1 \<and> idle s1"
    then show "wp (if sstc_raw_flags s1 = 0 then poll_loop once r s1 else Some ((), s1)) (\<lambda>_ s'. quiet s s')"
      using wp_quiet [OF _ Suc.IH [of s1]] by (auto dest: sends_ok)
  qed
  then show ?case by (subst poll_loop.simps) simp
qed

lemma clear_hstc_ok: "rom_ok s \<Longrightarrow> wp (clear_hstc s) (\<lambda>_ s'. quiet s s' \<and> idle s')"
  by (auto simp: clear_hstc_def mem_write_def rom_ok_def sends_def rom_writes_def rom_cfg_def idle_def patch_def
      numeral_eq_Suc)

lemma clear_flags_ok: "rom_ok s \<Longrightarrow> idle s \<Longrightarrow> wp (clear_raw_flags s) (\<lambda>_ s'. quiet s s' \<and> idle s')"
  by (auto simp: clear_raw_flags_def mem_write_def rom_ok_def sends_def rom_writes_def rom_cfg_def idle_def)

text \<open>The three \<open>poll_soc\<close> functions: the host's header is cleared, then polled with.\<close>

lemma poll_soc_ok:
  assumes ok: "rom_ok s" and p: "polls once"
  shows "wp (do { (_, s) \<leftarrow> clear_hstc s; poll_loop once (rom_retries s) s }) (\<lambda>_ s'. quiet s s')"
proof -
  have "wp (poll_loop once (rom_retries s1) s1) (\<lambda>_ s'. quiet s s')" if "quiet s s1 \<and> idle s1" for s1
    using wp_quiet [OF _ poll_loop_ok [OF p]] that by (auto dest: sends_ok)
  then show ?thesis unfolding wp_bind by (rule wp_mono [OF clear_hstc_ok [OF ok]])
qed

lemma quietly_b0_poll [quietly]: "quietly (qmrom_b0_poll_soc d)"
  unfolding qmrom_b0_poll_soc_def by (rule quietlyI) (rule poll_soc_ok [OF _ polls_b0])

lemma quietly_a0_poll [quietly]: "quietly (qmrom_a0_poll_soc d)"
  unfolding qmrom_a0_poll_soc_def by (rule quietlyI) (rule poll_soc_ok [OF _ polls_a0])

lemma quietly_c0_poll [quietly]: "quietly (qmrom_c0_poll_soc d)"
proof (rule quietlyI)
  fix s :: "'a rom" assume ok: "rom_ok s"
  have l: "wp (poll_loop (c0_poll_once d) (rom_retries s2) s2) (\<lambda>_ s'. quiet s s')" if "quiet s s2 \<and> idle s2" for s2
    using that by (intro wp_quiet [OF _ poll_loop_ok [OF polls_c0]]) (auto dest: sends_ok)
  have "wp (clear_raw_flags s1) (\<lambda>_ s2. wp (poll_loop (c0_poll_once d) (rom_retries s2) s2) (\<lambda>_ s'. quiet s s'))"
    if s1: "quiet s s1 \<and> idle s1" for s1
  proof (rule wp_mono [OF clear_flags_ok])
    show "rom_ok s1" "idle s1" using s1 by (auto dest: sends_ok)
    show "wp (poll_loop (c0_poll_once d) (rom_retries s2) s2) (\<lambda>_ s'. quiet s s')" if "quiet s1 s2 \<and> idle s2" for s2
      using that s1 by (intro l) (auto intro: quiet_sends)
  qed
  then have "wp (clear_hstc s) (\<lambda>_ s1. wp (clear_raw_flags s1)
      (\<lambda>_ s2. wp (poll_loop (c0_poll_once d) (rom_retries s2) s2) (\<lambda>_ s'. quiet s s')))"
    by (rule wp_mono [OF clear_hstc_ok [OF ok]])
  then show "wp (qmrom_c0_poll_soc d s) (\<lambda>_ s'. quiet s s')" by (simp add: qmrom_c0_poll_soc_def)
qed

section \<open>Waiting for the chip\<close>

lemma quietly_c0_frames [quietly]: "quietly (qmrom_pre_read_c0 d)" "quietly (qmrom_read_c0 d)"
  unfolding qmrom_pre_read_c0_def qmrom_read_c0_def after_ready_def by (intro quietly)+

lemma quietly_c0_ready_loop [quietly]: "quietly (c0_ready_loop d r)"
proof (induction r)
  case 0
  then show ?case by (simp add: quietly_def sends_refl)
next
  case (Suc r)
  then show ?case unfolding c0_ready_loop.simps by (intro quietly)
qed

lemma quietly_c0_wait_ready [quietly]: "quietly (qmrom_c0_wait_ready d)"
proof (rule quietlyI)
  fix s :: "'a rom" assume ok: "rom_ok s"
  have "quietly (\<lambda>s. qmrom_c0_poll_soc d s \<bind> (\<lambda>(_, s). c0_ready_loop d n s \<bind> (\<lambda>(r, s).
     case r of None \<Rightarrow> Some (if sstc_raw_flags s = SPI_SH_READY_CMD_BIT_MASK_C0 then 0 else SPI_ERR_WAIT_READY_TIMEOUT, s)
     | Some rc \<Rightarrow> Some (rc, s))))" for n
    by (intro quietly)
  from quietlyD [OF this [of "rom_retries s"] ok] show "wp (qmrom_c0_wait_ready d s) (\<lambda>_ s'. quiet s s')"
    by (simp only: qmrom_c0_wait_ready_def Let_def)
qed

lemma quietly_c0_resp_loop [quietly]: "quietly (c0_resp_loop d r)"
proof (induction r)
  case 0
  show ?case by (subst c0_resp_loop.simps [abs_def]) (simp only: nat.case, intro quietly)
next
  case (Suc r)
  show ?case by (subst c0_resp_loop.simps [abs_def]) (simp only: nat.case, intro quietly Suc)
qed

lemma quietly_c0_poll_cmd_resp [quietly]: "quietly (qmrom_c0_poll_cmd_resp d)"
proof (rule quietlyI)
  fix s :: "'a rom" assume ok: "rom_ok s"
  have "quietly (\<lambda>s. qmrom_c0_poll_soc d s \<bind> (\<lambda>(_, s). c0_resp_loop d n s))" for n
    by (intro quietly)
  from quietlyD [OF this [of "rom_retries s"] ok] show "wp (qmrom_c0_poll_cmd_resp d s) (\<lambda>_ s'. quiet s s')"
    by (simp only: qmrom_c0_poll_cmd_resp_def Let_def)
qed

lemma quietly_b0_ready_loop [quietly]: "quietly (b0_ready_loop d r)"
proof (induction r)
  case 0
  then show ?case by (simp add: quietly_def sends_refl)
next
  case (Suc r)
  then show ?case unfolding b0_ready_loop.simps by (intro quietly)
qed

lemma quietly_b0_wait_ready [quietly]: "quietly (qmrom_b0_wait_ready d)"
proof (rule quietlyI)
  fix s :: "'a rom" assume ok: "rom_ok s"
  have "quietly (\<lambda>s. qmrom_b0_poll_soc d s \<bind> (\<lambda>(_, s). b0_ready_loop d n s \<bind> (\<lambda>(r, s).
     case r of None \<Rightarrow> Some (if sstc_raw_flags s = SPI_SH_READY_CMD_BIT_MASK then 0 else SPI_ERR_WAIT_READY_TIMEOUT, s)
     | Some rc \<Rightarrow> Some (rc, s))))" for n
    by (intro quietly)
  from quietlyD [OF this [of "rom_retries s"] ok] show "wp (qmrom_b0_wait_ready d s) (\<lambda>_ s'. quiet s s')"
    by (simp only: qmrom_b0_wait_ready_def Let_def)
qed

lemma quietly_b0_resp_loop [quietly]: "quietly (b0_resp_loop d r)"
proof (induction r)
  case 0
  show ?case by (subst b0_resp_loop.simps [abs_def]) (simp only: nat.case, intro quietly)
next
  case (Suc r)
  show ?case by (subst b0_resp_loop.simps [abs_def]) (simp only: nat.case, intro quietly Suc)
qed

lemma quietly_b0_poll_cmd_resp [quietly]: "quietly (qmrom_b0_poll_cmd_resp d)"
proof (rule quietlyI)
  fix s :: "'a rom" assume ok: "rom_ok s"
  have "quietly (\<lambda>s. qmrom_b0_poll_soc d s \<bind> (\<lambda>(_, s). b0_resp_loop d n s))" for n
    by (intro quietly)
  from quietlyD [OF this [of "rom_retries s"] ok] show "wp (qmrom_b0_poll_cmd_resp d s) (\<lambda>_ s'. quiet s s')"
    by (simp only: qmrom_b0_poll_cmd_resp_def Let_def)
qed

lemma quietly_a0_ready_loop [quietly]: "quietly (a0_ready_loop d r)"
proof (induction r)
  case 0
  then show ?case by (simp add: quietly_def sends_refl)
next
  case (Suc r)
  then show ?case unfolding a0_ready_loop.simps by (intro quietly)
qed

lemma quietly_a0_wait_ready [quietly]: "quietly (qmrom_a0_wait_ready d)"
proof (rule quietlyI)
  fix s :: "'a rom" assume ok: "rom_ok s"
  have "quietly (\<lambda>s. qmrom_a0_poll_soc d s \<bind> (\<lambda>(_, s). a0_ready_loop d n s \<bind> (\<lambda>(_, s).
     Some (if out_waiting s then 0 else SPI_ERR_WAIT_READY_TIMEOUT, s))))" for n
    by (intro quietly)
  from quietlyD [OF this [of "rom_retries s"] ok] show "wp (qmrom_a0_wait_ready d s) (\<lambda>_ s'. quiet s s')"
    by (simp only: qmrom_a0_wait_ready_def Let_def)
qed

lemma quietly_set_len [quietly]: "quietly (\<lambda>s. set_sstc_len (n s) s)"
  by (auto simp: quietly_def set_sstc_len_def mem_write_def rom_ok_def sends_def rom_writes_def rom_cfg_def)

lemma quietly_a0_pre_read [quietly]: "quietly (a0_pre_read d)"
  unfolding a0_pre_read_def by (intro quietly)

lemma quietly_a0_read_response [quietly]: "quietly (a0_read_response d)"
  unfolding a0_read_response_def by (intro quietly)

end
