(* ===== verification/Rom_Chunks.thy ===== *)
theory Rom_Chunks
  imports Rom_Quiet
begin

text \<open>
  Sending a file in chunks.  The three boot ROMs differ in the frame and in the handshake around a
  chunk; the locale states what their loops share, and proves what the loop then sends.
\<close>

section \<open>Chunks\<close>

function chunks :: "nat \<Rightarrow> 'a list \<Rightarrow> 'a list list" where
  "chunks n xs = (if xs = [] \<or> n = 0 then [] else take n xs # chunks n (drop n xs))"
  by auto
termination by (relation "measure (\<lambda>(n, xs). length xs)") auto

lemmas [simp del] = chunks.simps

lemma concat_chunks: "0 < n \<Longrightarrow> concat (chunks n xs) = xs"
  by (induction n xs rule: chunks.induct) (subst chunks.simps, simp)

lemma chunks_length: "c \<in> set (chunks n xs) \<Longrightarrow> 0 < length c \<and> length c \<le> n"
proof (induction n xs rule: chunks.induct)
  case (1 n xs)
  show ?case
  proof (cases "xs = [] \<or> n = 0")
    case True
    then show ?thesis using 1(2) by (simp add: chunks.simps)
  next
    case False
    then have "c = take n xs \<or> c \<in> set (chunks n (drop n xs))"
      using 1(2) by (subst (asm) chunks.simps) simp
    then show ?thesis using 1(1) [OF False] False by auto
  qed
qed

section \<open>The loop\<close>

locale chunk_sender =
  fixes n :: nat
    and step :: "bool \<Rightarrow> byte list \<Rightarrow> 'w rom \<Rightarrow> ('w, int) rom_result"
    and frame :: "byte list \<Rightarrow> byte list"
  assumes n_pos: "0 < n"
    and step_ok: "\<lbrakk>rom_ok s; data \<noteq> []; length data \<le> n\<rbrakk> \<Longrightarrow>
      wp (step final data s) (\<lambda>rc s'. sends s [frame data] s' \<or> rc \<noteq> 0 \<and> quiet s s')"
begin

lemma loop_sends:
  "rom_ok s \<Longrightarrow> wp (chunk_loop n step data s) (\<lambda>rc s'. \<exists>cs. sends s (map frame cs) s' \<and>
     prefix cs (chunks n data) \<and> (rc = 0 \<longrightarrow> cs = chunks n data))"
proof (induction "length data" arbitrary: data s rule: less_induct)
  case less
  show ?case
  proof (cases "data = []")
    case True
    then show ?thesis using less.prems
      by (subst chunk_loop.simps) (auto simp: chunks.simps sends_refl intro!: exI [of _ "[]"])
  next
    case False
    let ?d = "take n data" and ?rest = "drop n data"
    have c: "chunks n data = ?d # chunks n ?rest"
      using False n_pos by (subst chunks.simps) simp
    have len: "length ?rest < length data" using False n_pos by simp
    have "wp (step (?rest = []) ?d s) (\<lambda>rc s1. if rc \<noteq> 0
        then \<exists>cs. sends s (map frame cs) s1 \<and> prefix cs (chunks n data) \<and> (rc = 0 \<longrightarrow> cs = chunks n data)
        else wp (chunk_loop n step ?rest s1) (\<lambda>rc s'. \<exists>cs. sends s (map frame cs) s' \<and>
          prefix cs (chunks n data) \<and> (rc = 0 \<longrightarrow> cs = chunks n data)))"
    proof (rule wp_mono [OF step_ok])
      show "rom_ok s" by (rule less.prems)
      show "?d \<noteq> []" "length ?d \<le> n" using False n_pos by auto
      fix rc s1 assume s1: "sends s [frame ?d] s1 \<or> rc \<noteq> 0 \<and> quiet s s1"
      show "if rc \<noteq> 0
        then \<exists>cs. sends s (map frame cs) s1 \<and> prefix cs (chunks n data) \<and> (rc = 0 \<longrightarrow> cs = chunks n data)
        else wp (chunk_loop n step ?rest s1) (\<lambda>rc s'. \<exists>cs. sends s (map frame cs) s' \<and>
          prefix cs (chunks n data) \<and> (rc = 0 \<longrightarrow> cs = chunks n data))"
      proof (cases "rc = 0")
        case True
        then have s1': "sends s [frame ?d] s1" using s1 by simp
        have "wp (chunk_loop n step ?rest s1) (\<lambda>rc s'. \<exists>cs. sends s (map frame cs) s' \<and>
          prefix cs (chunks n data) \<and> (rc = 0 \<longrightarrow> cs = chunks n data))"
        proof (rule wp_mono [OF less.hyps [OF len sends_ok [OF s1']]])
          fix rc s' assume "\<exists>cs. sends s1 (map frame cs) s' \<and> prefix cs (chunks n ?rest) \<and>
            (rc = 0 \<longrightarrow> cs = chunks n ?rest)"
          then obtain cs where cs: "sends s1 (map frame cs) s'" "prefix cs (chunks n ?rest)"
            "rc = 0 \<longrightarrow> cs = chunks n ?rest" by blast
          from sends_trans [OF s1' cs(1)] have "sends s (map frame (?d # cs)) s'" by simp
          then show "\<exists>cs. sends s (map frame cs) s' \<and> prefix cs (chunks n data) \<and> (rc = 0 \<longrightarrow> cs = chunks n data)"
            unfolding c using cs by (intro exI [of _ "?d # cs"]) simp
        qed
        then show ?thesis using True by simp
      next
        case False
        then show ?thesis using s1 unfolding c
          by (auto intro: exI [of _ "[]"] exI [of _ "[?d]"])
      qed
    qed
    then show ?thesis using False n_pos by (subst chunk_loop.simps) simp
  qed
qed

end

section \<open>The three boot ROMs\<close>

lemma after_ready_ok:
  assumes "rom_ok s" and f: "\<And>s. rom_ok s \<Longrightarrow> wp (f s) (\<lambda>rc s'. sends s ps s')"
  shows "wp (after_ready d f s) (\<lambda>rc s'. sends s ps s')"
proof -
  have "wp (f s1) (\<lambda>rc s'. sends s ps s')" if "quiet s s1" for s1
    by (rule wp_mono [OF f [OF sends_ok [OF that]]]) (rule quiet_sends [OF that])
  then show ?thesis unfolding after_ready_def wp_bind
    by (intro wp_mono [OF wait_line_ok [OF assms(1)]]) simp
qed

lemma c0_write_cmd_ok [rom_wp]:
  "rom_ok s \<Longrightarrow> wp (qmrom_write_cmd32_c0 d cmd s) (\<lambda>rc s'. sends s [le32_bytes (c0_cmd_code cmd)] s')"
  unfolding qmrom_write_cmd32_c0_def by (erule after_ready_ok) (rule write_cmd32_ok)

lemma c0_write_size_cmd_ok:
  "rom_ok s \<Longrightarrow> length data \<le> 2044 \<Longrightarrow>
   wp (qmrom_write_size_cmd32_c0 d cmd data s) (\<lambda>rc s'. sends s [le32_bytes (c0_cmd_code cmd) @ data] s')"
  unfolding qmrom_write_size_cmd32_c0_def by (erule after_ready_ok) (rule write_size_cmd32_ok)

lemma sends_then_quietly:
  "sends s ps s1 \<Longrightarrow> quietly g \<Longrightarrow> wp (g s1) (\<lambda>_ s'. sends s ps s')"
  by (rule wp_mono [OF quietlyD]) (auto dest: sends_ok intro: sends_quiet)

lemma quietly_then_sends:
  assumes "quietly f" "rom_ok s" "\<And>s1. rom_ok s1 \<Longrightarrow> quiet s s1 \<Longrightarrow> wp (g s1) Q"
  shows "wp (do { (v, s) \<leftarrow> f s; g s }) Q"
  by (rule wp_then [OF quietlyD [OF assms(1,2)]]) (rule assms(3))

lemma c0_chunk_tail: "quietly (\<lambda>s. do {
     (_, s) \<leftarrow> qmrom_c0_poll_soc d s;
     (_, s) \<leftarrow> qmrom_pre_read_c0 d s;
     (_, s) \<leftarrow> qmrom_read_c0 d s;
     if sstc_payload0 s \<noteq> resp_code resp then
       Some (if sstc_payload0 s = resp_code ERR_FIRST_KEY_CERT_OR_FW_VER
             then PEG_ERR_FIRST_KEY_CERT_OR_FW_VER else SPI_PROTO_WRONG_RESP, s)
     else Some (0, s) })"
  by (intro quietly)

interpretation c0_chunks: chunk_sender CHUNK_SIZE_C0 "c0_flash_chunk d cmd resp skip"
  "\<lambda>data. le32_bytes (c0_cmd_code cmd) @ data" for d cmd resp skip
proof
  show "0 < CHUNK_SIZE_C0" by (simp add: CHUNK_SIZE_C0_def)
  fix s :: "'a rom" and data :: "byte list" and final
  assume ok: "rom_ok s" and "data \<noteq> []" and n: "length data \<le> CHUNK_SIZE_C0"
  let ?p = "[le32_bytes (c0_cmd_code cmd) @ data]"
  have l: "length data \<le> 2044" using n by (simp add: CHUNK_SIZE_C0_def)
  have "wp (c0_flash_chunk d cmd resp skip final data s) (\<lambda>rc s'. sends s ?p s')"
    unfolding c0_flash_chunk_def wp_and_then
  proof (rule wp_mono [OF c0_write_size_cmd_ok [OF ok l]])
    fix rc :: int and s1 :: "'a rom" assume s1: "sends s ?p s1"
    show "if rc \<noteq> 0 then sends s ?p s1
      else wp (if skip \<and> final then Some (0, s1)
        else do {
         (_, s) \<leftarrow> qmrom_c0_poll_soc d s1;
         (_, s) \<leftarrow> qmrom_pre_read_c0 d s;
         (_, s) \<leftarrow> qmrom_read_c0 d s;
         if sstc_payload0 s \<noteq> resp_code resp then
           Some (if sstc_payload0 s = resp_code ERR_FIRST_KEY_CERT_OR_FW_VER
                 then PEG_ERR_FIRST_KEY_CERT_OR_FW_VER else SPI_PROTO_WRONG_RESP, s)
         else Some (0, s) }) (\<lambda>rc s'. sends s ?p s')"
      using s1 sends_then_quietly [OF s1 c0_chunk_tail, of d resp] by simp
  qed
  then show "wp (c0_flash_chunk d cmd resp skip final data s) (\<lambda>rc s'. sends s ?p s' \<or> rc \<noteq> 0 \<and> quiet s s')"
    by (rule wp_mono) simp
qed

lemma b0_write_cmd_ok [rom_wp]:
  "rom_ok s \<Longrightarrow> wp (b0_write_cmd d cmd s) (\<lambda>rc s'. sends s [[of_nat (b0_cmd_code cmd)]] s')"
  unfolding b0_write_cmd_def by (rule write_cmd_ok)

lemma b0_write_size_cmd_ok:
  "rom_ok s \<Longrightarrow> length data \<le> 2047 \<Longrightarrow>
   wp (b0_write_size_cmd d cmd data s) (\<lambda>rc s'. sends s [of_nat (b0_cmd_code cmd) # data] s')"
  unfolding b0_write_size_cmd_def by (rule write_size_cmd_ok)

interpretation b0_chunks: chunk_sender CHUNK_SIZE_B0 "b0_flash_chunk d cmd expected"
  "\<lambda>data. of_nat (b0_cmd_code cmd) # data" for d cmd expected
proof
  show "0 < CHUNK_SIZE_B0" by (simp add: CHUNK_SIZE_B0_def)
  fix s :: "'a rom" and data :: "byte list" and final
  assume ok: "rom_ok s" and "data \<noteq> []" and n: "length data \<le> CHUNK_SIZE_B0"
  let ?p = "[of_nat (b0_cmd_code cmd) # data]"
  let ?Q = "\<lambda>(rc :: int) s'. sends s ?p s' \<or> rc \<noteq> 0 \<and> quiet s s'"
  have l: "length data \<le> 2047" using n by (simp add: CHUNK_SIZE_B0_def)
  have w: "wp (b0_write_size_cmd d cmd data s1) ?Q" if "rom_ok s1" "quiet s s1" for s1
    by (rule wp_mono [OF b0_write_size_cmd_ok [OF that(1) l]]) (use that(2) in \<open>blast intro: quiet_sends\<close>)
  have q: "quietly (\<lambda>s. do {
     (_, s) \<leftarrow> qmrom_b0_poll_soc d s; (_, s) \<leftarrow> qmrom_pre_read d s; qmrom_read d s })"
    by (intro quietly)
  have "wp (do { (_, s) \<leftarrow> qmrom_b0_poll_soc d s; (_, s) \<leftarrow> qmrom_pre_read d s; qmrom_read d s })
    (\<lambda>_ s1. wp (if sstc_payload0 s1 \<noteq> resp_code expected then
       Some (if sstc_payload0 s1 = resp_code ERR_FIRST_KEY_CERT_OR_FW_VER
             then PEG_ERR_FIRST_KEY_CERT_OR_FW_VER else SPI_PROTO_WRONG_RESP, s1)
     else b0_write_size_cmd d cmd data s1) ?Q)"
    by (rule wp_mono [OF quietlyD [OF q ok]])
      (auto simp: PEG_ERR_FIRST_KEY_CERT_OR_FW_VER_def SPI_PROTO_WRONG_RESP_def dest: sends_ok intro!: w)
  then show "wp (b0_flash_chunk d cmd expected final data s) ?Q"
    by (simp add: b0_flash_chunk_def)
qed

interpretation a0_chunks: chunk_sender CHUNK_SIZE_A0 "a0_write_chunk d" "\<lambda>data. data" for d
proof
  show "0 < CHUNK_SIZE_A0" by (simp add: CHUNK_SIZE_A0_def)
  fix s :: "'a rom" and data :: "byte list" and final
  assume ok: "rom_ok s" and "data \<noteq> []" and n: "length data \<le> CHUNK_SIZE_A0"
  let ?Q = "\<lambda>(rc :: int) s'. sends s [data] s' \<or> rc \<noteq> 0 \<and> quiet s s'"
  have l: "length data \<le> 2048" using n by (simp add: CHUNK_SIZE_A0_def)
  have w: "wp (qmrom_a0_write_data d data s1) ?Q" if "rom_ok s1" "quiet s s1" for s1
    unfolding qmrom_a0_write_data_def
    by (rule wp_mono [OF send_write [OF that(1) l]]) (use that(2) in \<open>blast intro: quiet_sends\<close>)
  have q: "quietly (\<lambda>s. do { (_, s) \<leftarrow> qmrom_a0_poll_soc d s; a0_read_response d s })"
    by (intro quietly)
  have "wp (do { (_, s) \<leftarrow> qmrom_a0_poll_soc d s; a0_read_response d s })
    (\<lambda>_ s1. wp (if sstc_payload0 s1 \<noteq> SPI_RSP_WAIT_FOR_IMAGE then Some (SPI_PROTO_WRONG_RESP, s1)
     else qmrom_a0_write_data d data s1) ?Q)"
    by (rule wp_mono [OF quietlyD [OF q ok]])
      (auto simp: SPI_PROTO_WRONG_RESP_def dest: sends_ok intro!: w)
  then show "wp (a0_write_chunk d final data s) ?Q"
    by (simp add: a0_write_chunk_def)
qed

end
