(* ===== verification/Rom_Unstitch.thy ===== *)
theory Rom_Unstitch
  imports Rom
begin

text \<open>
  \<open>qmrom_unstitch_fw\<close> inverts the format of stitched firmware files: it accepts exactly the
  concatenation of four sized parts and returns them.
\<close>

definition part_bytes :: "byte list \<Rightarrow> byte list" where
  "part_bytes x = le32_bytes (length x) @ x"

definition stitch :: "unstitched_firmware \<Rightarrow> byte list" where
  "stitch f = part_bytes (key1_crt f) @ part_bytes (key2_crt f) @ part_bytes (fw_crt f) @ part_bytes (fw_img f)"

lemma length_part_bytes [simp]: "length (part_bytes x) = 4 + length x"
  by (simp add: part_bytes_def)

lemma le32_bytes_le32:
  assumes "length bs = 4"
  shows "le32_bytes (le32 bs) = bs"
proof -
  obtain a b c d where bs: "bs = [a, b, c, d]"
    using assms by (auto simp: length_Suc_conv numeral_eq_Suc)
  have dm: "(x + 256 * y) mod 256 = x" "(x + 256 * y) div 256 = y" if "x < 256" for x y :: nat
    using that by simp_all
  have l: "unat a < 256" "unat b < 256" "unat c < 256" "unat d < 256" by (rule unat_byte_less)+
  let ?z = "unat c + 256 * unat d" and ?y = "unat b + 256 * (unat c + 256 * unat d)"
  have n: "le32 bs = unat a + 256 * ?y" unfolding bs by simp
  have d: "le32 bs div 256 = ?y" "le32 bs div 65536 = ?z" "le32 bs div 16777216 = unat d"
  proof -
    show 1: "le32 bs div 256 = ?y" unfolding n by (rule dm(2) [OF l(1)])
    have "le32 bs div 65536 = le32 bs div 256 div 256" by (simp add: div_mult2_eq [symmetric])
    then show 2: "le32 bs div 65536 = ?z" unfolding 1 dm(2) [OF l(2)] .
    have "le32 bs div 16777216 = le32 bs div 65536 div 256" by (simp add: div_mult2_eq [symmetric])
    then show "le32 bs div 16777216 = unat d" unfolding 2 dm(2) [OF l(3)] .
  qed
  have k: "of_nat (x + 256 * y) = (of_nat x :: byte)" for x y :: nat
    by (simp only: word_unat_eq_iff unat_byte_of_nat mod_mult_self2)
  have "of_nat (unat w) = w" for w :: byte by simp
  then have "of_nat (le32 bs) = a" "(of_nat ?y :: byte) = b" "(of_nat ?z :: byte) = c" "(of_nat (unat d) :: byte) = d"
    unfolding n k by blast+
  then show ?thesis unfolding le32_bytes_def d unfolding bs by (simp only:)
qed

lemma unstitch_part_at:
  assumes data: "data = pre @ part_bytes x @ post" and len: "length data < 4294967296" and f: "final \<Longrightarrow> post = []"
  shows "unstitch_part final data (length pre) = Some (Inr (length x, length pre + 4, length pre + 4 + length x))"
    and "mem_read data (length pre + 4) (length x) = Some x"
proof -
  have h: "holds data (length pre) (le32_bytes (length x))"
    unfolding data part_bytes_def holds_def by (simp add: chunk_def)
  have u: "u32_at data (length pre) = Some (length x)"
    using h len data by (intro u32_at_holds) simp_all
  have total: "length pre + 4 + length x \<le> length data" "final \<Longrightarrow> length pre + 4 + length x = length data"
    using data f by simp_all
  have w: "u32 (length pre + length x) = length pre + length x" "u32 (length pre + 4) = length pre + 4"
    "u32 (length pre + 4 + length x) = length pre + 4 + length x"
    using total(1) len by (simp_all add: u32_id)
  show "unstitch_part final data (length pre) = Some (Inr (length x, length pre + 4, length pre + 4 + length x))"
    using total by (auto simp: unstitch_part_def u w Let_def)
  show "mem_read data (length pre + 4) (length x) = Some x"
    unfolding data part_bytes_def mem_read_def chunk_def by simp
qed

lemma unstitch_partD:
  assumes part: "unstitch_part final data tot = Some (Inr (n, p, tot'))" and x: "mem_read data p n = Some x"
    and len: "length data < 4294967296"
  shows "length x = n" "tot' = tot + 4 + n" "holds data tot (part_bytes x)" "p = tot + 4" "final \<Longrightarrow> tot' = length data"
proof -
  from part have u: "u32_at data tot = Some n" and p: "p = u32 (tot + 4)" and t: "tot' = u32 (u32 (tot + 4) + n)"
    and fin: "final \<Longrightarrow> u32 (tot + n) + 4 = length data"
    by (auto simp: unstitch_part_def Let_def split: Option.bind_splits if_splits)
  have b: "tot + 4 \<le> length data" and n: "n = le32 (chunk data tot 4)"
    using u by (auto simp: u32_at_def mem_read_def split: if_splits)
  show p': "p = tot + 4" using p b len by (simp add: u32_id)
  have r: "p + n \<le> length data" "x = chunk data p n" using x by (auto simp: mem_read_def split: if_splits)
  show lx: "length x = n" using r by simp
  show t': "tot' = tot + 4 + n" using t p p' r len by (simp add: u32_id)
  show "tot' = length data" if final
    using fin [OF that] t' r(1) p' len by (simp add: u32_id)
  have "le32_bytes n = chunk data tot 4" unfolding n by (rule le32_bytes_le32) (use b in simp)
  then show "holds data tot (part_bytes x)"
    using b r p' lx unfolding part_bytes_def holds_append by (simp add: holds_def)
qed

lemma unstitch_sizes_stitch:
  assumes "length (stitch f) < 4294967296"
  shows "\<exists>p1 p2 p3 p4. unstitch_sizes (stitch f) = Some (Inr [(length (key1_crt f), p1), (length (key2_crt f), p2),
      (length (fw_crt f), p3), (length (fw_img f), p4)]) \<and>
    mem_read (stitch f) p1 (length (key1_crt f)) = Some (key1_crt f) \<and>
    mem_read (stitch f) p2 (length (key2_crt f)) = Some (key2_crt f) \<and>
    mem_read (stitch f) p3 (length (fw_crt f)) = Some (fw_crt f) \<and>
    mem_read (stitch f) p4 (length (fw_img f)) = Some (fw_img f)"
proof -
  let ?a = "part_bytes (key1_crt f)" and ?b = "part_bytes (key2_crt f)" and ?c = "part_bytes (fw_crt f)"
    and ?d = "part_bytes (fw_img f)"
  note 1 = unstitch_part_at [of "stitch f" "[]" "key1_crt f" "?b @ ?c @ ?d" False]
  note 2 = unstitch_part_at [of "stitch f" ?a "key2_crt f" "?c @ ?d" False]
  note 3 = unstitch_part_at [of "stitch f" "?a @ ?b" "fw_crt f" ?d False]
  note 4 = unstitch_part_at [of "stitch f" "?a @ ?b @ ?c" "fw_img f" "[]" True]
  show ?thesis
    using 1 2 3 4 assms
    by (simp add: unstitch_sizes_def stitch_def add.commute add.left_commute)
qed

lemma unstitch_sizesD:
  assumes s: "unstitch_sizes data = Some (Inr parts)" and len: "length data < 4294967296"
    and 1: "mem_read data (snd (parts ! 0)) (fst (parts ! 0)) = Some k1"
    and 2: "mem_read data (snd (parts ! 1)) (fst (parts ! 1)) = Some k2"
    and 3: "mem_read data (snd (parts ! 2)) (fst (parts ! 2)) = Some crt"
    and 4: "mem_read data (snd (parts ! 3)) (fst (parts ! 3)) = Some img"
  shows "data = part_bytes k1 @ part_bytes k2 @ part_bytes crt @ part_bytes img"
proof -
  obtain n1 p1 t1 n2 p2 t2 n3 p3 t3 n4 p4 t4 where
    u: "unstitch_part False data 0 = Some (Inr (n1, p1, t1))" "unstitch_part False data t1 = Some (Inr (n2, p2, t2))"
      "unstitch_part False data t2 = Some (Inr (n3, p3, t3))" "unstitch_part True data t3 = Some (Inr (n4, p4, t4))"
    and parts: "parts = [(n1, p1), (n2, p2), (n3, p3), (n4, p4)]"
    using s by (auto simp: unstitch_sizes_def split: Option.bind_splits sum.splits)
  have m: "mem_read data p1 n1 = Some k1" "mem_read data p2 n2 = Some k2" "mem_read data p3 n3 = Some crt"
    "mem_read data p4 n4 = Some img"
    using 1 2 3 4 unfolding parts by (simp_all add: numeral_2_eq_2 numeral_3_eq_3)
  note a = unstitch_partD [OF u(1) m(1) len] and b = unstitch_partD [OF u(2) m(2) len]
    and c = unstitch_partD [OF u(3) m(3) len] and d = unstitch_partD [OF u(4) m(4) len]
  have h: "holds data 0 (part_bytes k1 @ part_bytes k2 @ part_bytes crt @ part_bytes img)"
  proof -
    have e: "0 + length (part_bytes k1) = t1" "t1 + length (part_bytes k2) = t2" "t2 + length (part_bytes crt) = t3"
      using a(1,2) b(1,2) c(1,2) by simp_all
    show ?thesis unfolding holds_append e using a(3) b(3) c(3) d(3) by simp
  qed
  have "length (part_bytes k1 @ part_bytes k2 @ part_bytes crt @ part_bytes img) = length data"
    using a(1,2) b(1,2) c(1,2) d(1,2,5) by simp
  then show ?thesis using h unfolding holds_def by (metis chunk_whole)
qed

lemma unstitch_iff:
  assumes rev: "revision \<noteq> chip_rev_code A0" and len: "length data < 4294967296"
  shows "(\<exists>w'. qmrom_unstitch_fw d data revision w = Some (0, Some f, w')) \<longleftrightarrow> data = stitch f \<and> fst (allocs d 4 w)"
proof
  assume "\<exists>w'. qmrom_unstitch_fw d data revision w = Some (0, Some f, w')"
  then obtain w' parts where s: "unstitch_sizes data = Some (Inr parts)" and al: "fst (allocs d 4 w)"
    and m: "mem_read data (snd (parts ! 0)) (fst (parts ! 0)) = Some (key1_crt f)"
      "mem_read data (snd (parts ! 1)) (fst (parts ! 1)) = Some (key2_crt f)"
      "mem_read data (snd (parts ! 2)) (fst (parts ! 2)) = Some (fw_crt f)"
      "mem_read data (snd (parts ! 3)) (fst (parts ! 3)) = Some (fw_img f)"
    using rev
    by (auto simp: qmrom_unstitch_fw_def Let_def split_beta split: if_splits Option.bind_splits sum.splits)
  show "data = stitch f \<and> fst (allocs d 4 w)"
    using unstitch_sizesD [OF s len m] al by (simp add: stitch_def)
next
  assume a: "data = stitch f \<and> fst (allocs d 4 w)"
  then have "8 \<le> length data" by (simp add: stitch_def)
  then show "\<exists>w'. qmrom_unstitch_fw d data revision w = Some (0, Some f, w')"
    using a rev unstitch_sizes_stitch [of f] len
    by (auto simp: qmrom_unstitch_fw_def Let_def split_beta numeral_2_eq_2 numeral_3_eq_3)
qed

text \<open>With a failing allocation, the same files give -ENOMEM.\<close>

lemma unstitch_stitch:
  assumes rev: "revision \<noteq> chip_rev_code A0" and len: "length (stitch f) < 4294967296"
  shows "\<exists>w'. qmrom_unstitch_fw d (stitch f) revision w =
    Some (if fst (allocs d 4 w) then (0, Some f, w') else (- ENOMEM, None, w'))"
proof (cases "fst (allocs d 4 w)")
  case True
  then show ?thesis using unstitch_iff [OF rev len, of d w f] by simp
next
  case False
  have "8 \<le> length (stitch f)" by (simp add: stitch_def)
  then show ?thesis using False rev unstitch_sizes_stitch [OF len]
    by (auto simp: qmrom_unstitch_fw_def Let_def split_beta)
qed

lemma unstitch_past_end:
  assumes rev: "revision \<noteq> chip_rev_code A0" and rest: "length rest < 4" and k: "4 \<le> length k + length rest"
    and len: "length (part_bytes k @ rest) < 4294967296"
  shows "qmrom_unstitch_fw d (part_bytes k @ rest) revision w = None"
proof -
  have p: "unstitch_part False (part_bytes k @ rest) 0 = Some (Inr (length k, 4, 4 + length k))"
    using unstitch_part_at(1) [of "part_bytes k @ rest" "[]" k rest False] len by simp
  have "u32_at (part_bytes k @ rest) (4 + length k) = None"
    using rest by (simp add: u32_at_NoneI)
  then show ?thesis using rev k p
    by (simp add: qmrom_unstitch_fw_def unstitch_sizes_def unstitch_part_def [of False _ "4 + length k"])
qed

end
