(* ===== verification/Rom_Flash.thy ===== *)
theory Rom_Flash
  imports Rom_Chunks Rom_Unstitch
begin

text \<open>
  What reaches the chip when a firmware is flashed: the frames of each revision, and that every flash
  operation writes a prefix of them, whatever the chip answers.
\<close>

section \<open>Delivering frames in order\<close>

text \<open>The payloads written are a prefix of \<open>full\<close>, and all of it when the result is 0.\<close>

definition delivers :: "'w rom \<Rightarrow> byte list list \<Rightarrow> int \<Rightarrow> 'w rom \<Rightarrow> bool" where
  "delivers s full rc s' \<longleftrightarrow> (\<exists>ps. sends s ps s' \<and> prefix ps full \<and> (rc = 0 \<longrightarrow> ps = full))"

lemma delivers_then:
  assumes "wp r (delivers s full1)" "\<And>s1. rom_ok s1 \<Longrightarrow> sends s full1 s1 \<Longrightarrow> wp (k s1) (delivers s1 full2)"
  shows "wp (and_then r k) (delivers s (full1 @ full2))"
  unfolding wp_and_then
proof (rule wp_mono [OF assms(1)])
  fix rc s1 assume "delivers s full1 rc s1"
  then obtain ps where ps: "sends s ps s1" "prefix ps full1" "rc = 0 \<longrightarrow> ps = full1"
    by (auto simp: delivers_def)
  show "if rc \<noteq> 0 then delivers s (full1 @ full2) rc s1 else wp (k s1) (delivers s (full1 @ full2))"
  proof (cases "rc = 0")
    case True
    then have s1: "sends s full1 s1" using ps by simp
    have "wp (k s1) (delivers s (full1 @ full2))"
      by (rule wp_mono [OF assms(2) [OF sends_ok [OF s1] s1]])
        (use s1 in \<open>auto simp: delivers_def intro: sends_trans\<close>)
    then show ?thesis using True by simp
  next
    case False
    then show ?thesis using ps by (auto simp: delivers_def intro: prefix_prefix)
  qed
qed

text \<open>The operations that deliver \<open>full\<close> from any state; the rules follow the definitions, as for \<open>quietly\<close>.\<close>

named_theorems carries \<open>what an operation delivers\<close>

definition carries :: "('w rom \<Rightarrow> ('w, int) rom_result) \<Rightarrow> byte list list \<Rightarrow> bool" where
  "carries f full \<longleftrightarrow> (\<forall>s. rom_ok s \<longrightarrow> wp (f s) (delivers s full))"

lemma carriesI: "(\<And>s. rom_ok s \<Longrightarrow> wp (f s) (delivers s full)) \<Longrightarrow> carries f full"
  by (simp add: carries_def)

lemma carriesD: "carries f full \<Longrightarrow> rom_ok s \<Longrightarrow> wp (f s) (delivers s full)"
  by (simp add: carries_def)

lemma carries_then [carries]:
  assumes "carries f full1" "carries g full2"
  shows "carries (\<lambda>s. and_then (f s) g) (full1 @ full2)"
  by (rule carriesI, rule delivers_then [OF carriesD [OF assms(1)]], assumption, rule carriesD [OF assms(2)])

lemma delivers_frame: "wp r (\<lambda>rc s'. sends s [p] s') \<Longrightarrow> wp r (delivers s [p])"
  by (erule wp_mono) (auto simp: delivers_def)

lemma delivers_quiet: "quietly f \<Longrightarrow> rom_ok s \<Longrightarrow> wp (f s) (delivers s [])"
  by (rule wp_mono [OF quietlyD]) (auto simp: delivers_def)

lemma delivers_nothing: "quiet s s' \<Longrightarrow> rc \<noteq> 0 \<Longrightarrow> delivers s full rc s'"
  by (auto simp: delivers_def)

lemma delivers_same: "delivers s1 full rc s' \<Longrightarrow> quiet s s1 \<Longrightarrow> delivers s full rc s'"
  unfolding delivers_def using quiet_sends by blast

lemma delivers_chunks:
  assumes "\<exists>cs. sends s (map frame cs) s' \<and> prefix cs (chunks n data) \<and> (rc = 0 \<longrightarrow> cs = chunks n data)"
  shows "delivers s (map frame (chunks n data)) rc s'"
  using assms unfolding delivers_def by (auto intro: map_mono_prefix)

lemma carries_quietly: "quietly f \<Longrightarrow> carries f []"
  by (rule carriesI) (rule delivers_quiet)

lemma carries_quietly_then: "quietly f \<Longrightarrow> carries g full \<Longrightarrow> carries (\<lambda>s. and_then (f s) g) full"
  using carries_then [OF carries_quietly, of f g full] by simp

lemma carries_c0_cmd [carries]: "carries (qmrom_write_cmd32_c0 d cmd) [le32_bytes (c0_cmd_code cmd)]"
  by (rule carriesI) (rule delivers_frame [OF c0_write_cmd_ok])

lemma carries_b0_cmd [carries]: "carries (b0_write_cmd d cmd) [[of_nat (b0_cmd_code cmd)]]"
  by (rule carriesI) (rule delivers_frame [OF b0_write_cmd_ok])

definition c0_data_frames :: "c0_cmd \<Rightarrow> byte list \<Rightarrow> byte list list" where
  "c0_data_frames cmd data = map (\<lambda>c. le32_bytes (c0_cmd_code cmd) @ c) (chunks CHUNK_SIZE_C0 data)"

definition b0_data_frames :: "b0_cmd \<Rightarrow> byte list \<Rightarrow> byte list list" where
  "b0_data_frames cmd data = map (\<lambda>c. of_nat (b0_cmd_code cmd) # c) (chunks CHUNK_SIZE_B0 data)"

lemma c0_flash_data_ok [carries]: "carries (qmrom_c0_flash_data d fw cmd resp skip) (c0_data_frames cmd fw)"
  unfolding carries_def qmrom_c0_flash_data_def c0_data_frames_def
  by (intro allI impI, rule wp_mono [OF c0_chunks.loop_sends]) (assumption, rule delivers_chunks)

lemma b0_flash_data_ok [carries]: "carries (qmrom_b0_flash_data d fw cmd resp) (b0_data_frames cmd fw)"
  unfolding carries_def qmrom_b0_flash_data_def b0_data_frames_def
  by (intro allI impI, rule wp_mono [OF b0_chunks.loop_sends]) (assumption, rule delivers_chunks)

lemma a0_write_chunks_ok [carries]: "carries (qmrom_a0_write_chunks d fw) (chunks CHUNK_SIZE_A0 fw)"
  unfolding carries_def qmrom_a0_write_chunks_def
  by (intro allI impI, rule wp_mono [OF a0_chunks.loop_sends]) (assumption, drule delivers_chunks, simp)

section \<open>Flashing a B0\<close>

definition b0_flash_frames :: "nat \<Rightarrow> unstitched_firmware \<Rightarrow> byte list list" where
  "b0_flash_frames lcs f =
     [[of_nat (b0_cmd_code (b0_flash_cmd lcs))]] @ b0_data_frames ROM_CMD_B0_CERT_DATA (key1_crt f) @
     b0_data_frames ROM_CMD_B0_CERT_DATA (key2_crt f) @ b0_data_frames ROM_CMD_B0_CERT_DATA (fw_crt f) @
     b0_data_frames ROM_CMD_B0_SEC_IMAGE_DATA (fw_img f)"

lemma b0_send_parts_ok [carries]: "carries (b0_send_parts d f) (b0_data_frames ROM_CMD_B0_CERT_DATA (key1_crt f) @
     b0_data_frames ROM_CMD_B0_CERT_DATA (key2_crt f) @ b0_data_frames ROM_CMD_B0_CERT_DATA (fw_crt f) @
     b0_data_frames ROM_CMD_B0_SEC_IMAGE_DATA (fw_img f))"
  unfolding b0_send_parts_def by (intro carries)

lemma b0_flash_unstitched_ok:
  assumes ok: "rom_ok s" and k: "HBK_LOC < length (key1_crt f)"
  shows "wp (qmrom_b0_flash_unstitched_fw d f s) (delivers s (b0_flash_frames (rom_lcs_state s) f))"
proof (cases "check_platform (key1_crt f) (rom_lcs_state s) = Some True")
  case True
  have "wp (and_then (qmrom_b0_wait_ready d s) (\<lambda>s1.
      and_then (b0_write_cmd d (b0_flash_cmd (rom_lcs_state s1)) s1) (b0_send_parts d f)))
    (delivers s ([] @ b0_flash_frames (rom_lcs_state s) f))"
  proof (rule delivers_then [OF delivers_quiet [OF quietly_b0_wait_ready ok]])
    fix s1 assume s1: "rom_ok s1" "quiet s s1"
    have lcs: "rom_lcs_state s1 = rom_lcs_state s" using sends_cfg [OF s1(2)] by simp
    have "carries (\<lambda>s1. and_then (b0_write_cmd d (b0_flash_cmd (rom_lcs_state s)) s1) (b0_send_parts d f))
      (b0_flash_frames (rom_lcs_state s) f)"
      unfolding b0_flash_frames_def by (intro carries)
    then show "wp (and_then (b0_write_cmd d (b0_flash_cmd (rom_lcs_state s1)) s1) (b0_send_parts d f))
      (delivers s1 (b0_flash_frames (rom_lcs_state s) f))"
      unfolding lcs by (rule carriesD) (rule s1(1))
  qed
  then show ?thesis using True by (simp add: qmrom_b0_flash_unstitched_fw_def)
next
  case False
  then have "check_platform (key1_crt f) (rom_lcs_state s) = Some False"
    using k by (auto simp: check_platform_def split: if_splits)
  then show ?thesis using sends_refl [OF ok]
    by (simp add: qmrom_b0_flash_unstitched_fw_def delivers_nothing)
qed

lemma b0_flash_fw_ok:
  assumes ok: "rom_ok s" and k: "HBK_LOC < length (key1_crt f)" and rev: "rom_chip_rev s \<noteq> chip_rev_code A0"
    and len: "length (stitch f) < 4294967296"
  shows "wp (qmrom_b0_flash_fw d (stitch f) s) (delivers s (b0_flash_frames (rom_lcs_state s) f))"
proof -
  obtain w' where u: "qmrom_unstitch_fw d (stitch f) (rom_chip_rev s) (rom_world s) =
      Some (if fst (allocs d 4 (rom_world s)) then (0, Some f, w') else (- ENOMEM, None, w'))"
    using unstitch_stitch [OF rev len, of d "rom_world s"] by (elim exE) (rule that)
  let ?s = "s\<lparr>rom_world := w'\<rparr>"
  have q: "quiet s ?s" by (rule reset_quiet [OF ok])
  have "wp (qmrom_b0_flash_unstitched_fw d f ?s) (delivers s (b0_flash_frames (rom_lcs_state s) f))"
    using b0_flash_unstitched_ok [OF sends_ok [OF q] k, of d]
    by (rule wp_mono) (use q in \<open>auto intro: delivers_same\<close>)
  then show ?thesis using u q by (simp add: qmrom_b0_flash_fw_def delivers_nothing)
qed

section \<open>Flashing a C0\<close>

definition c0_flash_frames :: "nat \<Rightarrow> unstitched_firmware \<Rightarrow> byte list list" where
  "c0_flash_frames lcs f =
     [le32_bytes (c0_cmd_code ROM_CMD_C0_USE_INDIRECT_RRAM_WR), le32_bytes (c0_cmd_code (c0_flash_cmd lcs))] @
     c0_data_frames ROM_CMD_C0_CERT_DATA (key1_crt f) @ c0_data_frames ROM_CMD_C0_CERT_DATA (key2_crt f) @
     c0_data_frames ROM_CMD_C0_CERT_DATA (fw_crt f) @ c0_data_frames ROM_CMD_C0_SEC_IMAGE_DATA (fw_img f)"

lemma c0_send_parts_ok [carries]: "carries (c0_send_parts d f) (c0_data_frames ROM_CMD_C0_CERT_DATA (key1_crt f) @
     c0_data_frames ROM_CMD_C0_CERT_DATA (key2_crt f) @ c0_data_frames ROM_CMD_C0_CERT_DATA (fw_crt f) @
     c0_data_frames ROM_CMD_C0_SEC_IMAGE_DATA (fw_img f))"
  unfolding c0_send_parts_def by (intro carries)

lemma c0_set_write_mode_ok [carries]:
  "carries (c0_set_write_mode d) [le32_bytes (c0_cmd_code ROM_CMD_C0_USE_INDIRECT_RRAM_WR)]"
proof -
  have q: "quietly (\<lambda>s. do {
       (_, s) \<leftarrow> qmrom_c0_poll_soc d s; (_, s) \<leftarrow> qmrom_pre_read_c0 d s;
       (_, s) \<leftarrow> qmrom_read_c0 d s; (_, s) \<leftarrow> qmrom_c0_poll_soc d s; Some (0 :: int, s) })"
    by (intro quietly)
  have "carries (c0_set_write_mode d) ([] @ [le32_bytes (c0_cmd_code ROM_CMD_C0_USE_INDIRECT_RRAM_WR)] @ [])"
    unfolding c0_set_write_mode_def
    by (intro carries carries_quietly [OF quietly_c0_wait_ready] carries_quietly [OF q])
  then show ?thesis by simp
qed

lemma wp_delivers_then:
  assumes "wp r (delivers s full)" "\<And>s1. rom_ok s1 \<Longrightarrow> sends s full s1 \<Longrightarrow> wp (k s1) Q"
    "\<And>rc ps s1. rc \<noteq> 0 \<Longrightarrow> sends s ps s1 \<Longrightarrow> prefix ps full \<Longrightarrow> Q rc s1"
  shows "wp (and_then r k) Q"
  unfolding wp_and_then
  by (rule wp_mono [OF assms(1)]) (auto simp: delivers_def dest: sends_ok intro: assms(2,3))

text \<open>The answer to the flash command decides: anything but the expected one ends the operation with 0.\<close>

definition c0_outcome :: "nat \<Rightarrow> unstitched_firmware \<Rightarrow> 'w rom \<Rightarrow> int \<Rightarrow> 'w rom \<Rightarrow> bool" where
  "c0_outcome lcs f s rc s' \<longleftrightarrow> (\<exists>ps. sends s ps s' \<and> prefix ps (c0_flash_frames lcs f) \<and>
     (rc = 0 \<longrightarrow> ps = c0_flash_frames lcs f \<or> ps = take 2 (c0_flash_frames lcs f)))"

lemma delivers_c0_outcome:
  "sends s (take 2 (c0_flash_frames lcs f)) s1 \<Longrightarrow> delivers s1 (drop 2 (c0_flash_frames lcs f)) rc s' \<Longrightarrow> c0_outcome lcs f s rc s'"
  unfolding delivers_def c0_outcome_def
  by (metis append_take_drop_id same_prefix_prefix sends_trans)

lemma c0_flash_tail_ok:
  assumes s1: "rom_ok s1" "sends s (take 2 (c0_flash_frames lcs f)) s1"
  shows "wp (do {
     (_, s) \<leftarrow> qmrom_c0_poll_cmd_resp d s1;
     if sstc_payload0 s \<noteq> resp_code WAITING_FOR_FIRST_KEY_CERT then Some (0, s)
     else do { (_, s) \<leftarrow> qmrom_c0_poll_soc d s; c0_send_parts d f s } }) (c0_outcome lcs f s)"
  unfolding wp_bind
proof (rule wp_mono [OF quietlyD [OF quietly_c0_poll_cmd_resp s1(1)]])
  fix v s2 assume s2: "quiet s1 s2"
  have end2: "c0_outcome lcs f s 0 s2"
    using sends_quiet [OF s1(2) s2] unfolding c0_outcome_def by (blast intro: take_is_prefix)
  have "wp (do { (_, s) \<leftarrow> qmrom_c0_poll_soc d s2; c0_send_parts d f s }) (c0_outcome lcs f s)"
    unfolding wp_bind
  proof (rule wp_mono [OF quietlyD [OF quietly_c0_poll sends_ok [OF s2]]])
    fix v s3 assume s3: "quiet s2 s3"
    have "wp (c0_send_parts d f s3) (delivers s3 (drop 2 (c0_flash_frames lcs f)))"
      using carriesD [OF c0_send_parts_ok sends_ok [OF s3]] by (simp add: c0_flash_frames_def)
    then show "wp (c0_send_parts d f s3) (c0_outcome lcs f s)"
      by (rule wp_mono) (rule delivers_c0_outcome [OF sends_quiet [OF sends_quiet [OF s1(2) s2] s3]])
  qed
  then show "wp (if sstc_payload0 s2 \<noteq> resp_code WAITING_FOR_FIRST_KEY_CERT then Some (0, s2)
     else do { (_, s) \<leftarrow> qmrom_c0_poll_soc d s2; c0_send_parts d f s }) (c0_outcome lcs f s)"
    using end2 by simp
qed

lemma c0_flash_parts_ok:
  assumes ok: "rom_ok s" and k: "HBK_LOC < length (key1_crt f)"
  shows "wp (c0_flash_parts d f s) (c0_outcome (rom_lcs_state s) f s)"
proof (cases "check_platform (key1_crt f) (rom_lcs_state s) = Some True")
  case True
  let ?lcs = "rom_lcs_state s" and ?m = "le32_bytes (c0_cmd_code ROM_CMD_C0_USE_INDIRECT_RRAM_WR)"
  let ?c = "le32_bytes (c0_cmd_code (c0_flash_cmd ?lcs))"
  have t2: "take 2 (c0_flash_frames ?lcs f) = [?m, ?c]" by (simp add: c0_flash_frames_def)
  have fail: "c0_outcome ?lcs f s rc s1" if "rc \<noteq> 0" "sends s ps s1" "prefix ps [?m, ?c]" for rc ps s1
    using that unfolding c0_outcome_def t2 [symmetric] by (blast intro: prefix_order.trans take_is_prefix)
  have "wp (and_then (c0_set_write_mode d s) (\<lambda>s.
          and_then (qmrom_write_cmd32_c0 d (c0_flash_cmd (rom_lcs_state s)) s) (\<lambda>s. do {
            (_, s) \<leftarrow> qmrom_c0_poll_cmd_resp d s;
            if sstc_payload0 s \<noteq> resp_code WAITING_FOR_FIRST_KEY_CERT then Some (0, s)
            else do { (_, s) \<leftarrow> qmrom_c0_poll_soc d s; c0_send_parts d f s } }))) (c0_outcome ?lcs f s)"
  proof (rule wp_delivers_then [OF carriesD [OF c0_set_write_mode_ok ok]])
    fix s1 assume s1: "rom_ok s1" "sends s [?m] s1"
    have lcs: "rom_lcs_state s1 = ?lcs" using sends_cfg [OF s1(2)] by simp
    show "wp (and_then (qmrom_write_cmd32_c0 d (c0_flash_cmd (rom_lcs_state s1)) s1) (\<lambda>s. do {
            (_, s) \<leftarrow> qmrom_c0_poll_cmd_resp d s;
            if sstc_payload0 s \<noteq> resp_code WAITING_FOR_FIRST_KEY_CERT then Some (0, s)
            else do { (_, s) \<leftarrow> qmrom_c0_poll_soc d s; c0_send_parts d f s } })) (c0_outcome ?lcs f s)"
      unfolding lcs
    proof (rule wp_delivers_then [OF carriesD [OF carries_c0_cmd s1(1)]], goal_cases)
      case (1 s2)
      show ?case by (rule c0_flash_tail_ok [OF 1(1)]) (use sends_trans [OF s1(2) 1(2)] t2 in simp)
    next
      case (2 rc ps s2)
      show ?case by (rule fail [OF 2(1) sends_trans [OF s1(2) 2(2)]]) (use 2(3) in simp)
    qed
  qed (erule fail, assumption, drule prefix_prefix [of _ _ "[?c]"], simp)
  then show ?thesis using True by (simp add: c0_flash_parts_def)
next
  case False
  then have "check_platform (key1_crt f) (rom_lcs_state s) = Some False"
    using k by (auto simp: check_platform_def split: if_splits)
  then show ?thesis using sends_refl [OF ok]
    by (auto simp: c0_flash_parts_def c0_outcome_def)
qed

lemma c0_flash_fw_ok:
  assumes ok: "rom_ok s" and k: "HBK_LOC < length (key1_crt f)" and rev: "rom_chip_rev s \<noteq> chip_rev_code A0"
    and len: "length (stitch f) < 4294967296"
  shows "wp (qmrom_c0_flash_fw d (stitch f) s) (c0_outcome (rom_lcs_state s) f s)"
proof -
  obtain w' where u: "qmrom_unstitch_fw d (stitch f) (rom_chip_rev s) (rom_world s) =
      Some (if fst (allocs d 4 (rom_world s)) then (0, Some f, w') else (- ENOMEM, None, w'))"
    using unstitch_stitch [OF rev len, of d "rom_world s"] by (elim exE) (rule that)
  let ?s = "s\<lparr>rom_world := w'\<rparr>"
  have q: "quiet s ?s" by (rule reset_quiet [OF ok])
  have "wp (c0_flash_parts d f ?s) (c0_outcome (rom_lcs_state ?s) f ?s)"
    by (rule c0_flash_parts_ok [OF sends_ok [OF q] k])
  then have "wp (c0_flash_parts d f ?s) (c0_outcome (rom_lcs_state s) f s)"
    by (rule wp_mono) (use q in \<open>auto simp: c0_outcome_def intro: quiet_sends\<close>)
  moreover have "c0_outcome (rom_lcs_state s) f s (- ENOMEM) ?s"
    using q by (auto simp: c0_outcome_def)
  ultimately show ?thesis using u by (simp add: qmrom_c0_flash_fw_def)
qed

section \<open>Flashing an A0\<close>

definition a0_flash_frames :: "byte list \<Rightarrow> byte list list" where
  "a0_flash_frames fw =
     [[of_nat ROM_CMD_A0_DOWNLOAD_RRAM_CMD]] @ [[0], [0], [0]] @ [le32_bytes (length fw)] @ chunks CHUNK_SIZE_A0 fw"

lemma carries_cmd [carries]: "carries (qmrom_write_cmd d c) [[of_nat c]]"
  by (rule carriesI) (rule delivers_frame [OF write_cmd_ok])

lemma carries_a0_write_data: "length data \<le> 2048 \<Longrightarrow> carries (qmrom_a0_write_data d data) [data]"
  unfolding qmrom_a0_write_data_def by (rule carriesI) (rule delivers_frame [OF send_write])

text \<open>An operation after quiet steps and a test that may end with an error.\<close>

lemma carries_after_check:
  assumes "quietly f" "rc \<noteq> 0" "carries g full"
  shows "carries (\<lambda>s. f s \<bind> (\<lambda>(_, s). if b s then Some (rc, s) else g s)) full"
proof (rule carriesI)
  fix s :: "'a rom" assume ok: "rom_ok s"
  show "wp (f s \<bind> (\<lambda>(_, s). if b s then Some (rc, s) else g s)) (delivers s full)"
  proof (rule wp_then [OF quietlyD [OF assms(1) ok]])
    fix v s1 assume s1: "rom_ok s1" "quiet s s1"
    have "wp (g s1) (delivers s full)"
      by (rule wp_mono [OF carriesD [OF assms(3) s1(1)]]) (rule delivers_same [OF _ s1(2)])
    then show "wp (if b s1 then Some (rc, s1) else g s1) (delivers s full)"
      using assms(2) s1 by (simp add: delivers_nothing)
  qed
qed

lemma quietly_a0_response: "quietly (\<lambda>s. do { (_, s) \<leftarrow> qmrom_a0_poll_soc d s; a0_read_response d s })"
  by (intro quietly)

lemma quietly_reboot [quietly]: "quietly (qmrom_reboot_bootloader d)"
  by (rule quietlyI) (rule reboot_ok)

lemma carries_a0_handshake:
  "carries (a0_handshake d resps) (map (\<lambda>_. [0]) (filter (\<lambda>r. r < SPI_RSP_WAIT_IMAGE_SIZE) resps))"
proof (induction resps)
  case Nil
  have "quietly (a0_handshake d [])" by (simp add: quietly_def sends_refl)
  from carries_quietly [OF this] show ?case by (simp only: filter.simps list.map)
next
  case (Cons r resps)
  let ?rest = "map (\<lambda>_. [0]) (filter (\<lambda>r. r < SPI_RSP_WAIT_IMAGE_SIZE) resps) :: byte list list"
  let ?step = "\<lambda>s. if r < SPI_RSP_WAIT_IMAGE_SIZE then and_then (qmrom_write_cmd d 0 s) (a0_handshake d resps)
    else a0_handshake d resps s"
  have "carries ?step ((if r < SPI_RSP_WAIT_IMAGE_SIZE then [[0]] else []) @ ?rest)"
    using carries_then [OF carries_cmd [of d 0] Cons.IH] Cons.IH by simp
  from carries_after_check [OF quietly_a0_response _ this, of SPI_PROTO_WRONG_RESP d "\<lambda>s. sstc_payload0 s \<noteq> r"]
  show ?case
    by (cases "r < SPI_RSP_WAIT_IMAGE_SIZE") (simp_all add: SPI_PROTO_WRONG_RESP_def carries_def split_def cong: if_cong)
qed

lemma a0_flash_fw_ok [carries]: "carries (qmrom_a0_flash_fw d fw) (a0_flash_frames fw)"
proof -
  have resps: "map (\<lambda>_. [0]) (filter (\<lambda>r. r < SPI_RSP_WAIT_IMAGE_SIZE) [SPI_RSP_WAIT_FOR_KEY1_CERT..<SPI_RSP_WAIT_FOR_IMAGE]) =
      [[0], [0], [0] :: byte list]"
    by (simp add: SPI_RSP_WAIT_IMAGE_SIZE_def SPI_RSP_WAIT_FOR_KEY1_CERT_def SPI_RSP_WAIT_FOR_IMAGE_def upt_conv_Cons)
  have d: "carries (qmrom_a0_write_data d (le32_bytes (length fw))) [le32_bytes (length fw)]"
    by (rule carries_a0_write_data) simp
  have "carries (\<lambda>s. and_then (qmrom_write_cmd d ROM_CMD_A0_DOWNLOAD_RRAM_CMD s) (\<lambda>s.
      and_then (a0_handshake d [SPI_RSP_WAIT_FOR_KEY1_CERT..<SPI_RSP_WAIT_FOR_IMAGE] s) (\<lambda>s.
      and_then (qmrom_a0_write_data d (le32_bytes (length fw)) s) (qmrom_a0_write_chunks d fw)))) (a0_flash_frames fw)"
    unfolding a0_flash_frames_def using carries_a0_handshake [of d "[SPI_RSP_WAIT_FOR_KEY1_CERT..<SPI_RSP_WAIT_FOR_IMAGE]"] d
    unfolding resps by (intro carries)
  from carries_after_check [OF quietly_a0_read_response _ this, of SPI_PROTO_WRONG_RESP d
      "\<lambda>s. sstc_payload0 s \<noteq> SPI_RSP_WAIT_DOWNLOAD_MODE"]
  show ?thesis unfolding qmrom_a0_flash_fw_def
    by (intro carries_quietly_then quietly) (simp add: SPI_PROTO_WRONG_RESP_def)
qed

end
