(* ===== verification/Rom_Probe.thy ===== *)
theory Rom_Probe
  imports Rom_Flash
begin

text \<open>
  Probing and whole sessions with the boot ROM.  \<open>harmless f\<close>: from any state with frame buffers of the
  right size, \<open>f\<close> does not fault, keeps them so and leaves the configuration of the handle alone.
  \<open>probing\<close> is what the three probe functions share: only queries are written, and the pointers of
  \<open>rom_ops\<close> change exactly when the answer names the revision.
\<close>

section \<open>Operations that do not fault\<close>

named_theorems harmless \<open>operations that do not fault\<close>

definition harmless :: "('w rom \<Rightarrow> ('w, 'a) rom_result) \<Rightarrow> bool" where
  "harmless f \<longleftrightarrow> (\<forall>s. rom_ok s \<longrightarrow> wp (f s) (\<lambda>_ s'. \<exists>ps. sends s ps s'))"

lemma harmlessD: "harmless f \<Longrightarrow> rom_ok s \<Longrightarrow> wp (f s) (\<lambda>_ s'. \<exists>ps. sends s ps s')"
  by (simp add: harmless_def)

lemma harmlessI: "(\<And>s. rom_ok s \<Longrightarrow> wp (f s) (\<lambda>_ s'. \<exists>ps. sends s ps s')) \<Longrightarrow> harmless f"
  by (simp add: harmless_def)

lemma harmless_quietly: "quietly f \<Longrightarrow> harmless f"
  unfolding quietly_def harmless_def by (blast intro: wp_mono)

lemma harmless_carries: "carries f full \<Longrightarrow> harmless f"
  unfolding carries_def harmless_def delivers_def by (blast intro: wp_mono)

lemma harmless_bind [harmless]:
  assumes "harmless f" "\<And>v. harmless (g v)"
  shows "harmless (\<lambda>s. f s \<bind> (\<lambda>(v, s). g v s))"
proof (rule harmlessI)
  fix s :: "'a rom" assume ok: "rom_ok s"
  show "wp (f s \<bind> (\<lambda>(v, s). g v s)) (\<lambda>_ s'. \<exists>ps. sends s ps s')"
    unfolding wp_bind
  proof (rule wp_mono [OF harmlessD [OF assms(1) ok]])
    fix v s1 assume "\<exists>ps. sends s ps s1"
    then obtain ps where ps: "sends s ps s1" ..
    show "wp (g v s1) (\<lambda>_ s'. \<exists>ps. sends s ps s')"
      by (rule wp_mono [OF harmlessD [OF assms(2) sends_ok [OF ps]]]) (use sends_trans [OF ps] in blast)
  qed
qed

lemma harmless_return [harmless]: "harmless (\<lambda>s. Some (v s, s))"
  by (rule harmless_quietly) (rule quietly_return)

lemma harmless_if [harmless]: "harmless f \<Longrightarrow> harmless g \<Longrightarrow> harmless (\<lambda>s. if b s then f s else g s)"
  by (simp add: harmless_def)

lemma harmless_and_then [harmless]: "harmless f \<Longrightarrow> harmless g \<Longrightarrow> harmless (\<lambda>s. and_then (f s) g)"
  unfolding and_then_def by (intro harmless)

lemma carries_c0_size_cmd: "carries (qmrom_write_size_cmd32_c0 d cmd (le32_bytes n)) [le32_bytes (c0_cmd_code cmd) @ le32_bytes n]"
  by (rule carriesI) (rule delivers_frame [OF c0_write_size_cmd_ok], simp_all)

lemma carries_b0_size_cmd: "carries (b0_write_size_cmd d cmd (le32_bytes n)) [of_nat (b0_cmd_code cmd) # le32_bytes n]"
  by (rule carriesI) (rule delivers_frame [OF b0_write_size_cmd_ok], simp_all)

lemmas harmless_steps = harmless
  harmless_carries [OF carries_c0_cmd] harmless_carries [OF carries_b0_cmd] harmless_carries [OF carries_c0_size_cmd]
  harmless_carries [OF carries_b0_size_cmd] harmless_carries [OF c0_flash_data_ok] harmless_carries [OF b0_flash_data_ok]
  harmless_carries [OF c0_set_write_mode_ok] harmless_quietly [OF quietly_c0_wait_ready]
  harmless_quietly [OF quietly_b0_wait_ready] harmless_quietly [OF quietly_c0_poll_cmd_resp]
  harmless_quietly [OF quietly_b0_poll] harmless_quietly [OF quietly_pre_read] harmless_quietly [OF quietly_read]

lemma harmless_c0_debug_cert: "harmless (qmrom_c0_flash_debug_cert d cert)"
  unfolding qmrom_c0_flash_debug_cert_def by (intro harmless_steps)

lemma harmless_b0_debug_cert: "harmless (qmrom_b0_flash_debug_cert d cert)"
  unfolding qmrom_b0_flash_debug_cert_def by (intro harmless_steps)

lemma harmless_b0_erase: "harmless (qmrom_b0_erase_debug_cert d)"
  unfolding qmrom_b0_erase_debug_cert_def by (intro harmless_steps)

lemma carries_c0_erase: "carries (qmrom_c0_erase_debug_cert d) [le32_bytes (c0_cmd_code ROM_CMD_C0_ERASE_DBG_CERT)]"
  unfolding qmrom_c0_erase_debug_cert_def by (intro carries_quietly_then quietly carries)

section \<open>Probing\<close>

text \<open>The commands that only ask: chip version and SoC information, of B0 and of C0.\<close>

definition queries :: "byte list set" where
  "queries = {[2], [3], [2, 0, 0, 0], [3, 0, 0, 0]}"

definition rom_ops :: "'w rom \<Rightarrow> chip option \<times> chip option \<times> chip option \<times> chip option" where
  "rom_ops s = (rom_flash_fw s, rom_flash_unstitched_fw s, rom_flash_debug_cert s, rom_erase_debug_cert s)"

text \<open>The pointers the probe of a revision leaves; \<open>qmrom_flash_unstitched_fw\<close> is only ever set for B0.\<close>

fun ops_of :: "chip \<Rightarrow> chip option \<Rightarrow> chip option \<times> chip option \<times> chip option \<times> chip option" where
  "ops_of A0 u = (Some A0, u, None, None)"
| "ops_of B0 u = (Some B0, Some B0, Some B0, Some B0)"
| "ops_of C0 u = (Some C0, u, Some C0, Some C0)"

definition asked :: "'w rom \<Rightarrow> 'w rom \<Rightarrow> bool" where
  "asked s s' \<longleftrightarrow> rom_ok s' \<and> (\<exists>ps. rom_writes s' = rom_writes s @ ps \<and> set ps \<subseteq> queries)"

lemma asked_refl: "rom_ok s \<Longrightarrow> asked s s"
  by (simp add: asked_def)

lemma asked_trans: "asked s s1 \<Longrightarrow> asked s1 s2 \<Longrightarrow> asked s s2"
  unfolding asked_def by (metis append_assoc set_append Un_least)

definition probed :: "chip \<Rightarrow> 'w rom \<Rightarrow> int \<Rightarrow> 'w rom \<Rightarrow> bool" where
  "probed c s rc s' \<longleftrightarrow> asked s s' \<and>
     (if rc = 0 then rom_chip_rev s' = chip_rev_code c \<and> rom_ops s' = ops_of c (rom_flash_unstitched_fw s)
      else rom_ops s' = rom_ops s)"

definition seen :: "bool \<Rightarrow> chip \<Rightarrow> 'w rom \<Rightarrow> 'w rom \<Rightarrow> bool" where
  "seen known c s s' \<longleftrightarrow> asked s s' \<and> rom_ops s' = rom_ops s \<and> (known \<longrightarrow> rom_chip_rev s' = chip_rev_code c)"

definition probing :: "bool \<Rightarrow> chip \<Rightarrow> ('w rom \<Rightarrow> ('w, int) rom_result) \<Rightarrow> bool" where
  "probing known c f \<longleftrightarrow> (\<forall>s s1. seen known c s s1 \<longrightarrow> wp (f s1) (probed c s))"

definition asks :: "('w rom \<Rightarrow> ('w, 'a) rom_result) \<Rightarrow> bool" where
  "asks f \<longleftrightarrow> (\<forall>s. rom_ok s \<longrightarrow> wp (f s) (\<lambda>_ s'. \<exists>ps. sends s ps s' \<and> set ps \<subseteq> queries))"

lemma seen_ok: "seen known c s s1 \<Longrightarrow> rom_ok s1"
  by (simp add: seen_def asked_def)

lemma seen_sends: "seen known c s s1 \<Longrightarrow> sends s1 ps s2 \<Longrightarrow> set ps \<subseteq> queries \<Longrightarrow> seen known c s s2"
  by (auto simp: seen_def asked_def sends_def rom_cfg_def rom_ops_def)

lemma seen_failed: "seen known c s s1 \<Longrightarrow> rc \<noteq> 0 \<Longrightarrow> probed c s rc s1"
  by (simp add: seen_def probed_def)

lemma asks_quietly: "quietly f \<Longrightarrow> asks f"
  unfolding asks_def by (intro allI impI, rule wp_mono [OF quietlyD], assumption+) (rule exI [of _ "[]"], simp)

lemma asks_b0_ver: "asks (b0_write_cmd d ROM_CMD_B0_GET_CHIP_VER)" "asks (b0_write_cmd d ROM_CMD_B0_GET_SOC_INFO)"
  unfolding asks_def by (auto intro!: wp_mono [OF b0_write_cmd_ok] simp: queries_def)

lemma asks_c0_ver: "asks (qmrom_write_cmd32_c0 d ROM_CMD_C0_GET_CHIP_VER)" "asks (qmrom_write_cmd32_c0 d ROM_CMD_C0_GET_SOC_INFO)"
  unfolding asks_def by (auto intro!: wp_mono [OF c0_write_cmd_ok] simp: queries_def le32_bytes_def)

lemma wp_asks:
  assumes "asks f" "seen known c s s1"
  shows "wp (f s1) (\<lambda>_ s2. seen known c s s2)"
  using assms seen_ok [OF assms(2)] unfolding asks_def by (blast intro: wp_mono seen_sends)

lemma probing_and_then:
  assumes "asks f" "probing known c g"
  shows "probing known c (\<lambda>s. and_then (f s) g)"
  unfolding probing_def wp_and_then
proof (intro allI impI)
  fix s s1 :: "'a rom" assume s1: "seen known c s s1"
  show "wp (f s1) (\<lambda>rc s2. if rc \<noteq> 0 then probed c s rc s2 else wp (g s2) (probed c s))"
    by (rule wp_mono [OF wp_asks [OF assms(1) s1]]) (use assms(2) in \<open>auto simp: probing_def intro: seen_failed\<close>)
qed

lemma probing_bind:
  assumes "asks f" "\<And>v. probing known c (g v)"
  shows "probing known c (\<lambda>s. f s \<bind> (\<lambda>(v, s). g v s))"
  unfolding probing_def wp_bind
proof (intro allI impI)
  fix s s1 :: "'a rom" assume s1: "seen known c s s1"
  show "wp (f s1) (\<lambda>v s2. wp (g v s2) (probed c s))"
    by (rule wp_mono [OF wp_asks [OF assms(1) s1]]) (use assms(2) in \<open>simp add: probing_def\<close>)
qed

lemma probing_if: "rc \<noteq> 0 \<Longrightarrow> probing known c g \<Longrightarrow> probing known c (\<lambda>s. if b s then Some (rc, s) else g s)"
  unfolding probing_def by (auto intro: seen_failed)

text \<open>The end of a probe, where the chip has answered the second query.\<close>

lemma probing_finish:
  assumes "\<And>s. rom_ok s \<Longrightarrow> \<exists>s'. f s = Some (0, s') \<and> rom_ok s' \<and> rom_writes s' = rom_writes s \<and>
    rom_chip_rev s' = rom_chip_rev s \<and> rom_ops s' = ops_of c (rom_flash_unstitched_fw s)"
  shows "probing True c f"
  unfolding probing_def
proof (intro allI impI)
  fix s s1 :: "'a rom" assume s1: "seen True c s s1"
  obtain s' where f: "f s1 = Some (0, s')" and s': "rom_ok s'" "rom_writes s' = rom_writes s1"
    "rom_chip_rev s' = rom_chip_rev s1" "rom_ops s' = ops_of c (rom_flash_unstitched_fw s1)"
    using assms [OF seen_ok [OF s1]] by blast
  have "rom_flash_unstitched_fw s1 = rom_flash_unstitched_fw s" using s1 by (simp add: seen_def rom_ops_def)
  then show "wp (f s1) (probed c s)" using s1 s' f by (simp add: probed_def seen_def asked_def)
qed

text \<open>Reading the revision: the test that lets a probe go on is the one \<open>known\<close> stands for.\<close>

lemma probing_revision:
  assumes g: "probing True c g"
    and e: "\<And>s. rom_ok s \<Longrightarrow> \<exists>s'. e s = Some ((), s') \<and> rom_ok s' \<and> rom_writes s' = rom_writes s \<and> rom_ops s' = rom_ops s"
  shows "probing False c (\<lambda>s. do {
       (_, s) \<leftarrow> e s;
       if rom_chip_rev s \<noteq> chip_rev_code c then Some (- 1, s\<lparr>rom_chip_rev := - 1\<rparr>) else g s })"
  unfolding probing_def
proof (intro allI impI)
  fix s s1 :: "'a rom" assume s1: "seen False c s s1"
  obtain s2 where s2: "e s1 = Some ((), s2)" "rom_ok s2" "rom_writes s2 = rom_writes s1" "rom_ops s2 = rom_ops s1"
    using e [OF seen_ok [OF s1]] by blast
  have "seen True c s s2" if "rom_chip_rev s2 = chip_rev_code c"
    using that s1 s2 by (simp add: seen_def asked_def)
  moreover have "probed c s (- 1) (s2\<lparr>rom_chip_rev := - 1\<rparr>)"
    using s1 s2 by (simp add: seen_def probed_def asked_def rom_ok_def rom_writes_def rom_ops_def)
  ultimately show "wp (do {
       (_, s) \<leftarrow> e s1;
       if rom_chip_rev s \<noteq> chip_rev_code c then Some (- 1, s\<lparr>rom_chip_rev := - 1\<rparr>) else g s }) (probed c s)"
    using g s2 by (simp add: probing_def)
qed

lemma sstc2uint16_ok: "rom_ok s \<Longrightarrow> n \<le> 2046 \<Longrightarrow> \<exists>x. sstc2uint16 s n = Some x"
  by (auto simp: sstc2uint16_def u16_at_def mem_read_def rom_ok_def)

lemma sstc_read_ok: "rom_ok s \<Longrightarrow> p + n \<le> 2052 \<Longrightarrow> mem_read (rom_sstc s) p n = Some (chunk (rom_sstc s) p n)"
  by (simp add: mem_read_def rom_ok_def)

lemma read_version_ok: "rom_ok s \<Longrightarrow> a \<le> 2046 \<Longrightarrow> b \<le> 2046 \<Longrightarrow>
  \<exists>s'. read_version a b s = Some ((), s') \<and> rom_ok s' \<and> rom_writes s' = rom_writes s \<and> rom_ops s' = rom_ops s"
  using sstc2uint16_ok [of s a] sstc2uint16_ok [of s b]
  by (auto simp: read_version_def rom_ok_def rom_writes_def rom_ops_def)

lemma a0_read_version_ok: "rom_ok s \<Longrightarrow>
  \<exists>s'. a0_read_version s = Some ((), s') \<and> rom_ok s' \<and> rom_writes s' = rom_writes s \<and> rom_ops s' = rom_ops s"
  using sstc2uint16_ok [of s 1] by (auto simp: a0_read_version_def rom_ok_def rom_writes_def rom_ops_def)

lemma probing_soc_info: "probing True B0 b0_soc_info" "probing True C0 c0_soc_info"
  by (rule probing_finish, simp add: b0_soc_info_def c0_soc_info_def sstc_read_ok u32_at_def ROM_SOC_ID_LEN_def ROM_UUID_LEN_def,
      simp add: rom_ok_def rom_writes_def rom_ops_def)+

text \<open>The clock and the byte order are set, and the chip is rebooted.\<close>

lemma probing_start:
  assumes "probing False c f"
  shows "rom_ok s \<Longrightarrow> wp (f (qmrom_spi_set_freq hz (s\<lparr>rom_is_be := be\<rparr>))) (probed c s)"
proof -
  assume "rom_ok s"
  then have "seen False c s (qmrom_spi_set_freq hz (s\<lparr>rom_is_be := be\<rparr>))"
    by (simp add: seen_def asked_def rom_ok_def rom_writes_def rom_ops_def qmrom_spi_set_freq_def)
  then show ?thesis using assms by (simp add: probing_def)
qed

lemmas probing_steps = probing_and_then probing_soc_info probing_revision read_version_ok asks_b0_ver asks_c0_ver
  asks_quietly [OF quietly_reboot] asks_quietly [OF quietly_b0_wait_ready] asks_quietly [OF quietly_b0_poll_cmd_resp]
  asks_quietly [OF quietly_c0_wait_ready] asks_quietly [OF quietly_c0_poll_cmd_resp]
  asks_quietly [OF quietly_a0_wait_ready]

lemma b0_probe_ok: "rom_ok s \<Longrightarrow> wp (qmrom_b0_probe_device d s) (probed B0 s)"
  unfolding qmrom_b0_probe_device_def by (rule probing_start) (intro probing_steps; simp)

lemma c0_probe_ok: "rom_ok s \<Longrightarrow> wp (qmrom_c0_probe_device d s) (probed C0 s)"
  unfolding qmrom_c0_probe_device_def by (rule probing_start) (intro probing_steps; simp)

lemma a0_probe_ok:
  assumes "rom_ok s" 
  shows "wp (qmrom_a0_probe_device d s) (probed A0 s)"
proof -
  have "probing True A0 (\<lambda>s. Some (0, s\<lparr>rom_flash_fw := Some A0, rom_flash_debug_cert := None, rom_erase_debug_cert := None\<rparr>))"
    by (rule probing_finish) (simp add: rom_ok_def rom_writes_def rom_ops_def)
  then show ?thesis
    unfolding qmrom_a0_probe_device_def
    by (intro probing_start [OF _ assms] probing_and_then probing_bind probing_if probing_revision a0_read_version_ok
      asks_quietly [OF quietly_reboot] asks_quietly [OF quietly_a0_wait_ready] asks_quietly [OF quietly_a0_pre_read]
      asks_quietly [OF quietly_read]) simp_all
qed

end
