(* ===== verification/Rom_Props.thy ===== *)
theory Rom_Props
  imports Rom_Probe
begin

text \<open>
  The properties of libqmrom: firmware files, what reaches the chip when they are flashed, probing, and
  that no answer of a chip makes the library fault.
\<close>

section \<open>Probing and sessions\<close>

lemma probed_fail: "probed c s rc s1 \<Longrightarrow> rc \<noteq> 0 \<Longrightarrow> asked s s1 \<and> rom_ops s1 = rom_ops s"
  by (simp add: probed_def)

lemma probed_trans:
  "asked s s1 \<Longrightarrow> rom_ops s1 = rom_ops s \<Longrightarrow> probed c s1 rc s' \<Longrightarrow> probed c s rc s'"
  by (auto simp: probed_def rom_ops_def intro: asked_trans)

definition probe_outcome :: "'w rom \<Rightarrow> int \<Rightarrow> 'w rom \<Rightarrow> bool" where
  "probe_outcome s rc s' \<longleftrightarrow> (\<exists>c. rc = 0 \<and> probed c s rc s') \<or> rc = - 1 \<and> asked s s' \<and> rom_ops s' = rom_ops s"

lemma probe_device_ok:
  assumes ok: "rom_ok s"
  shows "wp (qmrom_probe_device d s) (probe_outcome s)"
proof -
  have a0: "wp (do { (rc, s) \<leftarrow> qmrom_a0_probe_device d s2; if rc = 0 then Some (rc, s) else Some (- 1, s) }) (probe_outcome s)"
    if s2: "asked s s2" "rom_ops s2 = rom_ops s" for s2
    unfolding wp_bind
  proof (rule wp_mono [OF a0_probe_ok])
    show "rom_ok s2" using s2(1) by (simp add: asked_def)
    fix rc s3 assume "probed A0 s2 rc s3"
    from probed_trans [OF s2 this] show "wp (if rc = 0 then Some (rc, s3) else Some (- 1, s3)) (probe_outcome s)"
      by (auto simp: probe_outcome_def dest: probed_fail)
  qed
  have c0: "wp (do { (rc, s) \<leftarrow> qmrom_c0_probe_device d s1; if rc = 0 then Some (rc, s)
     else do { (rc, s) \<leftarrow> qmrom_a0_probe_device d s; if rc = 0 then Some (rc, s) else Some (- 1, s) } }) (probe_outcome s)"
    if s1: "asked s s1" "rom_ops s1 = rom_ops s" for s1
    unfolding wp_bind [of "qmrom_c0_probe_device d s1"]
  proof (rule wp_mono [OF c0_probe_ok])
    show "rom_ok s1" using s1(1) by (simp add: asked_def)
    fix rc s2 assume "probed C0 s1 rc s2"
    from probed_trans [OF s1 this] show "wp (if rc = 0 then Some (rc, s2)
       else do { (rc, s) \<leftarrow> qmrom_a0_probe_device d s2; if rc = 0 then Some (rc, s) else Some (- 1, s) }) (probe_outcome s)"
      using a0 [of s2] probed_fail [of C0 s rc s2] by (auto simp: probe_outcome_def)
  qed
  show ?thesis unfolding qmrom_probe_device_def wp_bind [of "qmrom_b0_probe_device d s"]
  proof (rule wp_mono [OF b0_probe_ok [OF ok]])
    fix rc s1 assume p: "probed B0 s rc s1"
    then show "wp (if rc = 0 then Some (rc, s1)
      else do { (rc, s) \<leftarrow> qmrom_c0_probe_device d s1; if rc = 0 then Some (rc, s)
       else do { (rc, s) \<leftarrow> qmrom_a0_probe_device d s; if rc = 0 then Some (rc, s) else Some (- 1, s) } }) (probe_outcome s)"
      using c0 [of s1] probed_fail [OF p] by (auto simp: probe_outcome_def)
  qed
qed

lemma new_handle_ok: "rom_ok (qmrom_new_handle retries hz w)" "rom_writes (qmrom_new_handle retries hz w) = []"
  "rom_flash_unstitched_fw (qmrom_new_handle retries hz w) = None" "rom_ops (qmrom_new_handle retries hz w) = (None, None, None, None)"
  by (simp_all add: qmrom_new_handle_def rom_ok_def rom_writes_def rom_ops_def MAX_STC_FRAME_LEN_def)

text \<open>Every handle \<open>qmrom_init\<close> returns.\<close>

definition handle_of :: "chip \<Rightarrow> 'w rom \<Rightarrow> bool" where
  "handle_of c h \<longleftrightarrow> rom_ok h \<and> rom_chip_rev h = chip_rev_code c \<and> rom_ops h = ops_of c None"

lemma init_ok:
  "\<exists>r w'. qmrom_init d retries hz w = Some (r, w') \<and>
     (\<forall>h. r = Some h \<longrightarrow> (\<exists>c. handle_of c h) \<and> set (rom_writes h) \<subseteq> queries)"
proof (cases "fst (allocs d 3 w)")
  case True
  obtain rc s where p: "qmrom_probe_device d (qmrom_new_handle retries hz (snd (allocs d 3 w))) = Some (rc, s)"
    and o: "probe_outcome (qmrom_new_handle retries hz (snd (allocs d 3 w))) rc s"
    using probe_device_ok [OF new_handle_ok(1) [of retries hz "snd (allocs d 3 w)"], of d]
    unfolding wp_ex by (elim exE conjE) (rule that)
  have "(\<exists>c. handle_of c s) \<and> set (rom_writes s) \<subseteq> queries" if "rc = 0"
    using o that by (auto simp: probe_outcome_def probed_def handle_of_def asked_def new_handle_ok)
  then show ?thesis using True p by (simp add: qmrom_init_def split_beta)
next
  case False
  then show ?thesis by (simp add: qmrom_init_def split_beta)
qed

text \<open>What a client of the library may call, and when the call is not a use of a bad file or a null pointer.\<close>

datatype rom_call =
    Flash_fw "byte list"
  | Flash_unstitched_fw unstitched_firmware
  | Flash_dbg_cert "byte list"
  | Erase_dbg_cert

fun run_rom_call :: "'w dev \<Rightarrow> rom_call \<Rightarrow> 'w rom \<Rightarrow> ('w, int) rom_result" where
  "run_rom_call d (Flash_fw fw) = qmrom_flash_fw d fw"
| "run_rom_call d (Flash_unstitched_fw f) = qmrom_flash_unstitched_fw d f"
| "run_rom_call d (Flash_dbg_cert cert) = qmrom_flash_dbg_cert d cert"
| "run_rom_call d Erase_dbg_cert = qmrom_erase_dbg_cert d"

fun run_rom_calls :: "'w dev \<Rightarrow> rom_call list \<Rightarrow> 'w rom \<Rightarrow> ('w, int list) rom_result" where
  "run_rom_calls d [] s = Some ([], s)"
| "run_rom_calls d (c # cs) s = do {
     (rc, s) \<leftarrow> run_rom_call d c s;
     (rcs, s) \<leftarrow> run_rom_calls d cs s;
     Some (rc # rcs, s) }"

definition good_firmware :: "unstitched_firmware \<Rightarrow> bool" where
  "good_firmware f \<longleftrightarrow> HBK_LOC < length (key1_crt f) \<and> length (stitch f) < 4294967296"

fun allowed :: "chip \<Rightarrow> rom_call \<Rightarrow> bool" where
  "allowed c (Flash_fw fw) \<longleftrightarrow> c = A0 \<or> (\<exists>f. fw = stitch f \<and> good_firmware f)"
| "allowed c (Flash_unstitched_fw f) \<longleftrightarrow> c = B0 \<and> HBK_LOC < length (key1_crt f)"
| "allowed c (Flash_dbg_cert cert) \<longleftrightarrow> True"
| "allowed c Erase_dbg_cert \<longleftrightarrow> True"

lemma handle_sends: "handle_of c s \<Longrightarrow> sends s ps s' \<Longrightarrow> handle_of c s'"
  by (auto simp: handle_of_def sends_def rom_cfg_def rom_ops_def)

lemma wp_harmless: "harmless f \<Longrightarrow> handle_of c s \<Longrightarrow> wp (f s) (\<lambda>_ s'. handle_of c s')"
  by (rule wp_mono [OF harmlessD], assumption, simp add: handle_of_def) (blast intro: handle_sends)

lemma flash_fw_call_ok:
  assumes h: "handle_of c s" and a: "allowed c (Flash_fw fw)"
  shows "wp (qmrom_flash_fw d fw s) (\<lambda>_ s'. handle_of c s')"
proof -
  have ok: "rom_ok s" and rev: "rom_chip_rev s = chip_rev_code c" and ops: "rom_ops s = ops_of c None"
    using h by (simp_all add: handle_of_def)
  have b: "c \<noteq> A0 \<Longrightarrow> rom_chip_rev s \<noteq> chip_rev_code A0" using rev by (cases c) (simp_all add: chip_rev_code_def)
  show ?thesis
  proof (cases c)
    case A0
    then show ?thesis
      using ops wp_harmless [OF harmless_carries [OF a0_flash_fw_ok] h] by (simp add: qmrom_flash_fw_def rom_ops_def)
  next
    case B0
    then obtain f where f: "fw = stitch f" "good_firmware f" using a by auto
    have "wp (qmrom_b0_flash_fw d fw s) (\<lambda>_ s'. handle_of c s')"
      unfolding f(1) by (rule wp_mono [OF b0_flash_fw_ok [OF ok]])
        (use f b B0 handle_sends [OF h] in \<open>auto simp: good_firmware_def delivers_def\<close>)
    then show ?thesis using ops B0 by (simp add: qmrom_flash_fw_def rom_ops_def)
  next
    case C0
    then obtain f where f: "fw = stitch f" "good_firmware f" using a by auto
    have "wp (qmrom_c0_flash_fw d fw s) (\<lambda>_ s'. handle_of c s')"
      unfolding f(1) by (rule wp_mono [OF c0_flash_fw_ok [OF ok]])
        (use f b C0 handle_sends [OF h] in \<open>auto simp: good_firmware_def c0_outcome_def\<close>)
    then show ?thesis using ops C0 by (simp add: qmrom_flash_fw_def rom_ops_def)
  qed
qed

lemma rom_call_ok:
  assumes h: "handle_of c s" and a: "allowed c call"
  shows "wp (run_rom_call d call s) (\<lambda>_ s'. handle_of c s')"
proof -
  have ok: "rom_ok s" and ops: "rom_ops s = ops_of c None" using h by (simp_all add: handle_of_def)
  have ret: "wp (Some (x, s)) (\<lambda>_ s'. handle_of c s')" for x :: int using h by simp
  show ?thesis
  proof (cases call)
    case (Flash_fw fw)
    then show ?thesis using flash_fw_call_ok [OF h] a by simp
  next
    case (Flash_unstitched_fw f)
    then have c: "c = B0" and k: "HBK_LOC < length (key1_crt f)" using a by simp_all
    have "wp (qmrom_b0_flash_unstitched_fw d f s) (\<lambda>_ s'. handle_of c s')"
      by (rule wp_mono [OF b0_flash_unstitched_ok [OF ok k]]) (use handle_sends [OF h] in \<open>auto simp: delivers_def\<close>)
    then show ?thesis using Flash_unstitched_fw ops c by (simp add: qmrom_flash_unstitched_fw_def rom_ops_def)
  next
    case (Flash_dbg_cert cert)
    then show ?thesis
      using ops ret wp_harmless [OF harmless_c0_debug_cert h] wp_harmless [OF harmless_b0_debug_cert h]
      by (cases c) (simp_all add: qmrom_flash_dbg_cert_def rom_ops_def)
  next
    case Erase_dbg_cert
    then show ?thesis
      using ops ret wp_harmless [OF harmless_carries [OF carries_c0_erase] h] wp_harmless [OF harmless_b0_erase h]
      by (cases c) (simp_all add: qmrom_erase_dbg_cert_def rom_ops_def)
  qed
qed

lemma rom_calls_ok: "handle_of c s \<Longrightarrow> list_all (allowed c) calls \<Longrightarrow> wp (run_rom_calls d calls s) (\<lambda>_ s'. handle_of c s')"
proof (induction calls arbitrary: s)
  case (Cons x calls)
  then show ?case by (auto intro!: wp_mono [OF rom_call_ok] simp del: run_rom_call.simps)
qed simp

lemma run_rom_calls_length: "run_rom_calls d calls h = Some (rcs, h') \<Longrightarrow> length rcs = length calls"
  by (induction calls arbitrary: h rcs) (auto split: Option.bind_splits)

section \<open>Properties\<close>

text \<open>A device that answers every transfer with the frame it was sent, for the examples.\<close>

definition echo_dev :: "unit dev" where
  "echo_dev = \<lparr>dev_xfer = \<lambda>_ tx w. (0, tx, w), dev_ready = \<lambda>w. (True, w), dev_cs = \<lambda>_ _ w. (0, w),
     dev_reset = \<lambda>w. (0, w), dev_alloc = \<lambda>w. (True, w)\<rparr>"

definition sample_fw :: unstitched_firmware where
  "sample_fw = \<lparr>fw_img = [1, 2, 3], fw_crt = [4], key1_crt = replicate 13 1, key2_crt = []\<rparr>"

definition sample_handle :: "chip \<Rightarrow> unit rom" where
  "sample_handle c = (qmrom_new_handle 10 1000000 ())\<lparr>rom_chip_rev := chip_rev_code c, rom_lcs_state := CC_BSV_SECURE_LCS,
     rom_flash_fw := Some c, rom_erase_debug_cert := Some c\<rparr>"

lemma sample_handle_ok [simp]: "rom_ok (sample_handle c)" "rom_chip_rev (sample_handle c) = chip_rev_code c"
  "rom_erase_debug_cert (sample_handle c) = Some c"
  by (simp_all add: sample_handle_def qmrom_new_handle_def rom_ok_def MAX_STC_FRAME_LEN_def)

lemma good_sample_fw [simp]: "good_firmware sample_fw"
  by (simp add: good_firmware_def sample_fw_def stitch_def HBK_LOC_def)

lemma chip_rev_code_eq [simp]: "chip_rev_code a = chip_rev_code b \<longleftrightarrow> a = b"
  by (cases a; cases b) (simp_all add: chip_rev_code_def)

text \<open>
  Claim C8. For a chip that is not an A0 and a file shorter than 4 GiB, \<open>qmrom_unstitch_fw\<close> succeeds
  with the parts \<open>f\<close> exactly when the file is the stitched form of \<open>f\<close>, each part after its 32-bit
  size and nothing after the last one, and the four allocations succeed.
\<close>

theorem rom_unstitch_iff:
  assumes "revision \<noteq> chip_rev_code A0" "length data < 4294967296"
  shows "(\<exists>w'. qmrom_unstitch_fw d data revision w = Some (0, Some f, w')) \<longleftrightarrow> data = stitch f \<and> fst (allocs d 4 w)"
  using assms by (rule unstitch_iff)

theorem rom_unstitch_iff_witness:
  "(\<exists>w'. qmrom_unstitch_fw echo_dev (stitch sample_fw) (chip_rev_code B0) () = Some (0, Some sample_fw, w')) \<longleftrightarrow>
     stitch sample_fw = stitch sample_fw \<and> fst (allocs echo_dev 4 ())"
  by (rule rom_unstitch_iff) (simp_all add: stitch_def sample_fw_def)

lemma delivers_chunks_concat:
  assumes "wp r (delivers s (map frame (chunks n data)))" "0 < n"
  shows "\<exists>rc s' cs. r = Some (rc, s') \<and> rom_writes s' = rom_writes s @ map frame cs \<and> prefix (concat cs) data \<and>
    (rc = 0 \<longrightarrow> concat cs = data) \<and> (\<forall>c \<in> set cs. 0 < length c \<and> length c \<le> n)"
proof -
  obtain rc s' ps where r: "r = Some (rc, s')" and ps: "sends s ps s'" "prefix ps (map frame (chunks n data))"
    "rc = 0 \<longrightarrow> ps = map frame (chunks n data)"
    using assms(1) unfolding wp_ex delivers_def by blast
  let ?cs = "take (length ps) (chunks n data)"
  have m: "ps = map frame ?cs" using ps(2) by (auto simp: prefix_def take_map [symmetric])
  have "prefix (concat ?cs) (concat (chunks n data))"
    using concat_append [of ?cs "drop (length ps) (chunks n data)"] unfolding append_take_drop_id by (rule prefixI)
  then have c: "prefix (concat ?cs) data" unfolding concat_chunks [OF assms(2)] .
  have e: "rc = 0 \<longrightarrow> concat ?cs = data" using ps(3) concat_chunks [OF assms(2), of data] by auto
  have l: "\<forall>c \<in> set ?cs. 0 < length c \<and> length c \<le> n" by (blast dest: in_set_takeD chunks_length)
  have "rom_writes s' = rom_writes s @ map frame ?cs" using ps(1) m by (simp add: sends_def)
  then show ?thesis using r c e l by blast
qed

text \<open>
  Whatever the chip answers, \<open>flash_data\<close> of each revision writes the file in order, in
  chunks that are not empty and fit the revision's limit, each with the command of the revision in
  front; what has been written is always a prefix of the file, and all of it when the result is 0.
\<close>

lemma rom_flash_data:
  assumes "rom_ok s"
  shows "(\<exists>rc s' cs. qmrom_c0_flash_data d fw c0cmd c0resp skip s = Some (rc, s') \<and>
        rom_writes s' = rom_writes s @ map (\<lambda>c. le32_bytes (c0_cmd_code c0cmd) @ c) cs \<and> prefix (concat cs) fw \<and>
        (rc = 0 \<longrightarrow> concat cs = fw) \<and> (\<forall>c \<in> set cs. 0 < length c \<and> length c \<le> CHUNK_SIZE_C0)) \<and>
     (\<exists>rc s' cs. qmrom_b0_flash_data d fw b0cmd b0resp s = Some (rc, s') \<and>
        rom_writes s' = rom_writes s @ map (\<lambda>c. of_nat (b0_cmd_code b0cmd) # c) cs \<and> prefix (concat cs) fw \<and>
        (rc = 0 \<longrightarrow> concat cs = fw) \<and> (\<forall>c \<in> set cs. 0 < length c \<and> length c \<le> CHUNK_SIZE_B0)) \<and>
     (\<exists>rc s' cs. qmrom_a0_write_chunks d fw s = Some (rc, s') \<and>
        rom_writes s' = rom_writes s @ cs \<and> prefix (concat cs) fw \<and>
        (rc = 0 \<longrightarrow> concat cs = fw) \<and> (\<forall>c \<in> set cs. 0 < length c \<and> length c \<le> CHUNK_SIZE_A0))"
  using delivers_chunks_concat [OF carriesD [OF c0_flash_data_ok [unfolded c0_data_frames_def] assms, of d fw c0cmd c0resp skip]]
    delivers_chunks_concat [OF carriesD [OF b0_flash_data_ok [unfolded b0_data_frames_def] assms, of d fw b0cmd b0resp]]
    delivers_chunks_concat [of "qmrom_a0_write_chunks d fw s" s "\<lambda>c. c" CHUNK_SIZE_A0 fw] carriesD [OF a0_write_chunks_ok assms, of d fw]
  by (simp add: CHUNK_SIZE_C0_def CHUNK_SIZE_B0_def CHUNK_SIZE_A0_def)

text \<open>A firmware for the other life-cycle state is refused before anything is written.\<close>

lemma unstitch_result:
  assumes rev: "rom_chip_rev s \<noteq> chip_rev_code A0" and f: "good_firmware f"
  shows "\<exists>w'. qmrom_unstitch_fw d (stitch f) (rom_chip_rev s) (rom_world s) = Some (0, Some f, w') \<or>
    qmrom_unstitch_fw d (stitch f) (rom_chip_rev s) (rom_world s) = Some (- ENOMEM, None, w')"
  using unstitch_stitch [OF rev, of f d "rom_world s"] f by (auto simp: good_firmware_def split: if_splits)

lemma b0_flash_mismatch:
  assumes "rom_chip_rev s \<noteq> chip_rev_code A0" "good_firmware f" "check_platform (key1_crt f) (rom_lcs_state s) = Some False"
  shows "\<exists>rc s'. qmrom_b0_flash_fw d (stitch f) s = Some (rc, s') \<and> rc \<noteq> 0 \<and> rom_writes s' = rom_writes s"
  using unstitch_result [OF assms(1,2), of d] assms(3)
  by (auto simp: qmrom_b0_flash_fw_def qmrom_b0_flash_unstitched_fw_def rom_writes_def)

lemma c0_flash_mismatch:
  assumes "rom_chip_rev s \<noteq> chip_rev_code A0" "good_firmware f" "check_platform (key1_crt f) (rom_lcs_state s) = Some False"
  shows "\<exists>rc s'. qmrom_c0_flash_fw d (stitch f) s = Some (rc, s') \<and> rc \<noteq> 0 \<and> rom_writes s' = rom_writes s"
  using unstitch_result [OF assms(1,2), of d] assms(3)
  by (auto simp: qmrom_c0_flash_fw_def c0_flash_parts_def rom_writes_def)

text \<open>
  Claim C26. Flashing a B0 with a stitched firmware never faults and writes a prefix of one sequence of
  frames: the load command for the life-cycle state, the two key certificates, the content certificate
  and the image in chunks.  It returns 0 only when the whole sequence has been written, and a firmware
  for the other life-cycle state is refused with nothing written.
\<close>

theorem rom_flash_b0:
  assumes "rom_ok s" "rom_chip_rev s = chip_rev_code B0" "good_firmware f"
  shows "\<exists>rc s' ps. qmrom_b0_flash_fw d (stitch f) s = Some (rc, s') \<and> rom_writes s' = rom_writes s @ ps \<and>
    prefix ps (b0_flash_frames (rom_lcs_state s) f) \<and> (rc = 0 \<longrightarrow> ps = b0_flash_frames (rom_lcs_state s) f) \<and>
    (check_platform (key1_crt f) (rom_lcs_state s) = Some False \<longrightarrow> rc \<noteq> 0 \<and> ps = [])"
proof -
  have rev: "rom_chip_rev s \<noteq> chip_rev_code A0" using assms(2) by simp
  have "wp (qmrom_b0_flash_fw d (stitch f) s) (delivers s (b0_flash_frames (rom_lcs_state s) f))"
    by (rule b0_flash_fw_ok [OF assms(1) _ rev]) (use assms(3) in \<open>simp_all add: good_firmware_def\<close>)
  then show ?thesis
    using b0_flash_mismatch [OF rev assms(3), of d] unfolding wp_ex delivers_def sends_def by fastforce
qed

theorem rom_flash_b0_witness:
  "\<exists>rc s' ps. qmrom_b0_flash_fw echo_dev (stitch sample_fw) (sample_handle B0) = Some (rc, s') \<and>
    rom_writes s' = rom_writes (sample_handle B0) @ ps \<and>
    prefix ps (b0_flash_frames (rom_lcs_state (sample_handle B0)) sample_fw) \<and>
    (rc = 0 \<longrightarrow> ps = b0_flash_frames (rom_lcs_state (sample_handle B0)) sample_fw) \<and>
    (check_platform (key1_crt sample_fw) (rom_lcs_state (sample_handle B0)) = Some False \<longrightarrow> rc \<noteq> 0 \<and> ps = [])"
  by (rule rom_flash_b0) simp_all

text \<open>
  Claim C11. Flashing a C0 never faults and writes a prefix of its sequence of frames (the write mode,
  the load command, the certificates and the image in chunks).  When it returns 0 either all of it was
  written, or only the first two frames: an unexpected answer to the load command ends the function
  with the result of the command before.
\<close>

theorem rom_flash_c0:
  assumes "rom_ok s" "rom_chip_rev s = chip_rev_code C0" "good_firmware f"
  shows "\<exists>rc s' ps. qmrom_c0_flash_fw d (stitch f) s = Some (rc, s') \<and> rom_writes s' = rom_writes s @ ps \<and>
    prefix ps (c0_flash_frames (rom_lcs_state s) f) \<and>
    (rc = 0 \<longrightarrow> ps = c0_flash_frames (rom_lcs_state s) f \<or> ps = take 2 (c0_flash_frames (rom_lcs_state s) f)) \<and>
    (check_platform (key1_crt f) (rom_lcs_state s) = Some False \<longrightarrow> rc \<noteq> 0 \<and> ps = [])"
proof -
  have rev: "rom_chip_rev s \<noteq> chip_rev_code A0" using assms(2) by simp
  have "wp (qmrom_c0_flash_fw d (stitch f) s) (c0_outcome (rom_lcs_state s) f s)"
    by (rule c0_flash_fw_ok [OF assms(1) _ rev]) (use assms(3) in \<open>simp_all add: good_firmware_def\<close>)
  then show ?thesis
    using c0_flash_mismatch [OF rev assms(3), of d] unfolding wp_ex c0_outcome_def sends_def by fastforce
qed

theorem rom_flash_c0_witness:
  "\<exists>rc s' ps. qmrom_c0_flash_fw echo_dev (stitch sample_fw) (sample_handle C0) = Some (rc, s') \<and>
    rom_writes s' = rom_writes (sample_handle C0) @ ps \<and>
    prefix ps (c0_flash_frames (rom_lcs_state (sample_handle C0)) sample_fw) \<and>
    (rc = 0 \<longrightarrow> ps = c0_flash_frames (rom_lcs_state (sample_handle C0)) sample_fw \<or>
       ps = take 2 (c0_flash_frames (rom_lcs_state (sample_handle C0)) sample_fw)) \<and>
    (check_platform (key1_crt sample_fw) (rom_lcs_state (sample_handle C0)) = Some False \<longrightarrow> rc \<noteq> 0 \<and> ps = [])"
  by (rule rom_flash_c0) simp_all



text \<open>
  Claim C35. \<open>qmrom_init\<close> never faults, whatever the chip answers.  It returns the null pointer, or a
  handle whose revision and operations are those of one chip, and it has written nothing to the chip
  but queries for its version and its SoC information.
\<close>

theorem rom_init_probes:
  "\<exists>r w'. qmrom_init d retries hz w = Some (r, w') \<and>
     (case r of None \<Rightarrow> True | Some h \<Rightarrow> set (rom_writes h) \<subseteq> queries \<and> (\<exists>c. handle_of c h))"
  using init_ok [of d retries hz w] by (elim exE conjE) (auto split: option.splits)



text \<open>
  Claim C36. Erasing the debug certificate: on a C0 a result of 0 means that exactly the erase command
  was written.  On a B0 the first test is inverted: when the chip is ready the result is 0 and nothing
  at all is written.
\<close>

theorem rom_erase_debug_cert_results:
  assumes "rom_ok s"
  shows "(rom_erase_debug_cert s = Some C0 \<longrightarrow> (\<exists>rc s'. qmrom_erase_dbg_cert d s = Some (rc, s') \<and>
      (rc = 0 \<longrightarrow> rom_writes s' = rom_writes s @ [le32_bytes (c0_cmd_code ROM_CMD_C0_ERASE_DBG_CERT)]))) \<and>
    (rom_erase_debug_cert s = Some B0 \<longrightarrow> (\<exists>rc s1. qmrom_b0_wait_ready d s = Some (rc, s1) \<and>
      (rc = 0 \<longrightarrow> qmrom_erase_dbg_cert d s = Some (0, s1) \<and> rom_writes s1 = rom_writes s) \<and>
      (rc \<noteq> 0 \<longrightarrow> (\<exists>rc' s'. qmrom_erase_dbg_cert d s = Some (rc', s') \<and>
        rom_writes s' = rom_writes s @ [[of_nat (b0_cmd_code ROM_CMD_B0_ERASE_DBG_CERT)]]))))"
proof -
  have c0: "\<exists>rc s'. qmrom_c0_erase_debug_cert d s = Some (rc, s') \<and>
      (rc = 0 \<longrightarrow> rom_writes s' = rom_writes s @ [le32_bytes (c0_cmd_code ROM_CMD_C0_ERASE_DBG_CERT)])"
    using carriesD [OF carries_c0_erase assms, of d] unfolding wp_ex delivers_def sends_def by blast
  obtain rc s1 where w: "qmrom_b0_wait_ready d s = Some (rc, s1)" "quiet s s1"
    using quietlyD [OF quietly_b0_wait_ready assms, of d] unfolding wp_ex by blast
  obtain rc' s2 where "b0_write_cmd d ROM_CMD_B0_ERASE_DBG_CERT s1 = Some (rc', s2)"
    "sends s1 [[of_nat (b0_cmd_code ROM_CMD_B0_ERASE_DBG_CERT)]] s2"
    using b0_write_cmd_ok [OF sends_ok [OF w(2)], of d ROM_CMD_B0_ERASE_DBG_CERT] unfolding wp_ex by blast
  then show ?thesis using w c0
    by (auto simp: qmrom_erase_dbg_cert_def qmrom_b0_erase_debug_cert_def sends_def)
qed

theorem rom_erase_debug_cert_results_witness:
  "(\<exists>rc s'. qmrom_erase_dbg_cert echo_dev (sample_handle C0) = Some (rc, s') \<and>
      (rc = 0 \<longrightarrow> rom_writes s' = rom_writes (sample_handle C0) @ [le32_bytes (c0_cmd_code ROM_CMD_C0_ERASE_DBG_CERT)])) \<and>
   (\<exists>rc s1. qmrom_b0_wait_ready echo_dev (sample_handle B0) = Some (rc, s1) \<and>
      (rc = 0 \<longrightarrow> qmrom_erase_dbg_cert echo_dev (sample_handle B0) = Some (0, s1) \<and> rom_writes s1 = rom_writes (sample_handle B0)))"
  using rom_erase_debug_cert_results [of "sample_handle C0" echo_dev] rom_erase_debug_cert_results [of "sample_handle B0" echo_dev]
  by (simp; blast)

end
