(* ===== verification/Driver_Load.thy ===== *)
theory Driver_Load
  imports Driver Rom_Props
begin

text \<open>
  Loading a firmware through the driver: with well-formed firmware files it never faults, puts the
  state of the chip back, and returns 0 only after a whole file has been sent (to a C0: or only the
  first two frames of it).  It composes the properties of libqmrom with the driver's lookup and retry.
\<close>

definition good_files :: "'w platform \<Rightarrow> bool" where
  "good_files pl \<longleftrightarrow> (\<forall>name fw. pl_request_firmware pl name = Some fw \<longrightarrow> (\<exists>f. fw = stitch f \<and> good_firmware f))"

definition ends_with :: "'a list \<Rightarrow> 'a list \<Rightarrow> bool" where
  "ends_with xs ys \<longleftrightarrow> (\<exists>pre. xs = pre @ ys)"

lemma ends_with_append [simp]: "ends_with (xs @ ys) ys"
  by (auto simp: ends_with_def)

text \<open>The frames of the file are the last ones that were written.\<close>

fun flashed :: "chip \<Rightarrow> byte list \<Rightarrow> 'w rom \<Rightarrow> bool" where
  "flashed A0 fw h \<longleftrightarrow> ends_with (rom_writes h) (a0_flash_frames fw)"
| "flashed B0 fw h \<longleftrightarrow> (\<exists>f. fw = stitch f \<and> ends_with (rom_writes h) (b0_flash_frames (rom_lcs_state h) f))"
| "flashed C0 fw h \<longleftrightarrow> (\<exists>f. fw = stitch f \<and> (ends_with (rom_writes h) (c0_flash_frames (rom_lcs_state h) f) \<or>
     ends_with (rom_writes h) (take 2 (c0_flash_frames (rom_lcs_state h) f))))"

definition flash_outcome :: "chip \<Rightarrow> byte list \<Rightarrow> 'w rom \<Rightarrow> int \<Rightarrow> 'w rom \<Rightarrow> bool" where
  "flash_outcome c fw h rc h' \<longleftrightarrow> handle_of c h' \<and> rom_lcs_state h' = rom_lcs_state h \<and> (rc = 0 \<longrightarrow> flashed c fw h')"

lemma flash_outcomeI:
  assumes h: "handle_of c h" and s: "sends h ps h'" and r: "rc = 0 \<Longrightarrow> flashed c fw h'"
  shows "flash_outcome c fw h rc h'"
  using r handle_sends [OF h s] sends_cfg [OF s] by (simp add: flash_outcome_def)

lemma delivers_outcome:
  assumes h: "handle_of c h" and d: "delivers h full rc h'" and f: "sends h full h' \<Longrightarrow> flashed c fw h'"
  shows "flash_outcome c fw h rc h'"
  using d f unfolding delivers_def by (blast intro: flash_outcomeI [OF h])

lemma sends_frames: "sends h ps h' \<Longrightarrow> ends_with (rom_writes h') ps \<and> rom_lcs_state h' = rom_lcs_state h"
  by (simp add: sends_def rom_cfg_def)

lemma b0_flashed: "sends h (b0_flash_frames (rom_lcs_state h) f) h' \<Longrightarrow> flashed B0 (stitch f) h'"
  using sends_frames [of h "b0_flash_frames (rom_lcs_state h) f" h'] by (auto intro!: exI [of _ f])

lemma c0_delivers_outcome:
  assumes h: "handle_of C0 h" and d: "c0_outcome (rom_lcs_state h) f h rc h'"
  shows "flash_outcome C0 (stitch f) h rc h'"
proof -
  obtain ps where ps: "sends h ps h'" "rc = 0 \<longrightarrow> ps = c0_flash_frames (rom_lcs_state h) f \<or>
      ps = take 2 (c0_flash_frames (rom_lcs_state h) f)"
    using d unfolding c0_outcome_def by blast
  then have "flashed C0 (stitch f) h'" if "rc = 0" using that sends_frames [OF ps(1)] by auto
  then show ?thesis by (rule flash_outcomeI [OF h ps(1)])
qed

lemma flash_fw_outcome:
  assumes h: "handle_of c h" and f: "good_firmware f"
  shows "wp (qmrom_flash_fw d (stitch f) h) (flash_outcome c (stitch f) h)"
proof -
  have ok: "rom_ok h" and ops: "rom_ops h = ops_of c None" and rev: "rom_chip_rev h = chip_rev_code c"
    using h by (simp_all add: handle_of_def)
  have k: "HBK_LOC < length (key1_crt f)" and len: "length (stitch f) < 4294967296"
    using f by (simp_all add: good_firmware_def)
  show ?thesis
  proof (cases c)
    case A0
    have "wp (qmrom_a0_flash_fw d (stitch f) h) (flash_outcome c (stitch f) h)"
      unfolding A0 by (rule wp_mono [OF carriesD [OF a0_flash_fw_ok ok] delivers_outcome [OF h [unfolded A0]]])
        (auto dest: sends_frames)
    then show ?thesis using ops A0 by (simp add: qmrom_flash_fw_def rom_ops_def)
  next
    case B0
    have "wp (qmrom_b0_flash_fw d (stitch f) h) (flash_outcome c (stitch f) h)"
      unfolding B0 by (rule wp_mono [OF b0_flash_fw_ok [OF ok k _ len] delivers_outcome [OF h [unfolded B0]]])
        (use rev B0 b0_flashed in simp_all)
    then show ?thesis using ops B0 by (simp add: qmrom_flash_fw_def rom_ops_def)
  next
    case C0
    have "wp (qmrom_c0_flash_fw d (stitch f) h) (flash_outcome c (stitch f) h)"
      unfolding C0 by (rule wp_mono [OF c0_flash_fw_ok [OF ok k _ len] c0_delivers_outcome [OF h [unfolded C0]]])
        (use rev C0 in simp_all)
    then show ?thesis using ops C0 by (simp add: qmrom_flash_fw_def rom_ops_def)
  qed
qed

section \<open>The driver\<close>

definition sent_file :: "'w platform \<Rightarrow> chip \<Rightarrow> 'v rom \<Rightarrow> bool" where
  "sent_file pl c h \<longleftrightarrow> (\<exists>use_prod fw. pl_request_firmware pl
     (fw_name (pl_fwname pl) (chip_rev_code c) (rom_lcs_state h) use_prod) = Some fw \<and> flashed c fw h)"

definition load_outcome :: "'w platform \<Rightarrow> chip \<Rightarrow> int \<Rightarrow> 'v rom \<Rightarrow> bool" where
  "load_outcome pl c rc h \<longleftrightarrow> handle_of c h \<and> (rc = 0 \<longrightarrow> sent_file pl c h)"

lemma firmware_flashing_ok:
  assumes g: "good_files pl" and h: "handle_of c h"
  shows "wp (qm_firmware_flashing pl h use_prod) (load_outcome pl c)"
proof (cases "qmrom_spi_get_firmware pl h use_prod")
  case None
  then show ?thesis using h by (simp add: qm_firmware_flashing_def load_outcome_def)
next
  case (Some fw)
  then obtain f where f: "fw = stitch f" "good_firmware f"
    using g unfolding good_files_def qmrom_spi_get_firmware_def by blast
  have rev: "rom_chip_rev h = chip_rev_code c" using h by (simp add: handle_of_def)
  have "wp (qmrom_flash_fw (chip_dev (pl_dev pl)) fw h) (load_outcome pl c)"
    unfolding f(1)
  proof (rule wp_mono [OF flash_fw_outcome [OF h f(2)]])
    fix rc h' assume o: "flash_outcome c (stitch f) h rc h'"
    then show "load_outcome pl c rc h'"
      using Some f(1) rev unfolding flash_outcome_def load_outcome_def sent_file_def qmrom_spi_get_firmware_def by metis
  qed
  then show ?thesis using Some by (simp add: qm_firmware_flashing_def)
qed

lemma flash_twice_ok:
  fixes h :: "'w chip_side rom"
  assumes g: "good_files pl" and h: "handle_of c h"
  shows "wp (flash_twice pl h) (load_outcome pl c)"
  unfolding flash_twice_def wp_bind [of "qm_firmware_flashing pl h True"]
proof (rule wp_mono [OF firmware_flashing_ok [OF g h]])
  fix rc and h1 :: "'w chip_side rom" assume o: "load_outcome pl c rc h1"
  then have h1: "handle_of c h1" "rom_ok h1" by (simp_all add: load_outcome_def handle_of_def)
  have "wp (do { (_, h) \<leftarrow> qmrom_reboot_bootloader (chip_dev (pl_dev pl)) h1; qm_firmware_flashing pl h False })
      (load_outcome pl c)"
    unfolding wp_bind
    by (rule wp_mono [OF reboot_ok [OF h1(2)]]) (rule firmware_flashing_ok [OF g handle_sends [OF h1(1)]])
  then show "wp (if rc = 0 then Some (rc, h1)
      else do { (_, h) \<leftarrow> qmrom_reboot_bootloader (chip_dev (pl_dev pl)) h1; qm_firmware_flashing pl h False })
      (load_outcome pl c)"
    using o by (cases "rc = 0") simp_all
qed

lemma put_chip_side_simps [simp]:
  "q_hsspi (put_chip_side ws s) = q_hsspi s" "q_vdd (put_chip_side ws s) = q_vdd s"
  "q_regulators_enabled (put_chip_side ws s) = q_regulators_enabled s"
  "q_rdy_irq (put_chip_side ws s) = q_rdy_irq s" "q_handles (put_chip_side ws s) = q_handles s"
  by (simp_all add: put_chip_side_def split_beta)

lemma record_soc_info_simps [simp]:
  "q_hsspi (record_soc_info h s) = q_hsspi s" "q_vdd (record_soc_info h s) = q_vdd s"
  "q_regulators_enabled (record_soc_info h s) = q_regulators_enabled s"
  "q_rdy_irq (record_soc_info h s) = q_rdy_irq s" "q_handles (record_soc_info h s) = q_handles s"
  by (simp_all add: record_soc_info_def)

definition same_driver :: "('l, 'b, 'w) qm35 \<Rightarrow> ('l, 'b, 'w) qm35 \<Rightarrow> bool" where
  "same_driver s s' \<longleftrightarrow> q_hsspi s' = q_hsspi s \<and> q_vdd s' = q_vdd s \<and> q_regulators_enabled s' = q_regulators_enabled s \<and>
     q_rdy_irq s' = q_rdy_irq s \<and> q_state s' = q_state s"

lemma firmware_load_ok:
  assumes g: "good_files pl"
  shows "\<exists>ret s'. qm_firmware_load pl s = Some (ret, s') \<and> same_driver s s' \<and>
    (ret = - 1 \<and> q_handles s' = q_handles s \<or>
     (\<exists>c h. q_handles s' = q_handles s @ [h] \<and> load_outcome pl c ret h))"
proof -
  let ?s = "qm35_set_state QM35_CTRL_STATE_FW_DOWNLOADING s"
  obtain r ws where i: "qmrom_init (chip_dev (pl_dev pl)) (pl_qmrom_retries pl) 0 (q_world ?s, q_state ?s, q_gpio_reset ?s) =
      Some (r, ws)" and h: "\<forall>h. r = Some h \<longrightarrow> (\<exists>c. handle_of c h) \<and> set (rom_writes h) \<subseteq> queries"
    using init_ok [of "chip_dev (pl_dev pl)" "pl_qmrom_retries pl" 0 "(q_world ?s, q_state ?s, q_gpio_reset ?s)"]
    by (elim exE conjE) (rule that)
  show ?thesis
  proof (cases r)
    case None
    then show ?thesis using i
      by (simp add: qm_firmware_load_def Let_def same_driver_def qm35_set_state_def qm35_get_state_def)
  next
    case (Some h0)
    then obtain c where c: "handle_of c h0" using h by blast
    obtain ret h where f: "flash_twice pl h0 = Some (ret, h)" and o: "load_outcome pl c ret h"
      using flash_twice_ok [OF g c] unfolding wp_ex by (elim exE conjE) (rule that)
    show ?thesis using i f o Some
      by (auto simp: qm_firmware_load_def Let_def same_driver_def qm35_set_state_def qm35_get_state_def)
  qed
qed

end
