(* ===== verification/Driver_Unwind.thy ===== *)
theory Driver_Unwind
  imports Driver_Probe Driver_Load Hsspi_Barrier
begin

text \<open>
  What \<open>qm35_probe\<close> leaves behind on every path.  The driver's interface to the HSSPI thread is a locale:
  while a caller waits, the thread changes neither the state of the core nor the layer table.  It is
  interpreted on the passes of the thread of the model.
\<close>

section \<open>The thread, as the driver sees it\<close>

locale core_thread =
  fixes await :: "('l, 'b) await"
  assumes await_state [simp]: "hs_state (await c) = hs_state c"
    and await_layers [simp]: "hs_layers (await c) = hs_layers c"

fun thread_passes :: "('l, 'b) ops_table \<Rightarrow> pass_env list \<Rightarrow> nat \<Rightarrow> ('l, 'b) await" where
  "thread_passes ops [] n c = c"
| "thread_passes ops (e # es) n c =
     (case hsspi_thread_pass ops e c n of
        Some (Th_run c n) \<Rightarrow> thread_passes ops es n c
      | _ \<Rightarrow> c)"

lemma get_work_keeps: "get_work c = (hw, c') \<Longrightarrow> hs_state c' = hs_state c \<and> hs_layers c' = hs_layers c"
  by (auto simp: get_work_def split: list.splits)

lemma thread_work_keeps:
  assumes "thread_work ops e hw c n = Some (c', n')"
  shows "hs_state c' = hs_state c \<and> hs_layers c' = hs_layers c"
proof (cases "\<exists>k. hw = Some (HSSPI_WORK_COMPLETION k)")
  case True
  then show ?thesis using assms by (auto simp: thread_work_def emit_def)
next
  case False
  then show ?thesis using grows_work [OF assms] by (auto simp: grows_def)
qed

lemma thread_pass_keeps:
  assumes p: "hsspi_thread_pass ops e c n = Some (Th_run c' n')"
  shows "hs_state c' = hs_state c \<and> hs_layers c' = hs_layers c"
proof -
  obtain hw c1 where w: "get_work c = (hw, c1)" by (cases "get_work c")
  have "thread_work ops e hw c1 n = Some (c', n')"
    using p w by (auto simp: hsspi_thread_pass_def split: if_splits Option.bind_splits)
  then show ?thesis using thread_work_keeps get_work_keeps [OF w] by fastforce
qed

interpretation core: core_thread "thread_passes ops es n" for ops es n
proof
  have "hs_state (thread_passes ops es n c) = hs_state c \<and> hs_layers (thread_passes ops es n c) = hs_layers c" for c
  proof (induction es arbitrary: n c)
    case (Cons e es)
    then show ?case by (auto split: option.splits thread_result.splits dest: thread_pass_keeps)
  qed simp
  then show "hs_state (thread_passes ops es n c) = hs_state c" "hs_layers (thread_passes ops es n c) = hs_layers c" for c
    by blast+
qed

section \<open>What the parts of the driver leave alone\<close>

lemma qm35_regulators_set_simps [simp]:
  "q_hsspi (qm35_regulators_set pl on s) = q_hsspi s" "q_state (qm35_regulators_set pl on s) = q_state s"
  "q_rdy_irq (qm35_regulators_set pl on s) = q_rdy_irq s" "q_handles (qm35_regulators_set pl on s) = q_handles s"
  by (simp_all add: qm35_regulators_set_def Let_def split_beta)

lemma irqs_setup_simps:
  "hs_layers (q_hsspi (snd (hsspi_irqs_setup e s))) = hs_layers (q_hsspi s)"
  "hs_state (q_hsspi (snd (hsspi_irqs_setup e s))) = hs_state (q_hsspi s)"
  "q_vdd (snd (hsspi_irqs_setup e s)) = q_vdd s"
  "q_regulators_enabled (snd (hsspi_irqs_setup e s)) = q_regulators_enabled s"
  "fst (hsspi_irqs_setup e s) = 0 \<Longrightarrow> q_rdy_irq (snd (hsspi_irqs_setup e s)) = Some 0"
  by (auto simp: hsspi_irqs_setup_def exton_setup_def hsspi_clear_spi_slave_ready_def Let_def
      split: sum.splits bool.splits)

section \<open>Going back through the labels\<close>

definition stands ::
  "('l, 'b, 'w) probe \<Rightarrow> hsspi_layer option list \<Rightarrow> hsspi_state \<Rightarrow> resource set \<Rightarrow> bool" where
  "stands p ls st held \<longleftrightarrow> pr_debug_wq p \<and> hs_layers (q_hsspi (pr_ctx p)) = ls \<and>
     hs_state (q_hsspi (pr_ctx p)) = st \<and> pr_held p = held"

text \<open>The layer table with no layer, with the test layer, and with the others added in their order.\<close>

definition layers_none :: "hsspi_layer option list" where
  "layers_none = [None, None, None, None, None, None]"

definition layers_test :: "hsspi_layer option list" where
  "layers_test = [None, None, None, None, None, Some test_hsspi_layer]"

definition layers_coredump :: "hsspi_layer option list" where
  "layers_coredump = [None, None, None, Some coredump_lay, None, Some test_hsspi_layer]"

definition layers_all :: "hsspi_layer option list" where
  "layers_all = [None, None, None, Some coredump_lay, Some log_lay, Some test_hsspi_layer]"

lemmas layer_tables = layers_none_def layers_test_def layers_coredump_def layers_all_def
  test_hsspi_layer_def coredump_lay_def log_lay_def uci_lay_def
  UL_TEST_HSSPI_def UL_COREDUMP_def UL_LOG_def UL_UCI_APP_def UL_MAX_IDX_def layer_id_is_valid_def

text \<open>Everything is released, except the core when it is running.\<close>

definition unwound :: "hsspi_state \<Rightarrow> ('l, 'b, 'w) probe \<Rightarrow> bool" where
  "unwound st p \<longleftrightarrow> hs_state (q_hsspi (pr_ctx p)) = st \<and> hs_layers (q_hsspi (pr_ctx p)) = layers_none \<and>
     pr_held p = (if st = HSSPI_RUNNING then {Res_hsspi} else {})"

lemma L_uci_ok:
  assumes "stands p layers_none st {Res_hsspi, Res_uci_layer}"
  shows "unwound st (L_uci_layer_deinit pl p)"
  using assms
  by (auto simp: unwound_def stands_def L_uci_layer_deinit_def L_hsspi_deinit_def L_poweroff_def deinit_core_def
      hsspi_deinit_def release_def on_ctx_def layers_none_def)

lemma L_debug_ok:
  assumes "stands p layers_none st {Res_debugfs, Res_hsspi, Res_uci_layer}"
  shows "\<exists>p'. L_debug_deinit pl p = Some p' \<and> unwound st p'"
proof -
  have "stands (release Res_debugfs p) layers_none st {Res_hsspi, Res_uci_layer}"
    using assms by (auto simp: stands_def release_def)
  then show ?thesis using assms L_uci_ok by (auto simp: L_debug_deinit_def probe_debug_deinit_def stands_def)
qed

context core_thread begin

lemma unregister_stands:
  assumes "stands p ls st held" "ls ! lay_id l = Some l" "layer_id_is_valid (lay_id l)"
  shows "stands (on_ctx (\<lambda>s. snd (unregister_and_wait await l s)) p) (ls[lay_id l := None]) st held"
  using assms by (simp add: stands_def on_ctx_def unregister_and_wait_def hsspi_unregister_def work_add_tail_def)

lemma L_test_ok:
  assumes p: "stands p layers_test st {Res_debugfs, Res_hsspi, Res_uci_layer}"
  shows "\<exists>p'. L_hsspi_test_deinit pl await p = Some p' \<and> unwound st p'"
proof -
  have "stands (on_ctx (hsspi_test_deinit await) p) layers_none st {Res_debugfs, Res_hsspi, Res_uci_layer}"
    using unregister_stands [OF p, of test_hsspi_layer]
    by (simp add: hsspi_test_deinit_def [abs_def]) (simp add: layer_tables)
  from L_debug_ok [OF this] show ?thesis by (simp add: L_hsspi_test_deinit_def)
qed

lemma L_coredump_ok:
  assumes p: "stands p layers_test st {Res_debugfs, Res_hsspi, Res_uci_layer, Res_coredump_layer}"
  shows "\<exists>p'. L_coredump_layer_deinit pl await p = Some p' \<and> unwound st p'"
proof -
  have "stands (release Res_coredump_layer p) layers_test st {Res_debugfs, Res_hsspi, Res_uci_layer}"
    using p by (auto simp: stands_def release_def)
  from L_test_ok [OF this] show ?thesis by (simp add: L_coredump_layer_deinit_def)
qed

lemma L_log_ok:
  assumes p: "stands p layers_test st {Res_debugfs, Res_hsspi, Res_uci_layer, Res_coredump_layer, Res_log_layer}"
  shows "\<exists>p'. L_log_layer_deinit pl await p = Some p' \<and> unwound st p'"
proof -
  have "stands (release Res_log_layer p) layers_test st {Res_debugfs, Res_hsspi, Res_uci_layer, Res_coredump_layer}"
    using p by (auto simp: stands_def release_def)
  from L_coredump_ok [OF this] show ?thesis by (simp add: L_log_layer_deinit_def)
qed

lemma L_unregister_ok:
  assumes p: "stands p layers_all st {Res_debugfs, Res_hsspi, Res_uci_layer, Res_coredump_layer, Res_log_layer}"
  shows "\<exists>p'. L_log_layer_unregister pl await p = Some p' \<and> unwound st p'"
proof -
  let ?p1 = "on_ctx (\<lambda>s. snd (unregister_and_wait await log_lay s)) p"
  have p1: "stands ?p1 layers_coredump st {Res_debugfs, Res_hsspi, Res_uci_layer, Res_coredump_layer, Res_log_layer}"
    using unregister_stands [OF p, of log_lay] by (simp add: layer_tables)
  have "stands (on_ctx (\<lambda>s. snd (unregister_and_wait await coredump_lay s)) ?p1) layers_test st
      {Res_debugfs, Res_hsspi, Res_uci_layer, Res_coredump_layer, Res_log_layer}"
    using unregister_stands [OF p1, of coredump_lay] by (simp add: layer_tables)
  from L_log_ok [OF this] show ?thesis by (simp add: L_log_layer_unregister_def L_coredump_layer_unregister_def)
qed

end

section \<open>Going forward\<close>

definition runs_after_probe :: "'w platform \<Rightarrow> probe_env \<Rightarrow> bool" where
  "runs_after_probe pl e \<longleftrightarrow> pl_NO_UWB_HAL pl \<or> True \<notin> set (pb_vdd e)"

definition probe_outcome :: "'w platform \<Rightarrow> probe_env \<Rightarrow> int \<Rightarrow> ('l, 'b, 'w) probe \<Rightarrow> bool" where
  "probe_outcome pl e rc p \<longleftrightarrow>
     (let st = (if runs_after_probe pl e then HSSPI_RUNNING else HSSPI_STOPPED)
      in rc = 0 \<and> stands p layers_all st UNIV \<and> q_rdy_irq (pr_ctx p) = Some 0 \<and>
           REGULATORS_ENABLED (pr_ctx p) = (True \<in> set (pb_vdd e)) \<or>
         rc \<noteq> 0 \<and> unwound HSSPI_STOPPED p \<or>
         rc \<noteq> 0 \<and> rc = pb_misc e \<and> unwound st p)"

lemma supplies_present: "(\<exists>v \<in> set (fst (set_supplies pl on i vs w)). v \<noteq> None) \<longleftrightarrow> (\<exists>v \<in> set vs. v \<noteq> None)"
  by (induction vs arbitrary: i w) (auto simp: split_beta qm35_regulator_set_one_def split: option.splits)

lemma REGULATORS_ENABLED_set [simp]: "REGULATORS_ENABLED (qm35_regulators_set pl on s) = REGULATORS_ENABLED s"
  using supplies_present [of pl "if pl_NO_UWB_HAL pl then True else on" 0 "q_vdd s" "q_world s"]
  by (simp add: REGULATORS_ENABLED_def qm35_regulators_set_def Let_def split_beta)

lemma REGULATORS_ENABLED_vdd: "q_vdd s' = q_vdd s \<Longrightarrow> REGULATORS_ENABLED s' = REGULATORS_ENABLED s"
  by (simp add: REGULATORS_ENABLED_def)

lemma REGULATORS_ENABLED_hsspi [simp]: "REGULATORS_ENABLED (s\<lparr>q_hsspi := c\<rparr>) = REGULATORS_ENABLED s"
  by (rule REGULATORS_ENABLED_vdd) simp

abbreviation (input) layer_resources :: "resource set" where
  "layer_resources \<equiv> {Res_debugfs, Res_hsspi, Res_uci_layer, Res_coredump_layer, Res_log_layer}"

lemma all_resources: "insert Res_uci_dev layer_resources = UNIV"
proof -
  have "x \<in> insert Res_uci_dev layer_resources" for x by (cases x) simp_all
  then show ?thesis by blast
qed

context core_thread begin

lemma probe_start_ok:
  assumes p: "stands p layers_all HSSPI_STOPPED layer_resources" and irq: "q_rdy_irq (pr_ctx p) = Some 0"
    and v: "REGULATORS_ENABLED (pr_ctx p) = (True \<in> set (pb_vdd e))"
  shows "\<exists>rc p'. probe_start pl await e p = Some (rc, p') \<and> probe_outcome pl e rc p'"
proof -
  let ?st = "if runs_after_probe pl e then HSSPI_RUNNING else HSSPI_STOPPED"
  let ?start = "\<lambda>s :: ('l, 'b, 'w) qm35. s\<lparr>q_hsspi := hsspi_start (q_hsspi s)\<rparr>"
  let ?p = "if \<not> pl_NO_UWB_HAL pl
    then (if \<not> REGULATORS_ENABLED (pr_ctx p) then on_ctx ?start p else p)
    else on_ctx ?start (on_ctx (qm35_regulators_set pl True) p)"
  have q: "stands ?p layers_all ?st layer_resources" "q_rdy_irq (pr_ctx ?p) = Some 0"
    "REGULATORS_ENABLED (pr_ctx ?p) = (True \<in> set (pb_vdd e))"
    using p irq v
    by (simp_all add: stands_def on_ctx_def hsspi_start_def runs_after_probe_def split: if_splits)
  show ?thesis
  proof (cases "pb_misc e = 0")
    case True
    have "stands (hold Res_uci_dev ?p) layers_all ?st UNIV"
      using q(1) all_resources by (auto simp: stands_def hold_def)
    then have "probe_outcome pl e 0 (hold Res_uci_dev ?p)"
      using q(2,3) by (simp add: probe_outcome_def Let_def hold_def)
    then show ?thesis using True by (simp add: probe_start_def Let_def)
  next
    case False
    obtain p' where "L_log_layer_unregister pl await ?p = Some p'" "unwound ?st p'"
      using L_unregister_ok [OF q(1)] by blast
    then show ?thesis using False by (auto simp: probe_start_def Let_def probe_outcome_def)
  qed
qed

end

lemma stands_ctx:
  assumes "stands p ls st held" "hs_layers (q_hsspi s) = hs_layers (q_hsspi (pr_ctx p))"
    "hs_state (q_hsspi s) = hs_state (q_hsspi (pr_ctx p))"
  shows "stands (p\<lparr>pr_ctx := s\<rparr>) ls st held"
  using assms by (simp add: stands_def)

context core_thread begin

lemma unregister_outcome:
  assumes "stands p layers_all HSSPI_STOPPED layer_resources" "rc \<noteq> 0"
  shows "\<exists>rc' p'. map_option (\<lambda>p. (rc, p)) (L_log_layer_unregister pl await p) = Some (rc', p') \<and> probe_outcome pl e rc' p'"
  using L_unregister_ok [OF assms(1), of pl] assms(2) by (auto simp: probe_outcome_def Let_def)

lemma probe_irqs_ok:
  assumes p: "stands p layers_all HSSPI_STOPPED layer_resources" and g: "good_files pl"
    and v: "REGULATORS_ENABLED (pr_ctx p) = (True \<in> set (pb_vdd e))"
  shows "\<exists>rc p'. probe_irqs pl await e p = Some (rc, p') \<and> probe_outcome pl e rc p'"
proof -
  obtain ret s where i: "hsspi_irqs_setup (pb_irqs e) (pr_ctx p) = (ret, s)" by (cases "hsspi_irqs_setup (pb_irqs e) (pr_ctx p)")
  note keeps = irqs_setup_simps [of "pb_irqs e" "pr_ctx p", unfolded i, simplified]
  let ?p = "p\<lparr>pr_ctx := s\<rparr>"
  have p1: "stands ?p layers_all HSSPI_STOPPED layer_resources" by (rule stands_ctx [OF p]) (simp_all add: keeps)
  have v1: "REGULATORS_ENABLED s = (True \<in> set (pb_vdd e))" using v REGULATORS_ENABLED_vdd [OF keeps(3)] by simp
  show ?thesis
  proof (cases "ret = 0")
    case False
    then show ?thesis using i unregister_outcome [OF p1 False] by (simp add: probe_irqs_def)
  next
    case True
    then have irq: "q_rdy_irq s = Some 0" using keeps(5) by simp
    show ?thesis
    proof (cases "pb_flash_on_probe e")
      case False
      then show ?thesis using i True probe_start_ok [OF p1] irq v1 by (simp add: probe_irqs_def)
    next
      case flash: True
      obtain ret2 s2 where f: "qm_firmware_load pl (qm35_regulators_set pl True s) = Some (ret2, s2)"
        and same: "same_driver (qm35_regulators_set pl True s) s2"
        using firmware_load_ok [OF g, of "qm35_regulators_set pl True s"] by (elim exE conjE) (rule that)
      let ?s3 = "qm35_regulators_set pl False s2"
      have p3: "stands (?p\<lparr>pr_ctx := ?s3\<rparr>) layers_all HSSPI_STOPPED layer_resources"
        by (rule stands_ctx [OF p1]) (use same in \<open>simp_all add: same_driver_def\<close>)
      have r3: "q_rdy_irq ?s3 = Some 0" using irq same by (simp add: same_driver_def)
      have v3: "REGULATORS_ENABLED ?s3 = (True \<in> set (pb_vdd e))"
        using v1 same REGULATORS_ENABLED_vdd [of s2 "qm35_regulators_set pl True s"] by (simp add: same_driver_def)
      show ?thesis
        using i True flash f probe_start_ok [OF p3] r3 v3 unregister_outcome [OF p3, of ret2]
        by (cases "ret2 = 0") (simp_all add: probe_irqs_def)
    qed
  qed
qed

lemma probe_layers_ok:
  assumes p: "stands p layers_test HSSPI_STOPPED {Res_debugfs, Res_hsspi, Res_uci_layer}" and g: "good_files pl"
    and v: "REGULATORS_ENABLED (pr_ctx p) = (True \<in> set (pb_vdd e))"
  shows "\<exists>rc p'. probe_layers pl await e p = Some (rc, p') \<and> probe_outcome pl e rc p'"
proof -
  let ?p1 = "hold Res_coredump_layer p"
  let ?p2 = "hold Res_log_layer ?p1"
  let ?s3 = "(pr_ctx p)\<lparr>q_hsspi := (q_hsspi (pr_ctx p))\<lparr>hs_layers := layers_coredump\<rparr>\<rparr>"
  let ?s4 = "(pr_ctx p)\<lparr>q_hsspi := (q_hsspi (pr_ctx p))\<lparr>hs_layers := layers_all\<rparr>\<rparr>"
  have p1: "stands ?p1 layers_test HSSPI_STOPPED {Res_debugfs, Res_hsspi, Res_uci_layer, Res_coredump_layer}"
    and p4: "stands (?p2\<lparr>pr_ctx := ?s4\<rparr>) layers_all HSSPI_STOPPED layer_resources"
    using p by (auto simp: stands_def hold_def)
  have r3: "register_layer coredump_lay (pr_ctx ?p2) = (0, ?s3)"
    using p by (simp add: register_layer_def hsspi_register_def stands_def hold_def layer_tables)
  have r4: "register_layer log_lay ?s3 = (0, ?s4)"
    by (simp add: register_layer_def hsspi_register_def layer_tables)
  have v4: "REGULATORS_ENABLED (pr_ctx (?p2\<lparr>pr_ctx := ?s4\<rparr>)) = (True \<in> set (pb_vdd e))" using v by simp
  have c: "\<exists>p'. L_hsspi_test_deinit pl await p = Some p' \<and> unwound HSSPI_STOPPED p'"
    by (rule L_test_ok [OF p])
  have l: "\<exists>p'. L_coredump_layer_deinit pl await ?p1 = Some p' \<and> unwound HSSPI_STOPPED p'"
    by (rule L_coredump_ok [OF p1])
  show ?thesis
    using c l r3 r4 probe_irqs_ok [OF p4 g v4]
    by (cases "pb_coredump_layer e = 0"; cases "pb_log_layer e = 0")
      (auto simp: probe_layers_def Let_def probe_outcome_def)
qed

end

end
