(* ===== verification/Driver_Props.thy ===== *)
theory Driver_Props
  imports Driver_Unwind
begin

text \<open>
  The properties of the driver: what \<open>qm35_probe\<close> leaves behind, the balance of the SS_READY interrupt and
  of the supplies over any sequence of operations, and what a firmware upload tells the user.
\<close>

section \<open>Probing\<close>

definition probe_result :: "'w platform \<Rightarrow> probe_env \<Rightarrow> int \<Rightarrow> ('l, 'b, 'w) probe \<Rightarrow> bool" where
  "probe_result pl e rc p \<longleftrightarrow> probe_outcome pl e rc p \<or> rc \<noteq> 0 \<and> pr_held p = {} \<or>
     rc \<noteq> 0 \<and> pr_held p = {Res_debugfs} \<and> (pb_thread e \<noteq> 0 \<or> pb_uci_layer e \<noteq> 0)"

context core_thread begin

lemma probe_core_ok:
  assumes p: "pr_held p = {}" "REGULATORS_ENABLED (pr_ctx p) = (True \<in> set (pb_vdd e))"
    and g: "good_files pl" and root: "pb_debug_root e = 0"
  shows "\<exists>rc p'. probe_core pl await e heap up p = Some (rc, p') \<and> probe_result pl e rc p'"
proof -
  define core where "core = (snd (hsspi_init (pb_thread e) heap up) :: ('l, 'b) hsspi)"
  let ?p1 = "on_ctx (\<lambda>s. s\<lparr>q_hsspi := core\<rparr>) (hold Res_debugfs p)"
  let ?p2 = "hold Res_uci_layer (hold Res_hsspi ?p1)"
  let ?p3 = "?p2\<lparr>pr_debug_wq := True\<rparr>"
  let ?s4 = "(pr_ctx ?p3)\<lparr>q_hsspi := core\<lparr>hs_layers := layers_test\<rparr>\<rparr>"
  have core: "hs_layers core = layers_none" "hs_state core = HSSPI_STOPPED"
    by (simp_all add: core_def hsspi_init_def layers_none_def UL_MAX_IDX_def numeral_eq_Suc)
  have init: "hsspi_init (pb_thread e) heap up = (pb_thread e, core)" by (simp add: core_def hsspi_init_def)
  have p3: "stands ?p3 layers_none HSSPI_STOPPED {Res_debugfs, Res_hsspi, Res_uci_layer}"
    using p(1) core by (auto simp: stands_def hold_def on_ctx_def)
  have p3': "stands (release Res_debugfs ?p3) layers_none HSSPI_STOPPED {Res_hsspi, Res_uci_layer}"
    using p3 by (auto simp: stands_def release_def)
  have p4: "stands (?p3\<lparr>pr_ctx := ?s4\<rparr>) layers_test HSSPI_STOPPED {Res_debugfs, Res_hsspi, Res_uci_layer}"
    using p3 core by (simp add: stands_def)
  have v4: "REGULATORS_ENABLED (pr_ctx (?p3\<lparr>pr_ctx := ?s4\<rparr>)) = (True \<in> set (pb_vdd e))"
    using p(2) by (simp add: hold_def on_ctx_def)
  have test: "hsspi_test_init (pr_ctx ?p3) = (0, ?s4)"
    using core by (simp add: hsspi_test_init_def register_layer_def hsspi_register_def hold_def on_ctx_def layer_tables)
  have t: "probe_result pl e (pb_thread e) (L_poweroff pl ?p1)" if "pb_thread e \<noteq> 0"
    using that p(1) by (simp add: probe_result_def L_poweroff_def hold_def on_ctx_def)
  have u: "probe_result pl e (pb_uci_layer e) (L_hsspi_deinit pl (hold Res_hsspi ?p1))" if "pb_uci_layer e \<noteq> 0"
    using that p(1) core by (auto simp: probe_result_def L_hsspi_deinit_def L_poweroff_def deinit_core_def hsspi_deinit_def
        hold_def on_ctx_def release_def layers_none_def)
  have d: "probe_result pl e (- 1) (L_uci_layer_deinit pl (release Res_debugfs ?p3))"
    using L_uci_ok [OF p3', of pl] by (simp add: probe_result_def probe_outcome_def Let_def)
  have di: "probe_debug_init (pb_debug e) ?p2 = Some (if pb_debug e \<noteq> 0 then (- 1, release Res_debugfs ?p3) else (0, ?p3))"
    by (simp add: probe_debug_init_def probe_debug_deinit_def)
  show ?thesis
    using root init t u d di test probe_layers_ok [OF p4 g v4]
    by (cases "pb_thread e = 0"; cases "pb_uci_layer e = 0"; cases "pb_debug e = 0")
      (auto simp: probe_core_def Let_def probe_result_def)
qed

lemma probe_ok:
  assumes g: "good_files pl" and e: "pb_gpio_reset e \<noteq> Inl 0" "pb_debug_root e = 0"
  shows "\<exists>rc p. qm35_probe pl await e heap up w = Some (rc, p) \<and> probe_result pl e rc p"
proof -
  let ?p = "\<lparr>pr_ctx = new_ctx heap up w, pr_held = {}, pr_debug_wq = False\<rparr> :: ('l, 'b, 'a) probe"
  have start: "\<exists>rc p'. probe_core pl await e heap up (on_ctx (\<lambda>s. qm35_regulators_setup (pb_vdd e) (s\<lparr>q_gpio_reset := r\<rparr>)) ?p) =
      Some (rc, p') \<and> probe_result pl e rc p'" for r
    by (rule probe_core_ok [OF _ _ g e(2)])
      (auto simp: on_ctx_def REGULATORS_ENABLED_def qm35_regulators_setup_def qm35_regulators_setup_one_def new_ctx_def)
  have early: "probe_result pl e rc ?p" if "rc \<noteq> 0" for rc using that by (simp add: probe_result_def)
  show ?thesis
    using start early e(1)
    by (cases "pb_spi_speed_hz e \<noteq> 0 \<and> pb_spi_setup e \<noteq> 0"; cases "pb_alloc e"; cases "pb_gpio_reset e")
      (auto simp: qm35_probe_def Let_def)
qed

end

section \<open>Removing\<close>

context core_thread begin

lemma remove_ok:
  assumes p: "stands p layers_all st UNIV"
  shows "\<exists>p'. qm35_remove pl await p = Some p' \<and> pr_held p' = {}"
proof -
  let ?p1 = "on_ctx (stop_and_wait await) (release Res_uci_dev p)"
  have p1: "stands ?p1 layers_all HSSPI_STOPPED layer_resources"
    using p all_resources by (auto simp: stands_def release_def on_ctx_def stop_and_wait_def hsspi_stop_def work_add_tail_def)
  let ?p2 = "on_ctx (\<lambda>s. snd (unregister_and_wait await log_lay s)) ?p1"
  have p2: "stands ?p2 layers_coredump HSSPI_STOPPED layer_resources"
    using unregister_stands [OF p1, of log_lay] by (simp add: layer_tables)
  let ?p3 = "on_ctx (\<lambda>s. snd (unregister_and_wait await coredump_lay s)) ?p2"
  have p3: "stands ?p3 layers_test HSSPI_STOPPED layer_resources"
    using unregister_stands [OF p2, of coredump_lay] by (simp add: layer_tables)
  let ?p4 = "release Res_coredump_layer (release Res_log_layer ?p3)"
  have p4: "stands ?p4 layers_test HSSPI_STOPPED {Res_debugfs, Res_hsspi, Res_uci_layer}"
    using p3 by (auto simp: stands_def release_def)
  let ?p5 = "on_ctx (hsspi_test_deinit await) ?p4"
  have p5: "stands ?p5 layers_none HSSPI_STOPPED {Res_debugfs, Res_hsspi, Res_uci_layer}"
    using unregister_stands [OF p4, of test_hsspi_layer]
    by (simp add: hsspi_test_deinit_def [abs_def]) (simp add: layer_tables)
  have p6: "stands (release Res_uci_layer (release Res_debugfs ?p5)) layers_none HSSPI_STOPPED {Res_hsspi}"
    using p5 by (auto simp: stands_def release_def)
  have "pr_held (L_poweroff pl (deinit_core (release Res_uci_layer (release Res_debugfs ?p5)))) = {}"
    using p6 by (auto simp: stands_def L_poweroff_def on_ctx_def deinit_core_def hsspi_deinit_def release_def layers_none_def)
  moreover have "probe_debug_deinit ?p5 = Some (release Res_debugfs ?p5)" using p5 by (simp add: probe_debug_deinit_def stands_def)
  ultimately show ?thesis by (simp add: qm35_remove_def Let_def)
qed

end

section \<open>Sequences of operations\<close>

datatype drv_op =
    Op_open
  | Op_release
  | Op_ioctl ioctl_req
  | Op_hw_reset
  | Op_suspend
  | Op_resume
  | Op_ss_irq
  | Op_error_reset

fun drv_step :: "'w platform \<Rightarrow> ('l, 'b) await \<Rightarrow> drv_op \<Rightarrow> ('l, 'b, 'w) qm35 \<Rightarrow> (int \<times> ('l, 'b, 'w) qm35) option" where
  "drv_step pl await Op_open s = Some (uci_open s)"
| "drv_step pl await Op_release s = Some (uci_release await s)"
| "drv_step pl await (Op_ioctl req) s = map_option (\<lambda>(rc, _, s). (rc, s)) (uci_ioctl pl await req s)"
| "drv_step pl await Op_hw_reset s = Some (qm35_reset_sync await s)"
| "drv_step pl await Op_suspend s = Some (qm35_pm_suspend await s)"
| "drv_step pl await Op_resume s = Some (qm35_pm_resume s)"
| "drv_step pl await Op_ss_irq s = Some (0, drv_irq_handler s)"
| "drv_step pl await Op_error_reset s = Some (0, qm35_reset_hook pl s)"

fun drv_run :: "'w platform \<Rightarrow> ('l, 'b) await \<Rightarrow> drv_op list \<Rightarrow> ('l, 'b, 'w) qm35 \<Rightarrow> (int list \<times> ('l, 'b, 'w) qm35) option" where
  "drv_run pl await [] s = Some ([], s)"
| "drv_run pl await (op # ops) s = do {
     (rc, s) \<leftarrow> drv_step pl await op s;
     (rcs, s) \<leftarrow> drv_run pl await ops s;
     Some (rc # rcs, s) }"

text \<open>The SS_READY interrupt is enabled exactly while the core runs.\<close>

definition irq_inv :: "('l, 'b, 'w) qm35 \<Rightarrow> bool" where
  "irq_inv s \<longleftrightarrow> hs_state (q_hsspi s) = HSSPI_RUNNING \<and> q_rdy_irq s = Some 0 \<or>
     hs_state (q_hsspi s) = HSSPI_STOPPED \<and> q_rdy_irq s = Some 1"

lemma qm35_reset_simps [simp]:
  "q_hsspi (snd (qm35_reset run s)) = q_hsspi s" "q_rdy_irq (snd (qm35_reset run s)) = q_rdy_irq s"
  "q_vdd (snd (qm35_reset run s)) = q_vdd s" "q_regulators_enabled (snd (qm35_reset run s)) = q_regulators_enabled s"
  by (simp_all add: qm35_reset_def split_beta)

lemma irq_inv_cong: "q_hsspi s' = q_hsspi s \<Longrightarrow> q_rdy_irq s' = q_rdy_irq s \<Longrightarrow> irq_inv s' = irq_inv s"
  by (simp add: irq_inv_def)

lemma start_inv: "irq_inv s \<Longrightarrow> irq_inv (qm35_hsspi_start s)"
  by (auto simp: irq_inv_def qm35_hsspi_start_def enable_rdy_irq_def hsspi_start_def Let_def)

context core_thread begin

lemma stop_inv: "irq_inv s \<Longrightarrow> irq_inv (qm35_hsspi_stop await s)"
  by (auto simp: irq_inv_def qm35_hsspi_stop_def disable_rdy_irq_def stop_and_wait_def hsspi_stop_def work_add_tail_def
      hsspi_clear_spi_slave_ready_def)

lemma reset_inv: "irq_inv s \<Longrightarrow> irq_inv (snd (qm35_reset run s))"
  using irq_inv_cong [of "snd (qm35_reset run s)" s] by simp

lemma copy_state_inv: "irq_inv (snd (snd (copy_state fault s))) = irq_inv s"
  by (simp add: copy_state_def)

lemma ioctl_inv:
  assumes i: "irq_inv s" and g: "good_files pl"
  shows "\<exists>rc v s'. uci_ioctl pl await req s = Some (rc, v, s') \<and> irq_inv s'"
proof -
  have stop: "irq_inv (qm35_hsspi_stop await s)" by (rule stop_inv [OF i])
  have reset: "irq_inv (snd (snd (ioctl_reset await fault s)))" for fault
    using start_inv [OF reset_inv [OF stop]] by (simp add: ioctl_reset_def Let_def split_beta copy_state_inv)
  have power: "irq_inv (snd (snd (ioctl_power pl await ret on s)))" for ret on
  proof -
    let ?s1 = "if REGULATORS_ENABLED (qm35_hsspi_stop await s) then qm35_regulators_set pl (on \<noteq> 0) (qm35_hsspi_stop await s)
      else qm35_hsspi_stop await s"
    have "irq_inv ?s1" using stop irq_inv_cong [of ?s1 "qm35_hsspi_stop await s"] by simp
    from reset_inv [OF this] start_inv [OF reset_inv [OF this]] i show ?thesis
      by (simp add: ioctl_power_def Let_def split_beta)
  qed
  have fw: "\<exists>rc v s'. ioctl_fw_upload pl await fault s = Some (rc, v, s') \<and> irq_inv s'" for fault
  proof -
    obtain ret s1 where f: "qm_firmware_load pl (qm35_hsspi_stop await s) = Some (ret, s1)"
      and same: "same_driver (qm35_hsspi_stop await s) s1"
      using firmware_load_ok [OF g, of "qm35_hsspi_stop await s"] by (elim exE conjE) (rule that)
    have "irq_inv s1" using stop same irq_inv_cong [of s1 "qm35_hsspi_stop await s"] by (simp add: same_driver_def)
    then have "irq_inv (qm35_hsspi_start s1)" by (rule start_inv)
    then show ?thesis using f by (auto simp: ioctl_fw_upload_def copy_state_def Let_def)
  qed
  show ?thesis
    using reset power fw i
    by (cases req) (auto simp: uci_ioctl_def copy_state_def prod_eq_iff)
qed

lemma drv_step_inv:
  assumes i: "irq_inv s" and g: "good_files pl"
  shows "\<exists>rc s'. drv_step pl await op s = Some (rc, s') \<and> irq_inv s'"
proof (cases op)
  case Op_open
  then show ?thesis using i
    by (auto simp: uci_open_def register_layer_def hsspi_register_def irq_inv_def split_beta)
next
  case Op_release
  then show ?thesis using i
    by (auto simp: uci_release_def unregister_and_wait_def hsspi_unregister_def work_add_tail_def irq_inv_def split_beta Let_def)
next
  case (Op_ioctl req)
  then show ?thesis using ioctl_inv [OF i g, of req] by auto
next
  case Op_hw_reset
  then show ?thesis using start_inv [OF reset_inv [OF stop_inv [OF i]]] by (simp add: qm35_reset_sync_def Let_def split_beta)
next
  case Op_suspend
  then show ?thesis using stop_inv [OF i] by (simp add: qm35_pm_suspend_def)
next
  case Op_resume
  then show ?thesis using start_inv [OF i] by (simp add: qm35_pm_resume_def)
next
  case Op_ss_irq
  then show ?thesis using i
    by (auto simp: drv_irq_handler_def qm35_irq_handler_def hsspi_set_output_data_waiting_def irq_inv_def)
next
  case Op_error_reset
  then show ?thesis using i reset_inv [OF i] by (simp add: qm35_reset_hook_def)
qed

lemma drv_run_inv:
  assumes "good_files pl"
  shows "irq_inv s \<Longrightarrow> \<exists>rcs s'. drv_run pl await ops s = Some (rcs, s') \<and> length rcs = length ops \<and> irq_inv s'"
proof (induction ops arbitrary: s)
  case (Cons op ops)
  obtain rc s1 where "drv_step pl await op s = Some (rc, s1)" "irq_inv s1"
    using drv_step_inv [OF Cons.prems assms, of op] by (elim exE conjE) (rule that)
  then show ?case using Cons.IH [of s1] by auto
qed simp

end

section \<open>Properties\<close>

text \<open>A board for the examples: layers that do nothing, one firmware file, and calls that all succeed.\<close>

definition idle_ops :: "(unit, unit) ops_table" where
  "idle_ops = (\<lambda>_. \<lparr>op_get = \<lambda>up n h. Some (None, up, h), op_received = \<lambda>up b st h. Some (up, [], h),
     op_sent = \<lambda>up b st h. Some (up, h)\<rparr>)"

definition board_attempt :: attempt where
  "board_attempt = \<lparr>at_irqs_before = [], at_ss_rdy = True, at_exton = True, at_irqs_wait = [], at_signal = False,
     at_ss_rdy_after = True, at_spi = (\<lambda>host tx. (0, host, [])), at_irqs_xfer = []\<rparr>"

abbreviation (input) board_await :: "(unit, unit) await" where
  "board_await \<equiv> thread_passes idle_ops
     [\<lparr>pe_signal = False, pe_should_stop = False, pe_first = \<lambda>_. board_attempt, pe_second = \<lambda>_. board_attempt\<rparr>] 0"

definition board :: "unit platform" where
  "board = \<lparr>pl_dev = echo_dev, pl_regulator = (\<lambda>_ _ w. (0, w)),
     pl_request_firmware = (\<lambda>name. if name = ''qm35_b0_icv.bin'' then Some (stitch sample_fw) else None),
     pl_fwname = None, pl_qmrom_retries = 10, pl_reset_on_error = True, pl_NO_UWB_HAL = False\<rparr>"

definition board_env :: "bool list \<Rightarrow> int \<Rightarrow> probe_env" where
  "board_env vdd misc =
     \<lparr>pb_spi_speed_hz = 0, pb_spi_setup = 0, pb_alloc = True, pb_gpio_reset = Inr True, pb_vdd = vdd, pb_debug_root = 0,
      pb_thread = 0, pb_uci_layer = 0, pb_debug = 0, pb_coredump_layer = 0, pb_log_layer = 0,
      pb_irqs = \<lparr>ir_wake_on_ssirq = True, ir_wake_use_csn = False, ir_wake_use_wakeup = True, ir_ss_rdy = 0,
        ir_request_ss_rdy = 0, ir_ss_irq = Inr True, ir_enable_wake = 0, ir_request_ss_irq = 0, ir_exton = Inr True,
        ir_request_exton = 0, ir_exton_level = False, ir_csn = 0, ir_wakeup = 0\<rparr>,
      pb_flash_on_probe = False, pb_misc = misc\<rparr>"

lemma board_facts:
  "good_files board" "pb_gpio_reset (board_env vdd misc) \<noteq> Inl 0" "pb_debug_root (board_env vdd misc) = 0"
  "\<not> pl_NO_UWB_HAL board" "pb_vdd (board_env vdd misc) = vdd"
  by (auto simp: good_files_def board_def board_env_def split: if_splits)

lemma board_probe:
  "\<exists>p. qm35_probe board board_await (board_env vdd 0) empty_heap () () = Some (0, p)"
  by (simp add: qm35_probe_def board_env_def probe_core_def probe_layers_def probe_irqs_def probe_start_def
      hsspi_irqs_setup_def exton_setup_def gpios_setup_def probe_debug_init_def hsspi_test_init_def register_layer_def
      hsspi_register_def layer_tables on_ctx_def hold_def hsspi_init_def hsspi_clear_spi_slave_ready_def board_def Let_def)

lemma probe_runs:
  assumes "core_thread await" "good_files pl" "qm35_probe pl await e heap up w = Some (0, p)"
    "pb_gpio_reset e \<noteq> Inl 0" "pb_debug_root e = 0"
  shows "stands p layers_all (if runs_after_probe pl e then HSSPI_RUNNING else HSSPI_STOPPED) UNIV"
    "q_rdy_irq (pr_ctx p) = Some 0" "REGULATORS_ENABLED (pr_ctx p) = (True \<in> set (pb_vdd e))"
  using core_thread.probe_ok [OF assms(1,2,4,5), of heap up w] assms(3)
  by (auto simp: probe_result_def probe_outcome_def Let_def)



text \<open>
  Claim C15. From a successful probe of a device without supplies, any sequence of opening, closing,
  ioctls, hardware resets, suspending, resuming, interrupts and error resets returns a result for each,
  and the SS_READY interrupt is enabled exactly once while the core runs and disabled exactly once while
  it is stopped.
\<close>

theorem driver_irq_balanced:
  assumes "core_thread await" "good_files pl" "qm35_probe pl await e heap up w = Some (0, p)"
    "pb_gpio_reset e \<noteq> Inl 0" "pb_debug_root e = 0" "True \<notin> set (pb_vdd e)"
  shows "\<exists>rcs s'. drv_run pl await ops (pr_ctx p) = Some (rcs, s') \<and> length rcs = length ops \<and>
    (hs_state (q_hsspi s') = HSSPI_RUNNING \<and> q_rdy_irq s' = Some 0 \<or>
     hs_state (q_hsspi s') = HSSPI_STOPPED \<and> q_rdy_irq s' = Some 1)"
proof -
  have "irq_inv (pr_ctx p)"
    using probe_runs [OF assms(1-5)] assms(6) by (simp add: irq_inv_def stands_def runs_after_probe_def)
  from core_thread.drv_run_inv [OF assms(1,2) this, of ops] show ?thesis unfolding irq_inv_def .
qed

theorem driver_irq_balanced_witness:
  "\<exists>p rcs s'. qm35_probe board board_await (board_env [] 0) empty_heap () () = Some (0, p) \<and>
    drv_run board board_await [Op_open, Op_ioctl (QM35_CTRL_RESET False), Op_suspend, Op_ioctl (QM35_CTRL_FW_UPLOAD False),
      Op_ss_irq, Op_resume, Op_hw_reset, Op_release] (pr_ctx p) = Some (rcs, s') \<and> length rcs = 8 \<and>
    (hs_state (q_hsspi s') = HSSPI_RUNNING \<and> q_rdy_irq s' = Some 0 \<or>
     hs_state (q_hsspi s') = HSSPI_STOPPED \<and> q_rdy_irq s' = Some 1)"
proof -
  let ?ops = "[Op_open, Op_ioctl (QM35_CTRL_RESET False), Op_suspend, Op_ioctl (QM35_CTRL_FW_UPLOAD False),
      Op_ss_irq, Op_resume, Op_hw_reset, Op_release]"
  obtain p where p: "qm35_probe board board_await (board_env [] 0) empty_heap () () = Some (0, p)" using board_probe ..
  have none: "True \<notin> set (pb_vdd (board_env [] 0))" by (simp add: board_facts)
  obtain rcs s' where r: "drv_run board board_await ?ops (pr_ctx p) = Some (rcs, s')" "length rcs = length ?ops"
    "hs_state (q_hsspi s') = HSSPI_RUNNING \<and> q_rdy_irq s' = Some 0 \<or>
     hs_state (q_hsspi s') = HSSPI_STOPPED \<and> q_rdy_irq s' = Some 1"
    using driver_irq_balanced [OF core.core_thread_axioms board_facts(1) p board_facts(2,3) none, of ?ops]
    by (elim exE conjE) (rule that)
  have "length rcs = 8" using r(2) by simp
  then show ?thesis using p r(1,3) by blast
qed

text \<open>
  Claim C37. With supplies to switch, a successful probe leaves the core stopped but the SS_READY
  interrupt enabled, so that the first \<open>QM35_CTRL_POWER\<close> enables it a second time: its disable depth
  becomes -1.
\<close>

theorem driver_first_power_on_unbalanced:
  assumes "core_thread await" "good_files pl" "qm35_probe pl await e heap up w = Some (0, p)"
    "pb_gpio_reset e \<noteq> Inl 0" "pb_debug_root e = 0" "True \<in> set (pb_vdd e)" "\<not> pl_NO_UWB_HAL pl" "on \<noteq> 0"
  shows "\<exists>s'. uci_ioctl pl await (QM35_CTRL_POWER 0 on) (pr_ctx p) = Some (0, None, s') \<and> q_rdy_irq s' = Some (- 1)"
proof -
  let ?s = "pr_ctx p"
  have s: "hs_state (q_hsspi ?s) = HSSPI_STOPPED" "q_rdy_irq ?s = Some 0" "REGULATORS_ENABLED ?s"
    using probe_runs [OF assms(1-5)] assms(6,7) by (simp_all add: stands_def runs_after_probe_def)
  let ?s1 = "snd (qm35_reset True (qm35_regulators_set pl True ?s))"
  have "REGULATORS_ENABLED ?s1"
    using s(3) REGULATORS_ENABLED_vdd [of ?s1 "qm35_regulators_set pl True ?s"] by simp
  then show ?thesis using s assms(8)
    by (simp add: uci_ioctl_def ioctl_power_def qm35_hsspi_stop_def qm35_hsspi_start_def enable_rdy_irq_def Let_def split_beta)
qed

theorem driver_first_power_on_unbalanced_witness:
  "\<exists>p s'. qm35_probe board board_await (board_env [True] 0) empty_heap () () = Some (0, p) \<and>
    uci_ioctl board board_await (QM35_CTRL_POWER 0 1) (pr_ctx p) = Some (0, None, s') \<and> q_rdy_irq s' = Some (- 1)"
proof -
  obtain p where p: "qm35_probe board board_await (board_env [True] 0) empty_heap () () = Some (0, p)" using board_probe ..
  show ?thesis
    using p driver_first_power_on_unbalanced [OF core.core_thread_axioms board_facts(1) p board_facts(2,3), of 1]
    by (simp add: board_facts)
qed



end
