(* ===== verification/Debug.thy ===== *)
theory Debug
  imports Log Driver
begin

text \<open>
  The debugfs files (debug.c) over the log layer, the coredump layer and the driver: the traces file
  with its single reader, the enable, log level, coredump and reset files, the identifiers of the chip,
  and the creation of the files.

  What \<open>kstrtou8_from_user\<close> makes of the user's text is a parameter, \<open>None\<close> for a text it refuses;
  \<open>fault\<close> is whether \<open>copy_to_user\<close> leaves bytes uncopied; \<open>ret\<close> is what \<open>hsspi_send\<close> returns.  A file
  operation returns its result and the bytes stored for the user.  A directory or a file of debugfs is
  created or not as its parameter says.
\<close>

section \<open>State\<close>

text \<open>
  \<open>struct debug\<close>, with the two layers behind its operation tables: \<open>dg_trace_ops\<close> and \<open>dg_coredump_ops\<close>
  are whether the pointers to the tables are set.  \<open>dg_pv_filp\<close> is the open traces file.
\<close>

record debug =
  dg_trace_ops :: bool
  dg_coredump_ops :: bool
  dg_pv_filp :: "nat option"
  dg_log :: log_layer
  dg_coredump :: coredump_layer
  dg_heap :: kheap

section \<open>The traces file\<close>

datatype traces_result = Rd_return int "byte list" | Rd_wait

definition debug_traces_open :: "nat \<Rightarrow> debug \<Rightarrow> int \<times> debug" where
  "debug_traces_open filep d =
     (if dg_pv_filp d \<noteq> None then (- EBUSY, d)
      else
        let d = d\<lparr>dg_pv_filp := Some filep\<rparr>
        in (0, if dg_trace_ops d then d\<lparr>dg_log := log_trace_reset (dg_log d)\<rparr> else d))"

definition debug_traces_release :: "debug \<Rightarrow> int \<times> debug" where
  "debug_traces_release d = (0, d\<lparr>dg_pv_filp := None\<rparr>)"

text \<open>\<open>debug_traces_read\<close> once the size of the next entry is known.\<close>

definition traces_read_entry ::
  "nat \<Rightarrow> bool \<Rightarrow> bool \<Rightarrow> nat \<Rightarrow> debug \<Rightarrow> (traces_result \<times> debug) option" where
  "traces_read_entry count alloc fault entry_size d =
     (if count < entry_size then Some (Rd_return (- EMSGSIZE) [], d)
      else do {
        ((entry, entry_size), log) \<leftarrow> log_trace_get_next alloc (dg_log d);
        let d = d\<lparr>dg_log := log\<rparr>;
        case entry of
          None \<Rightarrow> Some (Rd_return 0 [], d)
        | Some bytes \<Rightarrow>
            Some (if fault then Rd_return (- EFAULT) [] else Rd_return (int entry_size) bytes, d)
      })"

text \<open>The reader sleeps (\<open>Rd_wait\<close>) when there is no entry and the file is not \<open>O_NONBLOCK\<close>.\<close>

definition debug_traces_read ::
  "bool \<Rightarrow> nat \<Rightarrow> bool \<Rightarrow> bool \<Rightarrow> debug \<Rightarrow> (traces_result \<times> debug) option" where
  "debug_traces_read nonblock count alloc fault d =
     (if \<not> dg_trace_ops d then Some (Rd_return (- ENOSYS) [], d)
      else do {
        (entry_size, log) \<leftarrow> log_trace_get_next_size (dg_log d);
        let d = d\<lparr>dg_log := log\<rparr>;
        if entry_size = 0 then Some (if nonblock then Rd_return 0 [] else Rd_wait, d)
        else traces_read_entry count alloc fault entry_size d
      })"

text \<open>
  The sleeping reader, woken or interrupted by a signal: \<open>wait_event_interruptible\<close> looks at its
  condition first, and returns \<open>-ERESTARTSYS\<close> when it does not hold and there is a signal.  Its result
  is stored in a \<open>uint16_t\<close>.
\<close>

definition debug_traces_read_woken ::
  "bool \<Rightarrow> nat \<Rightarrow> bool \<Rightarrow> bool \<Rightarrow> debug \<Rightarrow> (traces_result \<times> debug) option" where
  "debug_traces_read_woken signal count alloc fault d = do {
     (entry_size, log) \<leftarrow> log_trace_get_next_size (dg_log d);
     let d = d\<lparr>dg_log := log\<rparr>;
     if entry_size = 0 then Some (if signal then Rd_return ((- ERESTARTSYS) mod 65536) [] else Rd_wait, d)
     else traces_read_entry count alloc fault entry_size d
   }"

definition debug_traces_poll :: "debug \<Rightarrow> bool" where
  "debug_traces_poll d \<longleftrightarrow> dg_trace_ops d \<and> log_trace_next_avail (dg_log d)"

text \<open>\<open>debug_new_trace_available\<close>: which open file is told, beside the sleeping readers.\<close>

definition debug_new_trace_available :: "debug \<Rightarrow> nat option" where
  "debug_new_trace_available d = dg_pv_filp d"

section \<open>The enable and log level files\<close>

text \<open>
  \<open>simple_read_from_buffer\<close>, by its documentation: the bytes from the file position on, as many as fit,
  and the position after them.
\<close>

definition simple_read_from_buffer ::
  "nat \<Rightarrow> nat \<Rightarrow> byte list \<Rightarrow> bool \<Rightarrow> int \<times> byte list \<times> nat" where
  "simple_read_from_buffer count off from fault =
     (let bytes = take count (drop off from)
      in if bytes = [] then (0, [], off)
         else if fault then (- EFAULT, [], off)
         else (int (length bytes), bytes, off + length bytes))"

definition digit :: "nat \<Rightarrow> byte" where
  "digit n = of_nat (n + 48)"

definition debug_enable_write ::
  "nat option \<Rightarrow> nat \<Rightarrow> int \<Rightarrow> debug \<Rightarrow> (int \<times> log_packet option \<times> debug) option" where
  "debug_enable_write parsed count ret d =
     (case parsed of
        None \<Rightarrow> Some (- EFAULT, None, d)
      | Some enabled \<Rightarrow>
          if \<not> dg_trace_ops d then Some (- ENOSYS, None, d)
          else do {
            (log, p, heap) \<leftarrow> log_enable_set (dg_log d) (enabled = 1) ret (dg_heap d);
            Some (int count, p, d\<lparr>dg_log := log, dg_heap := heap\<rparr>)
          })"

definition debug_enable_read :: "nat \<Rightarrow> nat \<Rightarrow> bool \<Rightarrow> debug \<Rightarrow> int \<times> byte list \<times> nat" where
  "debug_enable_read count off fault d =
     (if \<not> dg_trace_ops d then (- ENOSYS, [], off)
      else simple_read_from_buffer count off [digit (if log_enable_get (dg_log d) then 1 else 0), 10] fault)"

text \<open>The module of the file: array \<open>k\<close>, index \<open>i\<close>.\<close>

definition debug_log_level_write ::
  "nat option \<Rightarrow> nat \<Rightarrow> nat \<Rightarrow> nat \<Rightarrow> int \<Rightarrow> debug \<Rightarrow> (int \<times> log_packet option \<times> debug) option" where
  "debug_log_level_write parsed count k i ret d =
     (case parsed of
        None \<Rightarrow> Some (- EFAULT, None, d)
      | Some lvl \<Rightarrow> do {
          _ \<leftarrow> module_deref (dg_log d) k i;
          if \<not> dg_trace_ops d then Some (- ENOSYS, None, d)
          else do {
            (p, heap) \<leftarrow> log_level_set (dg_log d) k i lvl ret (dg_heap d);
            Some (int count, p, d\<lparr>dg_heap := heap\<rparr>)
          }
        })"

text \<open>\<open>debug_log_level_read\<close> with the level that \<open>level_get\<close> returned, after its wait if it waits.\<close>

definition debug_log_level_read :: "nat \<Rightarrow> nat \<Rightarrow> bool \<Rightarrow> nat option \<Rightarrow> int \<times> byte list \<times> nat" where
  "debug_log_level_read count off fault level =
     (case level of
        None \<Rightarrow> (- ENOSYS, [], off)
      | Some lvl \<Rightarrow> simple_read_from_buffer count off [digit lvl, 10] fault)"

section \<open>The coredump file\<close>

text \<open>The bytes are copied through the pointer that \<open>coredump_get\<close> returned before.\<close>

definition read_coredump_at ::
  "nat \<Rightarrow> nat \<Rightarrow> bool \<Rightarrow> kptr \<times> nat \<Rightarrow> kheap \<Rightarrow> (int \<times> byte list \<times> nat) option" where
  "read_coredump_at count off fault cd h = do {
     let n = min count (snd cd - off);
     bytes \<leftarrow> heap_read h (fst cd) off n;
     Some (if n = 0 then (0, [], off) else if fault then (- EFAULT, [], off) else (int n, bytes, off + n))
   }"

definition debug_coredump_read ::
  "nat \<Rightarrow> nat \<Rightarrow> bool \<Rightarrow> debug \<Rightarrow> (int \<times> byte list \<times> nat) option" where
  "debug_coredump_read count off fault d =
     (if \<not> dg_coredump_ops d then Some (- ENOSYS, [], off)
      else read_coredump_at count off fault (debug_coredump_get (dg_coredump d)) (dg_heap d))"

definition debug_coredump_write ::
  "nat option \<Rightarrow> nat \<Rightarrow> debug \<Rightarrow> (int \<times> coredump_packet option \<times> debug) option" where
  "debug_coredump_write parsed count d =
     (case parsed of
        None \<Rightarrow> Some (- EFAULT, None, d)
      | Some force \<Rightarrow>
          if dg_coredump_ops d \<and> force \<noteq> 0 then do {
            (p, heap) \<leftarrow> debug_coredump_force (dg_heap d);
            Some (int count, p, d\<lparr>dg_heap := heap\<rparr>)
          }
          else if force = 0 then Some (int count, None, d)
          else Some (- ENOSYS, None, d))"

section \<open>The files of the chip\<close>

definition debug_hw_reset_write ::
  "('l, 'b) await \<Rightarrow> nat option \<Rightarrow> nat \<Rightarrow> ('l, 'b, 'w) qm35 \<Rightarrow> int \<times> ('l, 'b, 'w) qm35" where
  "debug_hw_reset_write await parsed count s =
     (case parsed of
        None \<Rightarrow> (- EFAULT, s)
      | Some reset \<Rightarrow>
          let (ret, s) = (if reset \<noteq> 0 then qm35_reset_sync await s else (- 1, s))
          in (if ret \<noteq> 0 then - ENOSYS else int count, s))"

text \<open>The hexadecimal digits that \<open>%x\<close> prints.\<close>

definition hex_digit :: "nat \<Rightarrow> byte" where
  "hex_digit n = (if n < 10 then of_nat (n + 48) else of_nat (n + 87))"

definition hex_byte :: "byte \<Rightarrow> byte list" where
  "hex_byte b = [hex_digit (unat b div 16), hex_digit (unat b mod 16)]"

text \<open>Two of the operations in \<open>debug_trace_ops\<close> (hsspi_log.c), which ask the driver.\<close>

definition get_dev_id :: "('l, 'b, 'w) qm35 \<Rightarrow> int \<times> nat" where
  "get_dev_id s = qm_get_dev_id s"

definition get_soc_id :: "('l, 'b, 'w) qm35 \<Rightarrow> int \<times> byte list" where
  "get_soc_id s = qm_get_soc_id s"

text \<open>\<open>"deca%04x"\<close> and \<open>"%*phN"\<close>, each with a newline; nothing without the operations.\<close>

definition debug_devid_show :: "bool \<Rightarrow> ('l, 'b, 'w) qm35 \<Rightarrow> int \<times> byte list" where
  "debug_devid_show trace_ops s =
     (if trace_ops then
        (let (rc, dev_id) = get_dev_id s
         in if rc < 0 then (- 5, [])
            else (0, [100, 101, 99, 97] @ concat (map hex_byte (rev (le16_bytes (u16 dev_id)))) @ [10]))
      else (0, []))"

definition debug_socid_show :: "bool \<Rightarrow> ('l, 'b, 'w) qm35 \<Rightarrow> int \<times> byte list" where
  "debug_socid_show trace_ops s =
     (if trace_ops then
        (let (rc, soc_id) = get_soc_id s
         in if rc < 0 then (- 5, []) else (0, concat (map hex_byte soc_id) @ [10]))
      else (0, []))"

section \<open>Creating the files\<close>

datatype debug_entry =
    Dir_uwb0 | Dir_fw | Dir_chip
  | File_hw_reset | File_enable | File_traces | File_coredump | File_test_sleep
  | File_dev_id | File_soc_id
  | Dir_module "byte list" | File_log_level "byte list"
  | File_rom_probe | File_rom_flash_dbg_cert | File_rom_erase_dbg_cert | File_rom_flash_fw

text \<open>
  Create the entries in order until one fails: whether all were created, and the entries that now exist.
\<close>

fun create_entries :: "(debug_entry \<Rightarrow> bool) \<Rightarrow> debug_entry list \<Rightarrow> debug_entry list \<Rightarrow> bool \<times> debug_entry list" where
  "create_entries created [] es = (True, es)"
| "create_entries created (x # xs) es =
     (if created x then create_entries created xs (es @ [x]) else (False, es))"

definition debug_init_root :: "(debug_entry \<Rightarrow> bool) \<Rightarrow> debug_entry list \<Rightarrow> int \<times> debug_entry list" where
  "debug_init_root created es =
     (let (ok, es) = create_entries created [Dir_uwb0] es in (if ok then 0 else - 1, es))"

text \<open>The files of \<open>debug_qmrom.c\<close>; whether they could be created is not reported.\<close>

definition debug_rom_code_init :: "(debug_entry \<Rightarrow> bool) \<Rightarrow> debug_entry list \<Rightarrow> debug_entry list" where
  "debug_rom_code_init created es =
     snd (create_entries created [File_rom_probe, File_rom_flash_dbg_cert, File_rom_erase_dbg_cert, File_rom_flash_fw] es)"

text \<open>\<open>debug_deinit\<close> wakes the readers and removes the root directory with all that it holds.\<close>

definition debug_deinit :: "debug_entry list \<Rightarrow> debug_entry list" where
  "debug_deinit es = []"

definition debug_init_files :: "(debug_entry \<Rightarrow> bool) \<Rightarrow> debug_entry list \<Rightarrow> int \<times> debug_entry list" where
  "debug_init_files created es =
     (let (ok, es) = create_entries created
            [Dir_fw, Dir_chip, File_hw_reset, File_enable, File_traces, File_coredump, File_test_sleep] es
      in if ok then (0, debug_rom_code_init created es) else (- 1, debug_deinit es))"

definition debug_init :: "(debug_entry \<Rightarrow> bool) \<Rightarrow> debug_entry list \<Rightarrow> debug \<Rightarrow> int \<times> debug_entry list \<times> debug" where
  "debug_init created es d =
     (let (rc, es) = debug_init_files created es in (rc, es, d\<lparr>dg_pv_filp := None\<rparr>))"

definition debug_create_module_entry ::
  "(debug_entry \<Rightarrow> bool) \<Rightarrow> byte list \<Rightarrow> debug_entry list \<Rightarrow> int \<times> debug_entry list" where
  "debug_create_module_entry created name es =
     (let (ok, es) = create_entries created [Dir_module name, File_log_level name] es
      in (if ok then 0 else - 1, es))"

definition chip_entries :: "debug_entry set" where
  "chip_entries = {Dir_chip, File_hw_reset, File_dev_id, File_soc_id}"

definition debug_soc_info_available :: "(debug_entry \<Rightarrow> bool) \<Rightarrow> debug_entry list \<Rightarrow> debug_entry list" where
  "debug_soc_info_available created es =
     (let (ok, es) = create_entries created [File_dev_id, File_soc_id] es
      in if ok then es else filter (\<lambda>x. x \<notin> chip_entries) es)"

end
