(* ===== verification/Debug_Props.thy ===== *)
theory Debug_Props
  imports Debug Log_Props Coredump_Props
begin

text \<open>
  The files of debugfs.  With the log layer behind it, the traces file is a \<open>trace_store\<close>: what the
  firmware sends as trace notifications comes out of the file.  The other properties are the results of
  a read in every situation and the coredump file.
\<close>

section \<open>The traces file as a trace store\<close>

definition dg_inv :: "debug \<Rightarrow> bool" where
  "dg_inv d \<longleftrightarrow> dg_trace_ops d \<and> log_inv (dg_log d) (dg_heap d) \<and> oracle_total (dg_heap d)"

text \<open>
  The two ends: a trace notification received through the core, and a read of the file that does not
  wait, with room for any entry.  A new reader opens the file after the last one has closed it.
\<close>

definition dg_receive :: "byte list \<Rightarrow> debug \<Rightarrow> debug option" where
  "dg_receive bytes d =
     map_option (\<lambda>(_, _, log, heap). d\<lparr>dg_log := log, dg_heap := heap\<rparr>)
       (rx_cycle log_get log_received bytes 0 (dg_log d) (dg_heap d))"

definition trace_ntf :: "byte list \<Rightarrow> byte list" where
  "trace_ntf data = log_packet_hdr LOG_CID_TRACE_NTF (length data) @ data"

definition dg_trace :: "debug \<Rightarrow> byte list \<Rightarrow> debug option" where
  "dg_trace d data = dg_receive (trace_ntf data) d"

definition dg_read :: "debug \<Rightarrow> (byte list option \<times> debug) option" where
  "dg_read d =
     (case debug_traces_read True 65535 True False d of
        Some (Rd_return r bytes, d') \<Rightarrow> Some (if 0 < r then Some bytes else None, d')
      | _ \<Rightarrow> None)"

definition dg_reopen :: "nat \<Rightarrow> debug \<Rightarrow> debug" where
  "dg_reopen filep d = snd (debug_traces_open filep (snd (debug_traces_release d)))"

definition dg_log_entries :: "debug \<Rightarrow> byte list list" where
  "dg_log_entries d = rb_log (lg_rb (dg_log d))"

definition dg_unread :: "debug \<Rightarrow> byte list list" where
  "dg_unread d = rb_unread (lg_rb (dg_log d))"

lemmas dg_defs = dg_inv_def dg_log_entries_def dg_unread_def

lemma dg_inv_rb: "dg_inv d \<Longrightarrow> rb_inv 65535 (lg_rb (dg_log d))"
  by (simp add: dg_inv_def log_inv_def)

lemma dg_inv_update_rb:
  "dg_inv d \<Longrightarrow> rb_inv 65535 rb \<Longrightarrow> dg_inv (d\<lparr>dg_log := (dg_log d)\<lparr>lg_rb := rb\<rparr>\<rparr>)"
  by (simp add: dg_inv_def log_inv_rb)

section \<open>Results of reading\<close>

text \<open>The next entry is looked up: the lookup alone does not change what is unread.\<close>

lemma next_size_ok:
  assumes "dg_inv d"
  shows "\<exists>log. log_trace_get_next_size (dg_log d) = Some ((case dg_unread d of [] \<Rightarrow> 0 | e # _ \<Rightarrow> length e), log) \<and>
    dg_inv (d\<lparr>dg_log := log\<rparr>) \<and> dg_unread (d\<lparr>dg_log := log\<rparr>) = dg_unread d \<and>
    dg_log_entries (d\<lparr>dg_log := log\<rparr>) = dg_log_entries d"
proof (cases "dg_unread d")
  case Nil
  then show ?thesis using assms rb_next_size_Nil [OF dg_inv_rb [OF assms]]
    by (simp add: log_trace_get_next_size_def dg_defs)
next
  case (Cons e es)
  then obtain rb where "rb_next_size (lg_rb (dg_log d)) = Some (length e, rb)" "rb_inv 65535 rb"
    "rb_unread rb = e # es" "rb_log rb = rb_log (lg_rb (dg_log d))"
    using rb_next_size_Cons [OF dg_inv_rb [OF assms]] by (auto simp: dg_unread_def)
  then show ?thesis using Cons assms log_inv_rb
    by (auto simp: log_trace_get_next_size_def dg_defs)
qed

lemma unread_size:
  assumes "dg_inv d" "dg_unread d = e # es"
  shows "0 < length e" "length e \<le> 65535"
proof -
  obtain r where r: "rb_next_size_from (lg_rb (dg_log d)) (rb_rdtail (lg_rb (dg_log d))) = Some (length e, r)"
    "0 < length e"
    using rb_next_entry [OF dg_inv_rb [OF assms(1)] assms(2) [unfolded dg_unread_def]]
    unfolding rb_entry_at_def by metis
  show "0 < length e" by (rule r(2))
  have "length e < 65536" using r
    by (auto simp: rb_next_size_from_def split: if_splits Option.bind_splits dest: u16_at_less)
  then show "length e \<le> 65535" by simp
qed

text \<open>With the next entry \<open>e\<close>: too small a buffer leaves it, a fault loses it.\<close>

lemma read_entry_ok:
  assumes inv: "dg_inv d" and u: "dg_unread d = e # es"
  shows "\<exists>d'. traces_read_entry count True fault (length e) d =
      Some (if count < length e then Rd_return (- EMSGSIZE) []
            else if fault then Rd_return (- EFAULT) [] else Rd_return (int (length e)) e, d') \<and>
    dg_inv d' \<and> dg_unread d' = (if count < length e then e # es else es) \<and>
    dg_log_entries d' = dg_log_entries d \<and> dg_pv_filp d' = dg_pv_filp d"
proof (cases "count < length e")
  case True
  then show ?thesis using assms by (simp add: traces_read_entry_def)
next
  case False
  obtain rb where p: "rb_pop True (lg_rb (dg_log d)) = Some ((Some e, length e), rb)" "rb_inv 65535 rb"
    "rb_unread rb = es" "rb_log rb = rb_log (lg_rb (dg_log d))"
    using rb_pop_Cons [OF dg_inv_rb [OF inv]] u unfolding dg_unread_def by blast
  have "dg_inv (d\<lparr>dg_log := (dg_log d)\<lparr>lg_rb := rb\<rparr>\<rparr>)" by (rule dg_inv_update_rb [OF inv p(2)])
  then show ?thesis using False p
    by (auto simp: traces_read_entry_def log_trace_get_next_def dg_log_entries_def dg_unread_def)
qed

definition next_result :: "nat \<Rightarrow> bool \<Rightarrow> byte list \<Rightarrow> traces_result" where
  "next_result count fault e =
     (if count < length e then Rd_return (- EMSGSIZE) []
      else if fault then Rd_return (- EFAULT) [] else Rd_return (int (length e)) e)"

definition left_unread :: "nat \<Rightarrow> byte list list \<Rightarrow> byte list list" where
  "left_unread count es = (case es of [] \<Rightarrow> [] | e # es \<Rightarrow> if count < length e then e # es else es)"

lemma traces_read_ok:
  assumes inv: "dg_inv d"
  shows "\<exists>d'. debug_traces_read nonblock count True fault d =
      Some (case dg_unread d of [] \<Rightarrow> (if nonblock then Rd_return 0 [] else Rd_wait) | e # _ \<Rightarrow> next_result count fault e, d') \<and>
      dg_inv d' \<and> dg_unread d' = left_unread count (dg_unread d) \<and> dg_log_entries d' = dg_log_entries d \<and>
      dg_pv_filp d' = dg_pv_filp d"
    "\<exists>d'. debug_traces_read_woken signal count True fault d =
      Some (case dg_unread d of [] \<Rightarrow> (if signal then Rd_return 65024 [] else Rd_wait) | e # _ \<Rightarrow> next_result count fault e, d') \<and>
      dg_inv d' \<and> dg_unread d' = left_unread count (dg_unread d) \<and> dg_log_entries d' = dg_log_entries d \<and>
      dg_pv_filp d' = dg_pv_filp d"
proof -
  obtain log where n: "log_trace_get_next_size (dg_log d) = Some ((case dg_unread d of [] \<Rightarrow> 0 | e # _ \<Rightarrow> length e), log)"
    and d: "dg_inv (d\<lparr>dg_log := log\<rparr>)" "dg_unread (d\<lparr>dg_log := log\<rparr>) = dg_unread d"
      "dg_log_entries (d\<lparr>dg_log := log\<rparr>) = dg_log_entries d"
    using next_size_ok [OF inv] by blast
  have t: "dg_trace_ops d" using inv by (simp add: dg_inv_def)
  show "\<exists>d'. debug_traces_read nonblock count True fault d =
      Some (case dg_unread d of [] \<Rightarrow> (if nonblock then Rd_return 0 [] else Rd_wait) | e # _ \<Rightarrow> next_result count fault e, d') \<and>
      dg_inv d' \<and> dg_unread d' = left_unread count (dg_unread d) \<and> dg_log_entries d' = dg_log_entries d \<and>
      dg_pv_filp d' = dg_pv_filp d"
  proof (cases "dg_unread d")
    case Nil
    then show ?thesis using n d t by (simp add: debug_traces_read_def left_unread_def)
  next
    case (Cons e es)
    then show ?thesis using read_entry_ok [OF d(1), of e es count fault] d n t unread_size [OF inv Cons]
      by (auto simp: debug_traces_read_def next_result_def left_unread_def)
  qed
  show "\<exists>d'. debug_traces_read_woken signal count True fault d =
      Some (case dg_unread d of [] \<Rightarrow> (if signal then Rd_return 65024 [] else Rd_wait) | e # _ \<Rightarrow> next_result count fault e, d') \<and>
      dg_inv d' \<and> dg_unread d' = left_unread count (dg_unread d) \<and> dg_log_entries d' = dg_log_entries d \<and>
      dg_pv_filp d' = dg_pv_filp d"
  proof (cases "dg_unread d")
    case Nil
    then show ?thesis using n d by (simp add: debug_traces_read_woken_def left_unread_def)
  next
    case (Cons e es)
    then show ?thesis using read_entry_ok [OF d(1), of e es count fault] d n unread_size [OF inv Cons]
      by (auto simp: debug_traces_read_woken_def next_result_def left_unread_def)
  qed
qed

section \<open>From the firmware to the reader\<close>

lemma trace_ntf_parts:
  assumes "length data < 65532"
  shows "length (trace_ntf data) = length data + 4" "le16 (chunk (trace_ntf data) 2 2) = length data"
    "le16 (chunk (trace_ntf data) 0 2) = LOG_CID_TRACE_NTF" "chunk (trace_ntf data) 4 (length data) = data"
proof -
  have t: "trace_ntf data = le16_bytes LOG_CID_TRACE_NTF @ le16_bytes (length data) @ data"
    by (simp add: trace_ntf_def log_packet_hdr_def)
  show "length (trace_ntf data) = length data + 4" by (simp add: t)
  have "chunk (trace_ntf data) 2 2 = le16_bytes (length data)"
    using chunk_append_at [of "le16_bytes LOG_CID_TRACE_NTF" "le16_bytes (length data)" data] by (simp add: t)
  then show "le16 (chunk (trace_ntf data) 2 2) = length data" using assms by simp
  have "chunk (trace_ntf data) 0 2 = le16_bytes LOG_CID_TRACE_NTF"
    using chunk_prefix [of "le16_bytes LOG_CID_TRACE_NTF"] by (simp add: t)
  then show "le16 (chunk (trace_ntf data) 0 2) = LOG_CID_TRACE_NTF" by (simp add: LOG_CID_TRACE_NTF_def)
  show "chunk (trace_ntf data) 4 (length data) = data"
    using chunk_append_at [of "le16_bytes LOG_CID_TRACE_NTF @ le16_bytes (length data)" data "[]"] by (simp add: t)
qed

lemma log_cycle_ok:
  assumes inv: "log_inv l h" and ot: "oracle_total h" and d: "data \<noteq> []" "length data < 65532"
  shows "\<exists>l' h' k. rx_cycle log_get log_received (trace_ntf data) 0 l h = Some (True, [], l', h') \<and> log_inv l' h' \<and>
    oracle_total h' \<and> live h' = live h \<and> rb_log (lg_rb l') = drop k (rb_log (lg_rb l)) @ [data]"
proof -
  note t = trace_ntf_parts [OF d(2)]
  have ok: "heap_ok h" using inv by (simp add: log_inv_def)
  have n: "length (trace_ntf data) < 65536" using d(2) t(1) by simp
  obtain b h1 where a: "log_packet_alloc (length (trace_ntf data)) h = Some (b, h1)" "heap_ok h1" "frame {} h h1"
    "case b of None \<Rightarrow> \<not> oracle_total h \<and> live h1 = live h
     | Some p \<Rightarrow> fresh_block h h1 (length (trace_ntf data)) p \<and> live h1 = live h \<union> blk_keys p"
    using coredump_packet_alloc_ok [OF ok n] unfolding log_packet_eqs by blast
  then obtain p where p: "b = Some p" "fresh_block h h1 (length (trace_ntf data)) p" "live h1 = live h \<union> blk_keys p"
    using ot by (cases b) auto
  obtain h2 where w: "heap_write h1 (blk_data p) 0 (trace_ntf data) = Some h2" "block_holds h2 p (trace_ntf data)"
    "frame (blk_keys p) h1 h2" "hp_next h2 = hp_next h1" "live h2 = live h1"
    using fill_block [OF p(2) refl] by blast
  have ok2: "heap_ok h2" using a(2) w by (simp add: heap_ok_iff_live)
  have i2: "log_inv l h2" by (rule log_inv_heap [OF inv ok2])
  have e: "\<not> ((0::int) \<noteq> 0 \<or> length (trace_ntf data) < 4 + le16 (chunk (trace_ntf data) 2 2))"
    "le16 (chunk (trace_ntf data) 2 2) \<noteq> 0" using t d by auto
  obtain l' h' k where r: "log_received l p 0 h2 = Some (l', [], h')" "log_inv l' h'" "live h' = live h2 - blk_keys p"
    "rb_log (lg_rb l') = drop k (rb_log (lg_rb l)) @ [data]"
    using trace_received_ok [OF i2 w(2), of 0] t(3,4) t(2) d e by auto
  have rx: "rx_cycle log_get log_received (trace_ntf data) 0 l h = Some (True, [], l', h')"
    using a(1) p(1) w(1) r(1) by (simp add: rx_cycle_def log_get_def)
  have m: "(0::int) = 0 \<Longrightarrow> log_msg_ok l (trace_ntf data)"
    using t(3) by (simp add: log_msg_ok_def log_cids)
  have "oracle_total h'" using log_ul.rx_cycle_ok [OF inv n m, of 0] ot rx
    by (auto simp: frame_def oracle_total_def)
  moreover have "live h' = live h"
  proof -
    have "k \<notin> blk_keys p" if "k \<in> live h" for k
      using p(2) ok that by (force simp: fresh_block_def heap_ok_iff_live)
    then show ?thesis using r(3) w(5) p(3) by auto
  qed
  ultimately show ?thesis using rx r by blast
qed

lemma dg_trace_ok:
  assumes "dg_inv d" "data \<noteq> []" "length data \<le> 65531"
  shows "\<exists>d' k. dg_trace d data = Some d' \<and> dg_inv d' \<and> dg_log_entries d' = drop k (dg_log_entries d) @ [data]"
proof -
  have i: "log_inv (dg_log d) (dg_heap d)" "oracle_total (dg_heap d)" "length data < 65532"
    using assms by (simp_all add: dg_inv_def)
  obtain l' h' k where "rx_cycle log_get log_received (trace_ntf data) 0 (dg_log d) (dg_heap d) = Some (True, [], l', h')"
    "log_inv l' h'" "oracle_total h'" "rb_log (lg_rb l') = drop k (rb_log (lg_rb (dg_log d))) @ [data]"
    using log_cycle_ok [OF i(1,2) assms(2) i(3)] by blast
  then show ?thesis using assms(1) by (auto simp: dg_trace_def dg_receive_def dg_defs)
qed

lemma dg_reopen_ok:
  assumes "dg_inv d"
  shows "dg_inv (dg_reopen f d)" "dg_unread (dg_reopen f d) = dg_log_entries d"
    "dg_log_entries (dg_reopen f d) = dg_log_entries d"
  using assms rb_inv_tail [OF dg_inv_rb [OF assms]] rb_reset_entries
  by (simp_all add: dg_reopen_def debug_traces_open_def debug_traces_release_def dg_defs log_trace_reset_def log_inv_rb Let_def)

interpretation traces_file: trace_store 65531 dg_inv dg_trace dg_read "dg_reopen f" dg_log_entries dg_unread
  for f
proof
  fix d and data :: "byte list"
  assume "dg_inv d" "data \<noteq> []" "length data \<le> 65531"
  then show "\<exists>d' k. dg_trace d data = Some d' \<and> dg_inv d' \<and> dg_log_entries d' = drop k (dg_log_entries d) @ [data]"
    by (rule dg_trace_ok)
next
  fix d assume i: "dg_inv d" and u: "dg_unread d = []"
  have "debug_traces_read True 65535 True False d = Some (Rd_return 0 [], d)"
    using i u rb_next_size_Nil [OF dg_inv_rb [OF i]]
    by (simp add: debug_traces_read_def log_trace_get_next_size_def dg_unread_def dg_inv_def)
  then show "dg_read d = Some (None, d)" by (simp add: dg_read_def)
next
  fix d data es assume i: "dg_inv d" and u: "dg_unread d = data # es"
  show "\<exists>d'. dg_read d = Some (Some data, d') \<and> dg_inv d' \<and> dg_unread d' = es \<and> dg_log_entries d' = dg_log_entries d"
    using traces_read_ok(1) [OF i, of True 65535 False] u unread_size [OF i u]
    by (auto simp: dg_read_def next_result_def left_unread_def)
qed (simp_all add: dg_reopen_ok)

lemma dg_trace_pv: "dg_trace d data = Some d' \<Longrightarrow> dg_pv_filp d' = dg_pv_filp d"
  by (auto simp: dg_trace_def dg_receive_def)

lemma push_all_pv: "push_all dg_trace d ds = Some d' \<Longrightarrow> dg_pv_filp d' = dg_pv_filp d"
  by (induction ds arbitrary: d) (auto split: Option.bind_splits dest: dg_trace_pv)

lemma dg_read_pv: "dg_inv d \<Longrightarrow> dg_read d = Some (r, d') \<Longrightarrow> dg_pv_filp d' = dg_pv_filp d \<and> dg_inv d'"
  using traces_read_ok(1) [of d True 65535 False] by (auto simp: dg_read_def split: traces_result.splits)

lemma drain_pv: "dg_inv d \<Longrightarrow> drain dg_read n d = Some (ds, d') \<Longrightarrow> dg_pv_filp d' = dg_pv_filp d"
proof (induction n arbitrary: d ds)
  case (Suc n)
  obtain r d1 where r: "dg_read d = Some (r, d1)" using Suc.prems(2) by (cases "dg_read d") auto
  note 1 = dg_read_pv [OF Suc.prems(1) r]
  show ?case
  proof (cases r)
    case None
    then show ?thesis using Suc.prems(2) r 1 by simp
  next
    case (Some x)
    then obtain es where "drain dg_read n d1 = Some (es, d')"
      using Suc.prems(2) r by (cases "drain dg_read n d1") auto
    then have "dg_pv_filp d' = dg_pv_filp d1" using Suc.IH [of d1 es] 1 by blast
    then show ?thesis using 1 by simp
  qed
qed simp

section \<open>Reading the coredump file\<close>

text \<open>Successive reads with buffers of the given sizes.\<close>

fun read_coredump_file :: "nat list \<Rightarrow> nat \<Rightarrow> debug \<Rightarrow> (byte list \<times> nat) option" where
  "read_coredump_file [] off d = Some ([], off)"
| "read_coredump_file (n # ns) off d = do {
     (_, bytes, off) \<leftarrow> debug_coredump_read n off False d;
     (rest, off) \<leftarrow> read_coredump_file ns off d;
     Some (bytes @ rest, off)
   }"

lemma coredump_pointer_read:
  assumes "cd_inv l h" "cd_bytes l h = Some bs" "off + n \<le> length bs"
  shows "heap_read h (cd_data l) off n = Some (chunk bs off n)"
proof (cases "n = 0")
  case False
  obtain full where f: "heap_bytes h (cd_data l) = Some full" "bs = take (cd_wr_idx l) full"
    using assms(2) by (auto simp: cd_bytes_def)
  have w: "length bs = cd_wr_idx l" by (rule cd_bytes_facts(1) [OF assms(1,2)])
  then have "off + n \<le> length full" using f(2) assms(3) by simp
  moreover have "chunk full off n = chunk bs off n"
    using f(2) w assms(3) by (simp add: chunk_def drop_take min_def)
  ultimately show ?thesis using f(1) heap_read_bytes by metis
qed simp

lemma coredump_read_ok:
  assumes "dg_coredump_ops d" "cd_inv (dg_coredump d) (dg_heap d)" "cd_bytes (dg_coredump d) (dg_heap d) = Some bs"
    and off: "off \<le> length bs"
  shows "debug_coredump_read n off False d =
    Some (int (min n (length bs - off)), chunk bs off (min n (length bs - off)), off + min n (length bs - off))"
proof -
  have w: "cd_wr_idx (dg_coredump d) = length bs" using cd_bytes_facts(1) [OF assms(2,3)] by simp
  have "heap_read (dg_heap d) (cd_data (dg_coredump d)) off (min n (length bs - off)) =
      Some (chunk bs off (min n (length bs - off)))"
    by (rule coredump_pointer_read [OF assms(2,3)]) (use off in simp)
  then show ?thesis using assms(1) w off
    by (cases "min n (length bs - off) = 0") (simp_all add: debug_coredump_read_def read_coredump_at_def debug_coredump_get_def Let_def)
qed

lemma read_file_ok:
  assumes "dg_coredump_ops d" "cd_inv (dg_coredump d) (dg_heap d)" "cd_bytes (dg_coredump d) (dg_heap d) = Some bs"
    and "off \<le> length bs"
  shows "read_coredump_file ns off d = Some (take (sum_list ns) (drop off bs), min (length bs) (off + sum_list ns))"
  using assms(4)
proof (induction ns arbitrary: off)
  case (Cons n ns)
  let ?m = "min n (length bs - off)"
  have "read_coredump_file ns (off + ?m) d =
      Some (take (sum_list ns) (drop (off + ?m) bs), min (length bs) (off + ?m + sum_list ns))"
    by (rule Cons.IH) (use Cons.prems in simp)
  moreover have "chunk bs off ?m @ take (sum_list ns) (drop (off + ?m) bs) = take (n + sum_list ns) (drop off bs)"
  proof (cases "n \<le> length bs - off")
    case True
    then show ?thesis by (simp add: chunk_def take_add add.commute)
  next
    case False
    then show ?thesis by (simp add: chunk_def)
  qed
  moreover have "min (length bs) (off + ?m + sum_list ns) = min (length bs) (off + (n + sum_list ns))" by simp
  ultimately show ?case using coredump_read_ok [OF assms(1-3) Cons.prems, of n] by simp
qed simp

section \<open>Properties\<close>

definition traces_device :: "log_layer \<Rightarrow> kheap \<Rightarrow> debug" where
  "traces_device l h = \<lparr>dg_trace_ops = True, dg_coredump_ops = True, dg_pv_filp = None, dg_log = l,
     dg_coredump = coredump_layer_init, dg_heap = h\<rparr>"





text \<open>
  Claim C30. The coredump file.  After a complete transfer from the firmware, successive reads with
  buffers of any sizes return the bytes that the firmware sent, in order, up to as many as the buffers
  hold together.  But nothing protects a read under way: when a new header arrives between
  \<open>coredump_get\<close> and the copy, the read goes through a pointer to freed memory.
\<close>

theorem debug_coredump_file:
  assumes inv: "cd_inv l h" "oracle_total h"
    and hdr: "6 \<le> length hdr" "length hdr < 65535" "le32 (chunk hdr 0 4) = length (concat bodies)"
    and size: "length (concat bodies) + 65535 < 4294967296"
    and bodies: "bodies \<noteq> []" "[] \<notin> set bodies" "\<forall>b \<in> set bodies. length b < 65535"
    and d: "dg_coredump_ops d"
    and new: "0 < chn_size chn" "chn_size chn + 65535 < 4294967296" "0 < count"
  shows "\<exists>msgs l' h' l'' h''. cd_session ((COREDUMP_HEADER_NTF # hdr) # map ((#) COREDUMP_BODY_NTF) bodies) l h =
      Some (msgs, l', h') \<and>
    read_coredump_file ns 0 (d\<lparr>dg_coredump := l', dg_heap := h'\<rparr>) =
      Some (take (sum_list ns) (concat bodies), min (length (concat bodies)) (sum_list ns)) \<and>
    coredump_header_ntf_received l' chn h' = Some (l'', h'') \<and>
    (hp_oracle h' (hp_next h') \<noteq> None \<longrightarrow> read_coredump_at count 0 False (debug_coredump_get l') h'' = None)"
proof -
  let ?bs = "concat bodies"
  obtain msgs l' h' where s: "cd_session ((COREDUMP_HEADER_NTF # hdr) # map ((#) COREDUMP_BODY_NTF) bodies) l h =
      Some (msgs, l', h')" and b: "cd_bytes l' h' = Some ?bs" and g: "debug_coredump_get l' = (cd_data l', length ?bs)"
    and i: "cd_inv l' h'"
    using coredump_transfer_ok [OF inv hdr size bodies] by blast
  let ?d = "d\<lparr>dg_coredump := l', dg_heap := h'\<rparr>"
  have r: "read_coredump_file ns 0 ?d = Some (take (sum_list ns) ?bs, min (length ?bs) (sum_list ns))"
    using read_file_ok [of ?d ?bs 0 ns] d i b by simp
  have ne: "0 < length ?bs" using bodies by (cases bodies) auto
  then obtain k bs where k: "cd_data l' = Ptr k" "hp_mem h' k = Some bs"
    using b i by (cases "cd_data l'") (auto simp: cd_bytes_def cd_inv_def)
  have "k \<noteq> hp_next h'" using k heap_ok_live [of h' k bs] i by (auto simp: cd_inv_def)
  then have "\<exists>l'' h''. coredump_header_ntf_received l' chn h' = Some (l'', h'') \<and>
    (hp_oracle h' (hp_next h') \<noteq> None \<longrightarrow> read_coredump_at count 0 False (debug_coredump_get l') h'' = None)"
    using k new ne unfolding g
    by (auto simp: coredump_header_ntf_received_def krealloc_def Let_def read_coredump_at_def heap_read_def
        split: option.splits)
  then show ?thesis using s r by blast
qed

theorem debug_coredump_file_witness:
  "\<exists>l msgs l' h'. cd_session [[0, 3, 0, 0, 0, 7, 0], [1, 1, 2], [1, 3]] coredump_layer_init empty_heap = Some (msgs, l', h') \<and>
     read_coredump_file [2, 0, 2, 5] 0 ((traces_device l empty_heap)\<lparr>dg_coredump := l', dg_heap := h'\<rparr>) = Some ([1, 2, 3], 3)"
proof -
  let ?hdr = "[3, 0, 0, 0, 7, 0] :: byte list" and ?bs = "[[1, 2], [3]] :: byte list list"
  have o: "oracle_total empty_heap" by (simp add: oracle_total_def empty_heap_def)
  have p: "6 \<le> length ?hdr" "length ?hdr < 65535" "le32 (chunk ?hdr 0 4) = length (concat ?bs)"
    "length (concat ?bs) + 65535 < 4294967296" "?bs \<noteq> []" "[] \<notin> set ?bs" "\<forall>b \<in> set ?bs. length b < 65535"
    by (simp_all add: chunk_def)
  have c: "dg_coredump_ops (traces_device l empty_heap)" by (simp add: traces_device_def)
  have e: "(COREDUMP_HEADER_NTF # ?hdr) # map ((#) COREDUMP_BODY_NTF) ?bs =
      [[0, 3, 0, 0, 0, 7, 0], [1, 1, 2], [1, 3]]" "concat ?bs = [1, 2, 3]" "sum_list [2, 0, 2, 5] = (9 :: nat)"
    "length [1, 2, 3 :: byte] = 3" "min 3 9 = (3 :: nat)" "take 9 [1, 2, 3 :: byte] = [1, 2, 3]"
    by (simp_all add: COREDUMP_HEADER_NTF_def COREDUMP_BODY_NTF_def)
  have n: "0 < chn_size \<lparr>chn_size = 5, chn_crc = 0\<rparr>" "chn_size \<lparr>chn_size = 5, chn_crc = 0\<rparr> + 65535 < 4294967296"
    "0 < (1 :: nat)" by simp_all
  show ?thesis
    using debug_coredump_file [OF cd_inv_init [OF heap_ok_empty] o p c n, of "[2, 0, 2, 5]"] unfolding e by blast
qed

end
