(* ===== verification/Debug_Rom.thy ===== *)
theory Debug_Rom
  imports Driver
begin

text \<open>
  The test files of the boot ROM (debug_qmrom.c): probing the chip, flashing a firmware or a debug
  certificate named by the user, erasing the certificate.  Each stops the core, works on the chip through
  libqmrom and starts the core again.

  \<open>kernel_read_file_from_path\<close> is a parameter: the number it returns and the bytes it stored.  A write
  passes the bytes \<open>buff\<close> of the user, of which \<open>copy_from_user\<close> leaves the last \<open>uncopied\<close> ones uncopied.
  The file name lives in the core's heap.
\<close>

definition QMROM_RETRIES :: nat where "QMROM_RETRIES = 10"

type_synonym file_reader = "byte list \<Rightarrow> int \<times> byte list"

definition rom_test_prepare :: "('l, 'b) await \<Rightarrow> ('l, 'b, 'w) qm35 \<Rightarrow> ('l, 'b, 'w) qm35" where
  "rom_test_prepare await s = qm35_hsspi_stop await s"

definition rom_test_unprepare :: "('l, 'b, 'w) qm35 \<Rightarrow> ('l, 'b, 'w) qm35" where
  "rom_test_unprepare s = qm35_hsspi_start s"

text \<open>\<open>alloc\<close>: the allocation of the \<open>struct firmware\<close> succeeds.\<close>

definition file2firmware :: "file_reader \<Rightarrow> bool \<Rightarrow> byte list \<Rightarrow> byte list option" where
  "file2firmware read_file alloc filename =
     (if \<not> alloc then None
      else let (bytes_read, data) = read_file filename
        in if bytes_read < 0 then None
           else if bytes_read \<noteq> int (length data) then None
           else Some data)"

text \<open>A handle for the duration of one call: its result, or \<open>None\<close> when \<open>qmrom_init\<close> fails.\<close>

definition with_rom ::
  "'w platform \<Rightarrow> ('w chip_side rom \<Rightarrow> ('w chip_side, int) rom_result) \<Rightarrow> ('l, 'b, 'w) qm35 \<Rightarrow>
   (int option \<times> ('l, 'b, 'w) qm35) option" where
  "with_rom pl call s = do {
     (h, ws) \<leftarrow> qmrom_init (chip_dev (pl_dev pl)) QMROM_RETRIES 0 (q_world s, q_state s, q_gpio_reset s);
     case h of
       None \<Rightarrow> Some (None, put_chip_side ws s)
     | Some h \<Rightarrow> do {
         (rc, h) \<leftarrow> call h;
         Some (Some rc, put_chip_side (rom_world h) s)
       }
   }"

definition rom_probe ::
  "'w platform \<Rightarrow> ('l, 'b) await \<Rightarrow> nat \<Rightarrow> ('l, 'b, 'w) qm35 \<Rightarrow> (int \<times> ('l, 'b, 'w) qm35) option" where
  "rom_probe pl await count s = do {
     (_, s) \<leftarrow> with_rom pl (\<lambda>h. Some (0, h)) (rom_test_prepare await s);
     Some (int count, rom_test_unprepare s)
   }"

definition rom_erase_dbg_cert ::
  "'w platform \<Rightarrow> ('l, 'b) await \<Rightarrow> nat \<Rightarrow> ('l, 'b, 'w) qm35 \<Rightarrow> (int \<times> ('l, 'b, 'w) qm35) option" where
  "rom_erase_dbg_cert pl await count s = do {
     (_, s) \<leftarrow> with_rom pl (qmrom_erase_dbg_cert (chip_dev (pl_dev pl))) (rom_test_prepare await s);
     Some (int count, rom_test_unprepare s)
   }"

text \<open>
  The file name: allocated, copied and terminated at its last byte.  The first component is \<open>None\<close>
  without memory; otherwise what \<open>copy_from_user\<close> returned and the name as a C string.
\<close>

definition copy_filename ::
  "byte list \<Rightarrow> nat \<Rightarrow> kheap \<Rightarrow> ((nat \<times> byte list) option \<times> kheap) option" where
  "copy_filename buff uncopied heap = do {
     let count = length buff;
     let (filename, heap) = kmalloc count heap;
     if filename = NullPtr then Some (None, heap)
     else do {
       heap \<leftarrow> heap_write heap filename 0 (take (count - uncopied) buff @ replicate (min uncopied count) 0);
       if min uncopied count \<noteq> 0 then Some (Some (min uncopied count, []), heap)
       else if count = 0 then None
       else do {
         heap \<leftarrow> heap_write heap filename (count - 1) [0];
         Some (Some (0, takeWhile (\<lambda>c. c \<noteq> 0) (take (count - 1) buff)), heap)
       }
     }
   }"

definition set_core_heap :: "kheap \<Rightarrow> ('l, 'b, 'w) qm35 \<Rightarrow> ('l, 'b, 'w) qm35" where
  "set_core_heap heap s = s\<lparr>q_hsspi := (q_hsspi s)\<lparr>hs_heap := heap\<rparr>\<rparr>"

definition rom_flash_dbg_cert_file ::
  "'w platform \<Rightarrow> ('l, 'b) await \<Rightarrow> file_reader \<Rightarrow> bool \<Rightarrow> byte list \<Rightarrow> nat \<Rightarrow> ('l, 'b, 'w) qm35 \<Rightarrow>
   (int \<times> ('l, 'b, 'w) qm35) option" where
  "rom_flash_dbg_cert_file pl await read_file alloc buff uncopied s0 = do {
     let s = rom_test_prepare await s0;
     (name, heap) \<leftarrow> copy_filename buff uncopied (hs_heap (q_hsspi s));
     let s = set_core_heap heap s;
     case name of
       None \<Rightarrow> Some (- ENOMEM, rom_test_unprepare s)
     | Some (err, filename) \<Rightarrow>
         if err \<noteq> 0 then Some (int err, rom_test_unprepare s)
         else (case file2firmware read_file alloc filename of
           None \<Rightarrow> Some (- 1, rom_test_unprepare s)
         | Some certificate \<Rightarrow> do {
             (_, s) \<leftarrow> with_rom pl (qmrom_flash_dbg_cert (chip_dev (pl_dev pl)) certificate) s;
             Some (int (length buff), rom_test_unprepare s)
           })
   }"

definition rom_flash_fw_file ::
  "'w platform \<Rightarrow> ('l, 'b) await \<Rightarrow> file_reader \<Rightarrow> bool \<Rightarrow> byte list \<Rightarrow> nat \<Rightarrow> ('l, 'b, 'w) qm35 \<Rightarrow>
   (int \<times> ('l, 'b, 'w) qm35) option" where
  "rom_flash_fw_file pl await read_file alloc buff uncopied s0 = do {
     let s = rom_test_prepare await s0;
     (name, heap) \<leftarrow> copy_filename buff uncopied (hs_heap (q_hsspi s));
     let s = set_core_heap heap s;
     case name of
       None \<Rightarrow> Some (- ENOMEM, rom_test_unprepare s)
     | Some (rc, filename) \<Rightarrow>
         if rc \<noteq> 0 then Some (int (length buff), rom_test_unprepare s)
         else (case file2firmware read_file alloc filename of
           None \<Rightarrow> Some (int (length buff), rom_test_unprepare s)
         | Some fw \<Rightarrow> do {
             (_, s) \<leftarrow> with_rom pl (qmrom_flash_fw (chip_dev (pl_dev pl)) fw) s;
             Some (int (length buff), rom_test_unprepare s)
           })
   }"

end
