(* ===== verification/Debug_Rom_Props.thy ===== *)
theory Debug_Rom_Props
  imports Debug_Rom Driver_Props
begin

text \<open>
  The test files of the boot ROM: with well-formed firmware files no write faults, except one of no
  bytes; the core runs afterwards; and the result does not tell whether the chip was flashed.
\<close>

section \<open>One call on a handle\<close>

text \<open>Everything of the driver but the chip and its reset line.\<close>

definition same_host :: "('l, 'b, 'w) qm35 \<Rightarrow> ('l, 'b, 'w) qm35 \<Rightarrow> bool" where
  "same_host s s' \<longleftrightarrow> q_hsspi s' = q_hsspi s \<and> q_vdd s' = q_vdd s \<and> q_regulators_enabled s' = q_regulators_enabled s \<and>
     q_rdy_irq s' = q_rdy_irq s \<and> q_handles s' = q_handles s"

lemma with_rom_ok:
  assumes "\<And>c h. handle_of c h \<Longrightarrow> wp (call h) (\<lambda>_ h'. handle_of c h')"
  shows "\<exists>r s'. with_rom pl call s = Some (r, s') \<and> same_host s s'"
proof -
  obtain r ws where i: "qmrom_init (chip_dev (pl_dev pl)) QMROM_RETRIES 0 (q_world s, q_state s, q_gpio_reset s) = Some (r, ws)"
    and h: "\<forall>h. r = Some h \<longrightarrow> (\<exists>c. handle_of c h) \<and> set (rom_writes h) \<subseteq> queries"
    using init_ok [of "chip_dev (pl_dev pl)" QMROM_RETRIES 0 "(q_world s, q_state s, q_gpio_reset s)"]
    by (elim exE conjE) (rule that)
  show ?thesis
  proof (cases r)
    case None
    then show ?thesis using i by (simp add: with_rom_def same_host_def)
  next
    case (Some h0)
    then obtain c where "handle_of c h0" using h by blast
    then obtain rc h1 where "call h0 = Some (rc, h1)" using assms unfolding wp_ex by blast
    then show ?thesis using i Some by (simp add: with_rom_def same_host_def)
  qed
qed

lemma with_rom_call_ok:
  assumes "\<And>c. allowed c call"
  shows "\<exists>r s'. with_rom pl (run_rom_call (chip_dev (pl_dev pl)) call) s = Some (r, s') \<and> same_host s s'"
  by (rule with_rom_ok) (rule rom_call_ok [OF _ assms])

section \<open>The file name\<close>

lemma heap_write_whole:
  "hp_mem h k = Some old \<Longrightarrow> length p = length old \<Longrightarrow> p \<noteq> [] \<Longrightarrow>
   heap_write h (Ptr k) 0 p = Some (h\<lparr>hp_mem := (hp_mem h)(k \<mapsto> p)\<rparr>)"
  by (simp add: heap_write_def mem_write_def patch_def)

lemma copy_filename_ok:
  assumes ok: "heap_ok h" and n: "buff \<noteq> []"
  shows "\<exists>name h'. copy_filename buff uncopied h = Some (name, h') \<and> heap_ok h' \<and>
    (case name of
       None \<Rightarrow> \<not> oracle_total h \<and> live h' = live h
     | Some (err, _) \<Rightarrow> err = min uncopied (length buff) \<and> live h' = insert (hp_next h) (live h)) \<and> hp_next h \<notin> live h"
proof -
  have new: "hp_next h \<notin> live h" using ok by (auto simp: heap_ok_iff_live)
  let ?n = "length buff"
  have len: "length (take (?n - uncopied) buff @ replicate (min uncopied ?n) (0 :: byte)) = ?n" by simp
  show ?thesis
  proof (cases "hp_oracle h (hp_next h)")
    case None
    then show ?thesis using n ok new
      by (auto simp: copy_filename_def kmalloc_def oracle_total_def live_def heap_ok_def)
  next
    case (Some junk)
    let ?p = "take (?n - uncopied) buff @ replicate (min uncopied ?n) (0 :: byte)"
    let ?h1 = "h\<lparr>hp_mem := (hp_mem h)(hp_next h \<mapsto> fit ?n junk), hp_next := hp_next h + 1\<rparr>"
    let ?h2 = "?h1\<lparr>hp_mem := (hp_mem ?h1)(hp_next h \<mapsto> ?p)\<rparr>"
    have k: "kmalloc ?n h = (Ptr (hp_next h), ?h1)" using n Some by (simp add: kmalloc_def)
    have p: "?p \<noteq> []" using n len by (metis length_0_conv)
    have w: "heap_write ?h1 (Ptr (hp_next h)) 0 ?p = Some ?h2"
      by (rule heap_write_whole [OF _ _ p, of _ _ "fit ?n junk"]) simp_all
    have lv: "live ?h2 = insert (hp_next h) (live h)" and ok2: "heap_ok ?h2" using ok by (auto simp: live_def heap_ok_def)
    show ?thesis
    proof (cases "min uncopied ?n = 0")
      case False
      then show ?thesis using k w lv ok2 new by (auto simp: copy_filename_def Let_def)
    next
      case True
      let ?h3 = "?h2\<lparr>hp_mem := (hp_mem ?h2)(hp_next h \<mapsto> patch ?p (?n - 1) [0])\<rparr>"
      have "0 < ?n" using n by simp
      then have w3: "heap_write ?h2 (Ptr (hp_next h)) (?n - 1) [0] = Some ?h3"
        using len by (simp add: heap_write_def mem_write_def)
      have "live ?h3 = live ?h2" "heap_ok ?h3" using ok2 by (auto simp: live_def heap_ok_def)
      then show ?thesis using k w w3 lv new True n by (auto simp: copy_filename_def Let_def)
    qed
  qed
qed

section \<open>The files\<close>

text \<open>
  After a write: the core runs, and the memory of the core is as before the write but for the file name,
  which stays allocated; without memory for it the result is \<open>-ENOMEM\<close>.
\<close>

definition core_heap :: "('l, 'b, 'w) qm35 \<Rightarrow> kheap" where
  "core_heap s = hs_heap (q_hsspi s)"

definition name_leaked :: "('l, 'b, 'w) qm35 \<Rightarrow> int \<Rightarrow> ('l, 'b, 'w) qm35 \<Rightarrow> bool" where
  "name_leaked s r s' \<longleftrightarrow> hs_state (q_hsspi s') = HSSPI_RUNNING \<and>
     (r = - ENOMEM \<and> live (core_heap s') = live (core_heap s) \<or>
      r \<noteq> - ENOMEM \<and> live (core_heap s') = insert (hp_next (core_heap s)) (live (core_heap s)) \<and>
      hp_next (core_heap s) \<notin> live (core_heap s))"

lemma unprepare_simps [simp]:
  "hs_state (q_hsspi (rom_test_unprepare s)) = HSSPI_RUNNING"
  "hs_heap (q_hsspi (rom_test_unprepare s)) = hs_heap (q_hsspi s)"
  by (auto simp: rom_test_unprepare_def qm35_hsspi_start_def enable_rdy_irq_def hsspi_start_def Let_def)

lemma set_core_heap_simps [simp]: "hs_heap (q_hsspi (set_core_heap h s)) = h"
  by (simp add: set_core_heap_def)

lemma file2firmware_good:
  assumes "\<forall>name data. read_file name = (int (length data), data) \<longrightarrow> (\<exists>f. data = stitch f \<and> good_firmware f)"
    and "file2firmware read_file alloc name = Some data"
  shows "\<exists>f. data = stitch f \<and> good_firmware f"
  using assms by (auto simp: file2firmware_def split: if_splits prod.splits)

lemma rom_flash_fw_file_ok:
  assumes ok: "heap_ok (core_heap (rom_test_prepare await s))" and n: "buff \<noteq> []"
    and good: "\<forall>name data. read_file name = (int (length data), data) \<longrightarrow> (\<exists>f. data = stitch f \<and> good_firmware f)"
  shows "\<exists>r s'. rom_flash_fw_file pl await read_file alloc buff uncopied s = Some (r, s') \<and>
    name_leaked (rom_test_prepare await s) r s' \<and> r \<in> {- ENOMEM, int (length buff)}"
proof -
  let ?s = "rom_test_prepare await s"
  obtain name h' where c: "copy_filename buff uncopied (core_heap ?s) = Some (name, h')" "heap_ok h'"
    and lv: "(case name of None \<Rightarrow> \<not> oracle_total (core_heap ?s) \<and> live h' = live (core_heap ?s)
      | Some (err, _) \<Rightarrow> err = min uncopied (length buff) \<and>
          live h' = insert (hp_next (core_heap ?s)) (live (core_heap ?s))) \<and> hp_next (core_heap ?s) \<notin> live (core_heap ?s)"
    using copy_filename_ok [OF ok n] by blast
  show ?thesis
  proof (cases name)
    case None
    then show ?thesis using c lv by (auto simp: rom_flash_fw_file_def name_leaked_def core_heap_def)
  next
    case (Some en)
    show ?thesis
    proof (cases "fst en \<noteq> 0 \<or> file2firmware read_file alloc (snd en) = None")
      case True
      then show ?thesis using Some c lv 
        by (cases en; cases "fst en = 0") (auto simp: rom_flash_fw_file_def name_leaked_def core_heap_def Let_def)
    next
      case False
      then obtain fw where fw: "file2firmware read_file alloc (snd en) = Some fw" by blast
      then obtain f where "fw = stitch f" "good_firmware f" using file2firmware_good [OF good] by blast
      then have "\<And>c. allowed c (Flash_fw fw)" by auto
      from with_rom_call_ok [OF this, of pl "set_core_heap h' ?s"]
      obtain r s2 where "with_rom pl (qmrom_flash_fw (chip_dev (pl_dev pl)) fw) (set_core_heap h' ?s) = Some (r, s2)"
        "same_host (set_core_heap h' ?s) s2" by auto
      then show ?thesis using Some False fw c lv
        by (cases en) (auto simp: rom_flash_fw_file_def name_leaked_def core_heap_def same_host_def)
    qed
  qed
qed

lemma rom_flash_dbg_cert_file_ok:
  assumes ok: "heap_ok (core_heap (rom_test_prepare await s))" and n: "buff \<noteq> []"
  shows "\<exists>r s'. rom_flash_dbg_cert_file pl await read_file alloc buff uncopied s = Some (r, s') \<and>
    name_leaked (rom_test_prepare await s) r s' \<and>
    r \<in> {- ENOMEM, - 1, int (min uncopied (length buff)), int (length buff)}"
proof -
  let ?s = "rom_test_prepare await s"
  obtain name h' where c: "copy_filename buff uncopied (core_heap ?s) = Some (name, h')" "heap_ok h'"
    and lv: "(case name of None \<Rightarrow> \<not> oracle_total (core_heap ?s) \<and> live h' = live (core_heap ?s)
      | Some (err, _) \<Rightarrow> err = min uncopied (length buff) \<and>
          live h' = insert (hp_next (core_heap ?s)) (live (core_heap ?s))) \<and> hp_next (core_heap ?s) \<notin> live (core_heap ?s)"
    using copy_filename_ok [OF ok n] by blast
  show ?thesis
  proof (cases name)
    case None
    then show ?thesis using c lv by (auto simp: rom_flash_dbg_cert_file_def name_leaked_def core_heap_def)
  next
    case (Some en)
    show ?thesis
    proof (cases "fst en \<noteq> 0 \<or> file2firmware read_file alloc (snd en) = None")
      case True
      then show ?thesis using Some c lv 
        by (cases en; cases "fst en = 0") (auto simp: rom_flash_dbg_cert_file_def name_leaked_def core_heap_def Let_def)
    next
      case False
      then obtain cert where f: "file2firmware read_file alloc (snd en) = Some cert" by blast
      have "\<And>c. allowed c (Flash_dbg_cert cert)" by simp
      from with_rom_call_ok [OF this, of pl "set_core_heap h' ?s"]
      obtain r s2 where "with_rom pl (qmrom_flash_dbg_cert (chip_dev (pl_dev pl)) cert) (set_core_heap h' ?s) = Some (r, s2)"
        "same_host (set_core_heap h' ?s) s2" by auto
      then show ?thesis using Some False f c lv
        by (cases en) (auto simp: rom_flash_dbg_cert_file_def name_leaked_def core_heap_def same_host_def)
    qed
  qed
qed

lemma rom_short_files_ok:
  "\<exists>s'. rom_probe pl await count s = Some (int count, s') \<and> hs_state (q_hsspi s') = HSSPI_RUNNING \<and>
     core_heap s' = core_heap (rom_test_prepare await s)"
  "\<exists>s'. rom_erase_dbg_cert pl await count s = Some (int count, s') \<and> hs_state (q_hsspi s') = HSSPI_RUNNING \<and>
     core_heap s' = core_heap (rom_test_prepare await s)"
proof -
  obtain r s' where "with_rom pl (\<lambda>h. Some (0, h)) (rom_test_prepare await s) = Some (r, s')"
    "same_host (rom_test_prepare await s) s'"
    using with_rom_ok [of "\<lambda>h. Some (0, h)" pl "rom_test_prepare await s"] by auto
  then show "\<exists>s'. rom_probe pl await count s = Some (int count, s') \<and> hs_state (q_hsspi s') = HSSPI_RUNNING \<and>
     core_heap s' = core_heap (rom_test_prepare await s)"
    by (simp add: rom_probe_def same_host_def core_heap_def)
  have "\<And>c. allowed c Erase_dbg_cert" by simp
  from with_rom_call_ok [OF this, of pl "rom_test_prepare await s"]
  show "\<exists>s'. rom_erase_dbg_cert pl await count s = Some (int count, s') \<and> hs_state (q_hsspi s') = HSSPI_RUNNING \<and>
     core_heap s' = core_heap (rom_test_prepare await s)"
    by (auto simp: rom_erase_dbg_cert_def same_host_def core_heap_def)
qed

lemma copy_no_filename: "copy_filename [] uncopied h = None"
  by (simp add: copy_filename_def kmalloc_def)



end
