(* ===== verification/Hsspi_Test.thy ===== *)
theory Hsspi_Test
  imports Coredump
begin

text \<open>
  The test layer (hsspi_test.c): it checks that a received block counts up from 0, sends the block back,
  and counts what went through.  While a sleep between frames is set, it also shifts the delay between
  the ready line and the transfer from one message to the next.

  A block of this layer and its bytes are one allocation.  The counters are the static variables of the
  two functions; the ones that only serve to print a rate once a second are left out.
\<close>

definition s32 :: "int \<Rightarrow> int" where
  "s32 n = (n + 2147483648) mod 4294967296 - 2147483648"

record test_layer =
  tl_bytes :: "64 word"
  tl_msgs :: "64 word"
  tl_errors :: "64 word"
  tl_sent_bytes :: "64 word"
  tl_sent_msgs :: "64 word"
  tl_sent_errors :: "64 word"
  tl_sleep_inter_frame_ms :: int
  tl_delay_us :: int
  tl_sleep_after_ss_ready_us :: int

definition test_layer_init :: test_layer where
  "test_layer_init = \<lparr>tl_bytes = 0, tl_msgs = 0, tl_errors = 0, tl_sent_bytes = 0, tl_sent_msgs = 0, tl_sent_errors = 0,
     tl_sleep_inter_frame_ms = 0, tl_delay_us = 0, tl_sleep_after_ss_ready_us = 0\<rparr>"

definition hsspi_test_set_inter_frame_ms :: "int \<Rightarrow> test_layer \<Rightarrow> test_layer" where
  "hsspi_test_set_inter_frame_ms ms t = t\<lparr>tl_sleep_inter_frame_ms := ms\<rparr>"

text \<open>
  The file \<open>test_sleep_hsspi_ms\<close> of debug.c.  What \<open>kstrtoint_from_user\<close> makes of the user's text is a
  parameter, \<open>None\<close> for a text it refuses.
\<close>

definition debug_test_hsspi_sleep_write :: "int option \<Rightarrow> nat \<Rightarrow> test_layer \<Rightarrow> int \<times> test_layer" where
  "debug_test_hsspi_sleep_write parsed count t =
     (case parsed of
        None \<Rightarrow> (- EFAULT, t)
      | Some ms \<Rightarrow> (int count, hsspi_test_set_inter_frame_ms ms t))"

text \<open>The loop of \<open>check_rx\<close> from index \<open>idx\<close> on.\<close>

fun check_rx_from :: "nat \<Rightarrow> byte list \<Rightarrow> int" where
  "check_rx_from idx [] = 0"
| "check_rx_from idx (b # bs) = (if unat b \<noteq> idx mod 256 then - 5963 else check_rx_from (Suc idx) bs)"

definition check_rx :: "byte list \<Rightarrow> int" where
  "check_rx rx = check_rx_from 0 rx"

definition hsspi_test_get ::
  "test_layer \<Rightarrow> nat \<Rightarrow> kheap \<Rightarrow> (hsspi_block option \<times> test_layer \<times> kheap) option" where
  "hsspi_test_get t n h =
     (case hp_oracle h (hp_next h) of
        None \<Rightarrow> Some (None, t, h\<lparr>hp_next := hp_next h + 1\<rparr>)
      | Some _ \<Rightarrow> Some (Some \<lparr>blk_data = Ptr (hp_next h), blk_length = n, blk_size = n\<rparr>, t,
          h\<lparr>hp_mem := (hp_mem h)(hp_next h \<mapsto> replicate n 0), hp_next := hp_next h + 1\<rparr>))"

text \<open>The injected latencies.\<close>

definition inject_latency :: "test_layer \<Rightarrow> test_layer" where
  "inject_latency t =
     (let ms = tl_sleep_inter_frame_ms t in
      if 0 < ms then
        let d = s32 (tl_delay_us t + 100)
        in t\<lparr>tl_sleep_after_ss_ready_us := s32 (s32 (ms * 1000) - tl_delay_us t),
             tl_delay_us := (if s32 (ms * 1000) < d then 0 else d)\<rparr>
      else t\<lparr>tl_sleep_after_ss_ready_us := 0\<rparr>)"

text \<open>The block is passed to \<open>hsspi_send\<close>, whatever the status; the result is only printed.\<close>

definition hsspi_test_received ::
  "test_layer \<Rightarrow> hsspi_block \<Rightarrow> int \<Rightarrow> kheap \<Rightarrow> (test_layer \<times> hsspi_block list \<times> kheap) option" where
  "hsspi_test_received t blk status h = do {
     rx \<leftarrow> heap_read h (blk_data blk) 0 (blk_length blk);
     let t = inject_latency (t\<lparr>tl_errors := tl_errors t + (if check_rx rx \<noteq> 0 then 1 else 0)\<rparr>);
     Some (t\<lparr>tl_bytes := tl_bytes t + of_nat (blk_length blk), tl_msgs := tl_msgs t + 1\<rparr>, [blk], h)
   }"

definition hsspi_test_sent ::
  "test_layer \<Rightarrow> hsspi_block \<Rightarrow> int \<Rightarrow> kheap \<Rightarrow> (test_layer \<times> kheap) option" where
  "hsspi_test_sent t blk status h =
     map_option (\<lambda>h'. (t\<lparr>tl_sent_errors := tl_sent_errors t + (if status \<noteq> 0 then 1 else 0),
         tl_sent_msgs := tl_sent_msgs t + 1, tl_sent_bytes := tl_sent_bytes t + of_nat (blk_length blk)\<rparr>, h'))
       (kfree (blk_data blk) h)"

section \<open>The contract of an upper layer\<close>

lemma check_rx_from_pattern:
  "check_rx_from i bs = (if bs = map of_nat [i..<i + length bs] then 0 else - 5963)"
proof (induction bs arbitrary: i)
  case (Cons b bs)
  have "unat b = i mod 256 \<longleftrightarrow> b = of_nat i"
    by (metis unat_byte_of_nat word_unat_eq_iff)
  moreover have "[i..<i + length (b # bs)] = i # [Suc i..<Suc i + length bs]"
    by (simp add: upt_conv_Cons del: upt_Suc)
  ultimately show ?case using Cons.IH [of "Suc i"] by simp
qed simp

lemma check_rx_pattern: "check_rx bs = (if bs = map of_nat [0..<length bs] then 0 else - 5963)"
  by (simp add: check_rx_def check_rx_from_pattern)

lemma test_received_ok:
  assumes "block_holds h blk bs"
  shows "\<exists>t'. hsspi_test_received t blk status h = Some (t', [blk], h)"
proof -
  have "heap_read h (blk_data blk) 0 (blk_length blk) = Some bs"
    using assms by (auto simp: block_holds_def dest: heap_read_whole)
  then show ?thesis by (simp add: hsspi_test_received_def Let_def)
qed

interpretation test_ul: upper_layer "\<lambda>_. heap_ok" "\<lambda>_. {}" "\<lambda>_ _. True" hsspi_test_get hsspi_test_received
proof (unfold_locales, goal_cases)
  case (4 t h n)
  then show ?case
    by (auto simp: hsspi_test_get_def heap_ok_def frame_def fresh_block_def block_holds_def blk_keys_def
        split: option.splits)
next
  case (5 t h blk bs status)
  then show ?case using test_received_ok [OF 5(2), of t status] by auto
qed simp_all

end
