(* ===== verification/Hsspi_Test_Props.thy ===== *)
theory Hsspi_Test_Props
  imports Hsspi_Test
begin

text \<open>
  The test layer through whole messages: each received message is compared with the reference pattern
  0, 1, 2, ... and echoed, and nothing stays allocated.
\<close>

text \<open>
  One message: the core asks for a block, stores the bytes that arrived, hands the block over with its
  status, and sends what the layer asked it to send.  The bytes sent come first in the result.
\<close>

definition test_message ::
  "byte list \<Rightarrow> int \<Rightarrow> int \<Rightarrow> test_layer \<Rightarrow> kheap \<Rightarrow> (byte list list \<times> test_layer \<times> kheap) option" where
  "test_message bs status sent_status t h = do {
     (b, t, h) \<leftarrow> hsspi_test_get t (length bs) h;
     case b of
       None \<Rightarrow> Some ([], t, h)
     | Some b \<Rightarrow> do {
         h \<leftarrow> heap_write h (blk_data b) 0 bs;
         (t, sends, h) \<leftarrow> hsspi_test_received t b status h;
         echoes \<leftarrow> those (map (\<lambda>b. heap_read h (blk_data b) 0 (blk_length b)) sends);
         (t, h) \<leftarrow> fold (\<lambda>b st. Option.bind st (\<lambda>(t, h). hsspi_test_sent t b sent_status h)) sends (Some (t, h));
         Some (echoes, t, h)
       }
   }"

fun test_session ::
  "(byte list \<times> int \<times> int) list \<Rightarrow> test_layer \<Rightarrow> kheap \<Rightarrow> (byte list list \<times> test_layer \<times> kheap) option" where
  "test_session [] t h = Some ([], t, h)"
| "test_session ((bs, status, sent_status) # ms) t h = do {
     (echoes, t, h) \<leftarrow> test_message bs status sent_status t h;
     (rest, t, h) \<leftarrow> test_session ms t h;
     Some (echoes @ rest, t, h)
   }"

text \<open>The reference: what a message should contain, and the state of the latencies.\<close>

definition test_pattern :: "nat \<Rightarrow> byte list" where
  "test_pattern n = map of_nat [0..<n]"

definition latency_ok :: "test_layer \<Rightarrow> bool" where
  "latency_ok t \<longleftrightarrow> tl_sleep_inter_frame_ms t \<le> 2147483 \<and> 0 \<le> tl_delay_us t \<and>
     (0 < tl_sleep_inter_frame_ms t \<longrightarrow> tl_delay_us t \<le> tl_sleep_inter_frame_ms t * 1000)"

definition sleep_ok :: "test_layer \<Rightarrow> bool" where
  "sleep_ok t \<longleftrightarrow> 0 \<le> tl_sleep_after_ss_ready_us t \<and>
     tl_sleep_after_ss_ready_us t \<le> max 0 (tl_sleep_inter_frame_ms t) * 1000"

lemma s32_id: "- 2147483648 \<le> n \<Longrightarrow> n < 2147483648 \<Longrightarrow> s32 n = n"
  by (simp add: s32_def)

lemma latency_kept:
  assumes "latency_ok t"
  shows "latency_ok (inject_latency t) \<and> sleep_ok (inject_latency t)"
proof (cases "0 < tl_sleep_inter_frame_ms t")
  case True
  define m where "m = tl_sleep_inter_frame_ms t * 1000"
  have m: "0 < m" "m + 100 < 2147483648" "tl_delay_us t \<le> m" "0 \<le> tl_delay_us t"
    using True assms by (simp_all add: m_def latency_ok_def)
  then have "s32 m = m" "s32 (m - tl_delay_us t) = m - tl_delay_us t" "s32 (tl_delay_us t + 100) = tl_delay_us t + 100"
    by (simp_all add: s32_id)
  then show ?thesis using True m assms
    by (auto simp: inject_latency_def Let_def latency_ok_def sleep_ok_def simp flip: m_def)
qed (use assms in \<open>auto simp: inject_latency_def latency_ok_def sleep_ok_def\<close>)

text \<open>What a message does to the layer.\<close>

definition after_message :: "byte list \<Rightarrow> int \<Rightarrow> test_layer \<Rightarrow> test_layer" where
  "after_message bs sent_status t =
     (inject_latency t)\<lparr>
       tl_errors := tl_errors t + (if bs = test_pattern (length bs) then 0 else 1),
       tl_bytes := tl_bytes t + of_nat (length bs), tl_msgs := tl_msgs t + 1,
       tl_sent_errors := tl_sent_errors t + (if sent_status \<noteq> 0 then 1 else 0),
       tl_sent_msgs := tl_sent_msgs t + 1, tl_sent_bytes := tl_sent_bytes t + of_nat (length bs)\<rparr>"

lemma inject_latency_counts:
  "inject_latency (t\<lparr>tl_errors := e\<rparr>) = (inject_latency t)\<lparr>tl_errors := e\<rparr>"
  "tl_errors (inject_latency t) = tl_errors t" "tl_bytes (inject_latency t) = tl_bytes t"
  "tl_msgs (inject_latency t) = tl_msgs t" "tl_sent_errors (inject_latency t) = tl_sent_errors t"
  "tl_sent_bytes (inject_latency t) = tl_sent_bytes t" "tl_sent_msgs (inject_latency t) = tl_sent_msgs t"
  by (simp_all add: inject_latency_def Let_def)

lemma message_ok:
  assumes "heap_ok h" "\<forall>k. hp_oracle h k \<noteq> None"
  shows "\<exists>h'. test_message bs status sent_status t h = Some ([bs], after_message bs sent_status t, h') \<and>
    hp_mem h' = hp_mem h \<and> hp_oracle h' = hp_oracle h \<and> heap_ok h'"
proof -
  let ?k = "hp_next h" let ?n = "length bs"
  let ?h1 = "h\<lparr>hp_mem := (hp_mem h)(?k \<mapsto> bs), hp_next := ?k + 1\<rparr>"
  let ?b = "\<lparr>blk_data = Ptr ?k, blk_length = ?n, blk_size = ?n\<rparr>"
  have free: "hp_mem h ?k = None" using assms(1) by (simp add: heap_ok_def)
  obtain junk where "hp_oracle h ?k = Some junk" using assms(2) by blast
  then have g: "hsspi_test_get t ?n h
      = Some (Some ?b, t, h\<lparr>hp_mem := (hp_mem h)(?k \<mapsto> replicate ?n 0), hp_next := ?k + 1\<rparr>)"
    by (simp add: hsspi_test_get_def)
  have w: "heap_write (h\<lparr>hp_mem := (hp_mem h)(?k \<mapsto> replicate ?n 0), hp_next := ?k + 1\<rparr>) (Ptr ?k) 0 bs = Some ?h1"
    by (cases h) (simp add: heap_write_def mem_write_def patch_def)
  have r: "heap_read ?h1 (Ptr ?k) 0 ?n = Some bs"
    by (rule heap_read_whole) simp
  have f: "kfree (Ptr ?k) ?h1 = Some (h\<lparr>hp_next := ?k + 1\<rparr>)"
    using free by (simp add: kfree_def fun_upd_idem)
  have "test_message bs status sent_status t h = Some ([bs], after_message bs sent_status t, h\<lparr>hp_next := ?k + 1\<rparr>)"
    using g w r f
    by (simp add: test_message_def hsspi_test_received_def hsspi_test_sent_def Let_def after_message_def
        inject_latency_counts check_rx_pattern test_pattern_def)
  then show ?thesis using assms(1) by (auto simp: heap_ok_def)
qed

lemma after_message_latency:
  "latency_ok t \<Longrightarrow> latency_ok (after_message bs st t) \<and> sleep_ok (after_message bs st t)"
  using latency_kept [of t] by (simp add: after_message_def latency_ok_def sleep_ok_def)

definition after_messages :: "(byte list \<times> int \<times> int) list \<Rightarrow> test_layer \<Rightarrow> test_layer" where
  "after_messages ms t = fold (\<lambda>m. after_message (fst m) (snd (snd m))) ms t"

lemma session_ok:
  assumes "heap_ok h" "\<forall>k. hp_oracle h k \<noteq> None"
  shows "\<exists>h'. test_session ms t h = Some (map fst ms, after_messages ms t, h') \<and> hp_mem h' = hp_mem h"
  using assms
proof (induction ms arbitrary: t h)
  case (Cons m ms)
  obtain bs status sent_status where m: "m = (bs, status, sent_status)" by (cases m)
  obtain h1 where h1: "test_message bs status sent_status t h = Some ([bs], after_message bs sent_status t, h1)"
    "hp_mem h1 = hp_mem h" "hp_oracle h1 = hp_oracle h" "heap_ok h1"
    using message_ok [OF Cons.prems] by blast
  obtain h2 where "test_session ms (after_message bs sent_status t) h1
      = Some (map fst ms, after_messages ms (after_message bs sent_status t), h2)" "hp_mem h2 = hp_mem h1"
    using Cons.IH [OF h1(4)] Cons.prems(2) h1(3) by metis
  then show ?case using h1 m by (simp add: after_messages_def)
qed (simp add: after_messages_def)

text \<open>A counter that each message increases.\<close>

lemma fold_counter:
  fixes c :: "'s \<Rightarrow> 'n :: comm_monoid_add"
  assumes "\<And>m t. c (step m t) = c t + g m"
  shows "c (fold step ms t) = c t + sum_list (map g ms)"
  by (induction ms arbitrary: t) (simp_all add: assms add.assoc)

lemma sum_of_nat: "sum_list (map (\<lambda>m. of_nat (f m)) ms) = of_nat (sum_list (map f ms))"
  by (induction ms) simp_all

lemma sum_count: "sum_list (map (\<lambda>m. if P m then 0 else 1) ms) = of_nat (length (filter (\<lambda>m. \<not> P m) ms))"
  by (induction ms) simp_all

lemma sum_one: "sum_list (map (\<lambda>m. 1) ms) = of_nat (length ms)"
  by (induction ms) simp_all

lemma after_messages_counts:
  "tl_errors (after_messages ms t)
     = tl_errors t + of_nat (length (filter (\<lambda>m. fst m \<noteq> test_pattern (length (fst m))) ms))"
  "tl_sent_errors (after_messages ms t) = tl_sent_errors t + of_nat (length (filter (\<lambda>m. snd (snd m) \<noteq> 0) ms))"
  "tl_msgs (after_messages ms t) = tl_msgs t + of_nat (length ms)"
  "tl_sent_msgs (after_messages ms t) = tl_sent_msgs t + of_nat (length ms)"
  "tl_bytes (after_messages ms t) = tl_bytes t + of_nat (sum_list (map (\<lambda>m. length (fst m)) ms))"
proof -
  let ?S = "\<lambda>m :: byte list \<times> int \<times> int. after_message (fst m) (snd (snd m))"
  have "tl_errors (fold ?S ms t)
      = tl_errors t + sum_list (map (\<lambda>m. if fst m = test_pattern (length (fst m)) then 0 else 1) ms)"
    by (rule fold_counter) (simp add: after_message_def)
  moreover have "tl_sent_errors (fold ?S ms t) = tl_sent_errors t + sum_list (map (\<lambda>m. if snd (snd m) = 0 then 0 else 1) ms)"
    by (rule fold_counter) (simp add: after_message_def)
  moreover have "tl_msgs (fold ?S ms t) = tl_msgs t + sum_list (map (\<lambda>m. 1) ms)"
    by (rule fold_counter) (simp add: after_message_def)
  moreover have "tl_sent_msgs (fold ?S ms t) = tl_sent_msgs t + sum_list (map (\<lambda>m. 1) ms)"
    by (rule fold_counter) (simp add: after_message_def)
  moreover have "tl_bytes (fold ?S ms t) = tl_bytes t + sum_list (map (\<lambda>m. of_nat (length (fst m))) ms)"
    by (rule fold_counter) (simp add: after_message_def)
  ultimately show
    "tl_errors (after_messages ms t)
      = tl_errors t + of_nat (length (filter (\<lambda>m. fst m \<noteq> test_pattern (length (fst m))) ms))"
    "tl_sent_errors (after_messages ms t) = tl_sent_errors t + of_nat (length (filter (\<lambda>m. snd (snd m) \<noteq> 0) ms))"
    "tl_msgs (after_messages ms t) = tl_msgs t + of_nat (length ms)"
    "tl_sent_msgs (after_messages ms t) = tl_sent_msgs t + of_nat (length ms)"
    "tl_bytes (after_messages ms t) = tl_bytes t + of_nat (sum_list (map (\<lambda>m. length (fst m)) ms))"
    by (simp_all only: after_messages_def sum_count sum_of_nat sum_one)
qed

lemma after_messages_latency:
  "latency_ok t \<Longrightarrow> latency_ok (after_messages ms t) \<and> (ms \<noteq> [] \<longrightarrow> sleep_ok (after_messages ms t))"
proof (induction ms arbitrary: t)
  case (Cons m ms)
  then show ?case
    using after_message_latency [OF Cons.prems, of "fst m" "snd (snd m)"] by (cases ms) (auto simp: after_messages_def)
qed (simp add: after_messages_def)

text \<open>
  Claim C31. The test layer is equivalent to a reference: over any messages, with memory available, it
  sends back exactly the bytes it received, in order, and leaves nothing allocated; its error counter
  counts the messages that differ from the pattern 0, 1, 2, ... (modulo 256), whatever their status; the
  delay it keeps stays between 0 and the sleep that is set, and so does the sleep it asks the core for.
\<close>

theorem hsspi_test_echoes:
  assumes "heap_ok h" "\<forall>k. hp_oracle h k \<noteq> None"
  shows "\<exists>t' h'. test_session ms t h = Some (map fst ms, t', h') \<and> hp_mem h' = hp_mem h \<and>
    tl_errors t' = tl_errors t + of_nat (length (filter (\<lambda>m. fst m \<noteq> test_pattern (length (fst m))) ms)) \<and>
    tl_sent_errors t' = tl_sent_errors t + of_nat (length (filter (\<lambda>m. snd (snd m) \<noteq> 0) ms)) \<and>
    tl_msgs t' = tl_msgs t + of_nat (length ms) \<and> tl_sent_msgs t' = tl_sent_msgs t + of_nat (length ms) \<and>
    tl_bytes t' = tl_bytes t + of_nat (sum_list (map (\<lambda>m. length (fst m)) ms)) \<and>
    (latency_ok t \<longrightarrow> latency_ok t' \<and> (ms \<noteq> [] \<longrightarrow> sleep_ok t'))"
  using session_ok [OF assms, of ms t] after_messages_counts [of ms t] after_messages_latency [of t ms] by blast

theorem hsspi_test_echoes_witness:
  "\<exists>t' h'. test_session [([0, 1, 2], 0, 0), ([5], 0, - 5)] (hsspi_test_set_inter_frame_ms 3 test_layer_init) empty_heap
      = Some ([[0, 1, 2], [5]], t', h') \<and> hp_mem h' = hp_mem empty_heap \<and>
    tl_errors t' = 1 \<and> tl_sent_errors t' = 1 \<and> tl_bytes t' = 4 \<and> latency_ok t' \<and> sleep_ok t'"
proof -
  let ?t = "hsspi_test_set_inter_frame_ms 3 test_layer_init"
  have "latency_ok ?t" "tl_errors ?t = 0" "tl_sent_errors ?t = 0" "tl_bytes ?t = 0"
    by (simp_all add: latency_ok_def hsspi_test_set_inter_frame_ms_def test_layer_init_def)
  moreover have "test_pattern (Suc (Suc (Suc 0))) = [0, 1, 2]" "test_pattern (Suc 0) = [0]" by (simp_all add: test_pattern_def upt_rec)
  moreover have "heap_ok empty_heap" "\<forall>k. hp_oracle empty_heap k \<noteq> None" by (simp_all add: empty_heap_def heap_ok_def)
  ultimately show ?thesis
    using hsspi_test_echoes [of empty_heap "[([0, 1, 2], 0, 0), ([5], 0, - 5)]" ?t] by auto
qed

end
