(* ===== verification/Core_Layer.thy ===== *)
theory Core_Layer
  imports Hsspi_Layers
begin

text \<open>
  One layer of the core, and layers side by side.  \<open>core_layer\<close> is the contract of \<open>Upper_Layer\<close> with
  what the core needs to know of the blocks a layer sends: it is what \<open>hsspi_layers\<close> asks of every layer
  of a table.

  A layer keeps its contract when its blocks are carried in larger packets (\<open>wrap\<close>), and when it is a
  component of a state with other layers in the same heap (\<open>focus\<close>): each owns its own memory and leaves
  that of the others alone.
\<close>

type_synonym ('l, 'b) sent_op = "'l \<Rightarrow> 'b hsspi_block_scheme \<Rightarrow> int \<Rightarrow> kheap \<Rightarrow> ('l \<times> kheap) option"

locale core_layer = upper_layer inv owns msg_ok get received
  for inv :: "'l \<Rightarrow> kheap \<Rightarrow> bool" and owns msg_ok
    and get :: "('l, 'b) get_op" and received :: "('l, 'b) received_op" +
  fixes tx_ok :: "hsspi_layer \<Rightarrow> 'b hsspi_block_scheme \<Rightarrow> bool"
    and lay :: hsspi_layer
    and sent :: "('l, 'b) sent_op"
  assumes received_sends: "\<lbrakk>inv l h; block_holds h blk bs; length bs < 65536; \<not> blk_ptr_in blk (owns l);
        status = 0 \<Longrightarrow> msg_ok l bs; received l blk status h = Some (l', sends, h')\<rbrakk> \<Longrightarrow>
      sends_ok tx_ok lay (owns l') blk h h' sends"
    and sent_ok: "\<lbrakk>inv l h; block_holds h b bs; \<not> blk_ptr_in b (owns l); tx_ok lay b\<rbrakk> \<Longrightarrow>
      \<exists>l' h'. sent l b status h = Some (l', h') \<and> inv l' h' \<and>
        frame (blk_keys b) h h' \<and> owns l' \<subseteq> owns l \<union> blk_keys b"

lemma hsspi_layers_intro:
  assumes "\<And>lay. core_layer linv owns (msg_ok lay) (op_get (ops lay)) (op_received (ops lay)) tx_ok lay (op_sent (ops lay))"
  shows "hsspi_layers linv owns msg_ok tx_ok ops"
proof (rule hsspi_layers.intro, goal_cases)
  case (1 lay)
  show ?case using assms by (rule core_layer.axioms(1))
next
  case (2 l h blk bs status lay l' sends h')
  then show ?case using core_layer.received_sends [OF assms [of lay]] by blast
next
  case (3 l h b bs lay status)
  then show ?case using core_layer.sent_ok [OF assms [of lay]] by blast
qed

section \<open>Larger packets\<close>

text \<open>\<open>wrap\<close> puts a block in a packet, \<open>strip\<close> is the block of a packet.\<close>

definition wrap_get ::
  "('a hsspi_block_scheme \<Rightarrow> 'b hsspi_block_scheme) \<Rightarrow> ('l, 'a) get_op \<Rightarrow> ('l, 'b) get_op" where
  "wrap_get wrap get l n h = map_option (\<lambda>(b, l, h). (map_option wrap b, l, h)) (get l n h)"

definition wrap_received ::
  "('a hsspi_block_scheme \<Rightarrow> 'b hsspi_block_scheme) \<Rightarrow> ('b hsspi_block_scheme \<Rightarrow> 'a hsspi_block_scheme) \<Rightarrow>
   ('l, 'a) received_op \<Rightarrow> ('l, 'b) received_op" where
  "wrap_received wrap strip received l b status h =
     map_option (\<lambda>(l, sends, h). (l, map wrap sends, h)) (received l (strip b) status h)"

definition wrap_sent ::
  "('b hsspi_block_scheme \<Rightarrow> 'a hsspi_block_scheme) \<Rightarrow> ('l, 'a) sent_op \<Rightarrow> ('l, 'b) sent_op" where
  "wrap_sent strip sent l b status h = sent l (strip b) status h"

definition same_block :: "'a hsspi_block_scheme \<Rightarrow> 'b hsspi_block_scheme \<Rightarrow> bool" where
  "same_block a b \<longleftrightarrow> blk_data a = blk_data b \<and> blk_length a = blk_length b \<and> blk_size a = blk_size b"

lemma same_blockD:
  assumes "same_block a b"
  shows "block_holds h a bs = block_holds h b bs" "blk_keys a = blk_keys b" "blk_ptr_in a K = blk_ptr_in b K"
    "fresh_block h h' n a = fresh_block h h' n b"
  using assms by (simp_all add: same_block_def block_holds_def blk_keys_def blk_ptr_in_def fresh_block_def)

lemma disjoint_items_keys:
  "map fst xs = bs \<Longrightarrow> map fst ys = cs \<Longrightarrow> map blk_keys bs = map blk_keys cs \<Longrightarrow>
   disjoint_items xs = disjoint_items ys"
proof (induction xs arbitrary: ys bs cs)
  case Nil
  then show ?case by simp
next
  case (Cons x xs)
  then obtain y ys' where ys: "ys = y # ys'" "item_keys x = item_keys y" "map blk_keys (map fst xs) = map blk_keys (map fst ys')"
    by (cases ys) (auto simp: item_keys_def)
  have "item_keys ` set xs = item_keys ` set ys'"
    using arg_cong [OF ys(3), of set] by (simp add: item_keys_def image_comp comp_def)
  then have "(\<forall>z \<in> set xs. item_keys x \<inter> item_keys z = {}) = (\<forall>z \<in> set ys'. item_keys y \<inter> item_keys z = {})"
    unfolding ys(2) by (metis (no_types, lifting) imageE image_eqI)
  then show ?case using ys Cons.IH [OF refl refl ys(3)] by simp
qed

lemma sends_ok_wrap:
  assumes s: "sends_ok tx lay K blk h h' sends" and b: "same_block blk p"
    and w: "\<And>b. same_block b (wrap b)" and t: "\<And>b. tx lay b \<Longrightarrow> tx' lay (wrap b)"
  shows "sends_ok tx' lay K p h h' (map wrap sends)"
proof -
  have "disjoint_items (map (\<lambda>b. (b, lay)) (map wrap sends)) = disjoint_items (map (\<lambda>b. (b, lay)) sends)"
    by (rule disjoint_items_keys [OF refl refl]) (simp add: same_blockD(2) [OF w])
  moreover have "Ex (block_holds h' (wrap b)) = Ex (block_holds h' b)" for b
    by (rule arg_cong [where f = Ex]) (rule ext, rule same_blockD(1) [OF w, symmetric])
  ultimately show ?thesis using s t
    by (auto simp: sends_ok_def same_blockD(2) [OF w, symmetric] same_blockD(2) [OF b, symmetric])
qed

lemma core_layer_wrap:
  assumes L: "core_layer linv owns msg_ok get received tx lay sent"
    and w: "\<And>b. same_block b (wrap b)" and s: "\<And>p. same_block (strip p) p"
    and t: "\<And>b. tx lay b \<Longrightarrow> tx' lay (wrap b)" and t': "\<And>p. tx' lay p \<Longrightarrow> tx lay (strip p)"
  shows "core_layer linv owns msg_ok (wrap_get wrap get) (wrap_received wrap strip received) tx' lay (wrap_sent strip sent)"
proof -
  note U = core_layer.axioms(1) [OF L]
  show ?thesis
  proof (unfold_locales, goal_cases)
    case (1 l h) then show ?case by (rule upper_layer.inv_heap_ok [OF U])
  next
    case (2 l h k) then show ?case by (rule upper_layer.inv_live [OF U])
  next
    case (3 l h h') then show ?case by (rule upper_layer.inv_frame [OF U])
  next
    case (4 l h n)
    then show ?case using upper_layer.get_ok [OF U, of l h n] same_blockD(4) [OF w]
      by (fastforce simp: wrap_get_def split: option.splits)
  next
    case (5 l h p bs status)
    then show ?case
      using upper_layer.received_ok [OF U, of l h "strip p" bs status]
      by (fastforce simp: wrap_received_def same_blockD [OF s])
  next
    case (6 l h p bs status l' sends h')
    then obtain bsends where r: "received l (strip p) status h = Some (l', bsends, h')" "sends = map wrap bsends"
      by (auto simp: wrap_received_def)
    have "sends_ok tx lay (owns l') (strip p) h h' bsends"
      using core_layer.received_sends [OF L 6(1) _ 6(3) _ 6(5) r(1)] 6(2,4) by (simp add: same_blockD [OF s])
    then show ?case unfolding r(2) by (rule sends_ok_wrap) (rule s w t, assumption?)+
  next
    case (7 l h p bs status)
    then show ?case
      using core_layer.sent_ok [OF L, of l h "strip p" bs status] t' by (simp add: wrap_sent_def same_blockD [OF s])
  qed
qed

section \<open>Layers side by side\<close>

text \<open>The operations of a layer on a larger state, of which \<open>sel\<close> and \<open>upd\<close> access its component.\<close>

definition focus_get :: "('w \<Rightarrow> 'l) \<Rightarrow> ('l \<Rightarrow> 'w \<Rightarrow> 'w) \<Rightarrow> ('l, 'b) get_op \<Rightarrow> ('w, 'b) get_op" where
  "focus_get sel upd get w n h = map_option (\<lambda>(b, l, h). (b, upd l w, h)) (get (sel w) n h)"

definition focus_received ::
  "('w \<Rightarrow> 'l) \<Rightarrow> ('l \<Rightarrow> 'w \<Rightarrow> 'w) \<Rightarrow> ('l, 'b) received_op \<Rightarrow> ('w, 'b) received_op" where
  "focus_received sel upd received w b status h =
     map_option (\<lambda>(l, sends, h). (upd l w, sends, h)) (received (sel w) b status h)"

definition focus_sent :: "('w \<Rightarrow> 'l) \<Rightarrow> ('l \<Rightarrow> 'w \<Rightarrow> 'w) \<Rightarrow> ('l, 'b) sent_op \<Rightarrow> ('w, 'b) sent_op" where
  "focus_sent sel upd sent w b status h = map_option (\<lambda>(l, h). (upd l w, h)) (sent (sel w) b status h)"

text \<open>
  The rest of the state: its invariant depends on its own memory only, and neither on the component.
\<close>

locale neighbours =
  fixes upd :: "'l \<Rightarrow> 'w \<Rightarrow> 'w" and ninv :: "'w \<Rightarrow> kheap \<Rightarrow> bool" and nowns :: "'w \<Rightarrow> nat set"
  assumes n_below: "\<lbrakk>ninv w h; k \<in> nowns w\<rbrakk> \<Longrightarrow> hp_mem h k \<noteq> None"
    and n_frame: "\<lbrakk>ninv w h; \<And>k. k \<in> nowns w \<Longrightarrow> hp_mem h' k = hp_mem h k; heap_ok h'\<rbrakk> \<Longrightarrow> ninv w h'"
    and n_upd: "ninv (upd l w) h = ninv w h" "nowns (upd l w) = nowns w"
begin

lemma n_low: "ninv w h \<Longrightarrow> heap_ok h \<Longrightarrow> k \<in> nowns w \<Longrightarrow> k < hp_next h"
  using n_below by (meson heap_ok_def not_less)

text \<open>A step of the layer, which changes memory in \<open>K\<close> and owns memory there or new memory afterwards.\<close>

lemma kept:
  assumes n: "ninv w h" and h: "heap_ok h" and f: "frame K h h'" and h': "heap_ok h'" and K: "K \<inter> nowns w = {}"
    and g: "O' \<subseteq> K \<union> {k. hp_next h \<le> k}"
  shows "ninv (upd l w) h' \<and> O' \<inter> nowns (upd l w) = {}"
proof -
  have "ninv w h'"
    by (rule n_frame [OF n _ h']) (use f K n_low [OF n h] in \<open>auto simp: frame_def\<close>)
  moreover have "O' \<inter> nowns w = {}" using g K n_low [OF n h] by fastforce
  ultimately show ?thesis by (simp add: n_upd)
qed

end

definition beside ::
  "('w \<Rightarrow> 'l) \<Rightarrow> ('l \<Rightarrow> kheap \<Rightarrow> bool) \<Rightarrow> ('l \<Rightarrow> nat set) \<Rightarrow> ('w \<Rightarrow> kheap \<Rightarrow> bool) \<Rightarrow> ('w \<Rightarrow> nat set) \<Rightarrow>
   'w \<Rightarrow> kheap \<Rightarrow> bool" where
  "beside sel linv owns ninv nowns w h \<longleftrightarrow> linv (sel w) h \<and> ninv w h \<and> owns (sel w) \<inter> nowns w = {}"

text \<open>A step of one layer keeps its neighbours and the memory apart.\<close>

lemma beside_step:
  assumes N: "neighbours upd ninv nowns" and u: "\<And>l w. sel (upd l w) = l"
    and b: "beside sel linv owns ninv nowns w h" "heap_ok h" "K \<inter> nowns w = {}"
    and s: "linv l' h'" "heap_ok h'" "frame (owns (sel w) \<union> K) h h'"
      "owns l' \<subseteq> owns (sel w) \<union> K \<union> {k. hp_next h \<le> k}"
  shows "beside sel linv owns ninv nowns (upd l' w) h'"
proof -
  have "ninv (upd l' w) h' \<and> owns l' \<inter> nowns (upd l' w) = {}"
    by (rule neighbours.kept [OF N _ b(2) s(3,2) _ s(4)]) (use b in \<open>auto simp: beside_def\<close>)
  then show ?thesis using s(1) by (simp add: beside_def u)
qed

lemma apart_keys:
  "\<not> blk_ptr_in b (A \<union> B) \<Longrightarrow> \<not> blk_ptr_in b A \<and> blk_keys b \<inter> B = {}"
  by (auto simp: blk_ptr_in_def blk_keys_def)

lemma core_layer_focus:
  assumes L: "core_layer linv owns msg_ok get received tx lay sent" and N: "neighbours upd ninv nowns"
    and u: "\<And>l w. sel (upd l w) = l" "\<And>w. upd (sel w) w = w"
  shows "core_layer (beside sel linv owns ninv nowns) (\<lambda>w. owns (sel w) \<union> nowns w) (\<lambda>w. msg_ok (sel w))
    (focus_get sel upd get) (focus_received sel upd received) tx lay (focus_sent sel upd sent)"
proof -
  note U = core_layer.axioms(1) [OF L]
  have ok: "heap_ok h" if "beside sel linv owns ninv nowns w h" for w h
    using that upper_layer.inv_heap_ok [OF U] unfolding beside_def by blast
  have i: "linv (sel w) h" if "beside sel linv owns ninv nowns w h" for w h
    using that by (simp add: beside_def)
  note step = beside_step [OF N u(1)]
  show ?thesis
  proof (unfold_locales, goal_cases)
    case (1 w h) then show ?case by (rule ok)
  next
    case (2 w h k)
    then show ?case using upper_layer.inv_live [OF U] neighbours.n_below [OF N] unfolding beside_def by blast
  next
    case (3 w h h')
    then show ?case using upper_layer.inv_frame [OF U, of "sel w" h h'] neighbours.n_frame [OF N, of w h h']
      unfolding beside_def by blast
  next
    case (4 w h n)
    then obtain b h' where g: "get (sel w) n h = Some (b, sel w, h')" "linv (sel w) h'" "frame {} h h'"
      "case b of None \<Rightarrow> True | Some blk \<Rightarrow> fresh_block h h' n blk"
      using upper_layer.get_ok [OF U, of "sel w" h n] unfolding beside_def by blast
    have "beside sel linv owns ninv nowns (upd (sel w) w) h'"
      by (rule step [OF 4(1) ok [OF 4(1)] _ g(2) upper_layer.inv_heap_ok [OF U g(2)] frame_mono [OF g(3)]]) auto
    then show ?case using g by (simp add: focus_get_def u(2))
  next
    case (5 w h blk bs status)
    have b: "\<not> blk_ptr_in blk (owns (sel w))" "blk_keys blk \<inter> nowns w = {}"
      using apart_keys [OF 5(4)] by simp_all
    obtain l' sends h' where r: "received (sel w) blk status h = Some (l', sends, h')" "linv l' h'"
      "frame (owns (sel w) \<union> blk_keys blk) h h'" "owns l' \<subseteq> owns (sel w) \<union> blk_keys blk \<union> {k. hp_next h \<le> k}"
      using upper_layer.received_ok [OF U i [OF 5(1)] 5(2,3) b(1) 5(5)] by blast
    have "beside sel linv owns ninv nowns (upd l' w) h'"
      by (rule step [OF 5(1) ok [OF 5(1)] b(2) r(2) upper_layer.inv_heap_ok [OF U r(2)] r(3,4)])
    moreover have "frame (owns (sel w) \<union> nowns w \<union> blk_keys blk) h h'" by (rule frame_mono [OF r(3)]) auto
    ultimately show ?case using r(1,4)
      by (auto simp: focus_received_def u(1) neighbours.n_upd(2) [OF N])
  next
    case (6 w h blk bs status w' sends h')
    then obtain l' where r: "received (sel w) blk status h = Some (l', sends, h')" "w' = upd l' w"
      by (auto simp: focus_received_def)
    have b: "\<not> blk_ptr_in blk (owns (sel w))" "blk_keys blk \<inter> nowns w = {}"
      using apart_keys [OF 6(4)] by simp_all
    have s: "sends_ok tx lay (owns l') blk h h' sends"
      by (rule core_layer.received_sends [OF L i [OF 6(1)] 6(2,3) b(1) 6(5) r(1)])
    have n: "ninv w h" using 6(1) by (simp add: beside_def)
    have "blk_keys c \<inter> nowns w = {}" if "c \<in> set sends" for c
    proof -
      have "blk_keys c \<subseteq> blk_keys blk \<union> {k. hp_next h \<le> k}" using s that by (simp add: sends_ok_def)
      then show ?thesis using b(2) neighbours.n_low [OF N n ok [OF 6(1)]] by fastforce
    qed
    then show ?case using s by (auto simp: sends_ok_def r(2) u(1) neighbours.n_upd(2) [OF N])
  next
    case (7 w h b bs status)
    have b: "\<not> blk_ptr_in b (owns (sel w))" "blk_keys b \<inter> nowns w = {}"
      using apart_keys [OF 7(3)] by simp_all
    obtain l' h' where r: "sent (sel w) b status h = Some (l', h')" "linv l' h'" "frame (blk_keys b) h h'"
      "owns l' \<subseteq> owns (sel w) \<union> blk_keys b"
      using core_layer.sent_ok [OF L i [OF 7(1)] 7(2) b(1) 7(4)] by blast
    have "beside sel linv owns ninv nowns (upd l' w) h'"
      by (rule step [OF 7(1) ok [OF 7(1)] b(2) r(2) upper_layer.inv_heap_ok [OF U r(2)] frame_mono [OF r(3)]])
        (use r(4) in auto)
    then show ?case using r by (auto simp: focus_sent_def u(1) neighbours.n_upd(2) [OF N])
  qed
qed

lemma core_layer_tx_cong:
  assumes L: "core_layer linv owns msg_ok get received tx lay sent" and t: "\<And>b. tx' lay b = tx lay b"
  shows "core_layer linv owns msg_ok get received tx' lay sent"
proof (intro core_layer.intro core_layer_axioms.intro core_layer.axioms(1) [OF L], goal_cases)
  case (1 l h blk bs status l' sends h')
  have "sends_ok tx lay (owns l') blk h h' sends" using core_layer.received_sends [OF L] 1 by blast
  then show ?case by (simp add: sends_ok_def t)
next
  case (2 l h b bs status)
  then show ?case using core_layer.sent_ok [OF L] t by blast
qed

end
