(* ===== verification/Qm35_System.thy ===== *)
theory Qm35_System
  imports Core_Layer Hsspi_Props Log_Props Hsspi_Test
begin

text \<open>
  The whole driver side of the SPI link: the HSSPI core with its four layers (UCI, coredump, log, test)
  in one heap.  The core sees the blocks inside the layers' packets; here every packet has the form of a
  UCI packet, of which the other layers use the block only.
\<close>

section \<open>The layers\<close>

lemma uci_layer_contract:
  "core_layer uci_world_inv uci_world_owns (\<lambda>_ _. True) (op_get (uci_ops hl)) (op_received (uci_ops hl)) uci_tx_ok hl
     (op_sent (uci_ops hl))"
proof (intro core_layer.intro core_layer_axioms.intro uci_core.layer, goal_cases)
  case (1 l h blk bs status l' sends h')
  then show ?case by (blast intro: uci_core.received_sends)
next
  case (2 l h b bs status)
  then show ?case by (blast intro: uci_core.sent_ok)
qed

lemma packet_freed:
  assumes "heap_ok h" "block_holds h p bs"
  shows "\<exists>h'. coredump_packet_free p h = Some h' \<and> heap_ok h' \<and> frame (blk_keys p) h h'"
  using packet_free_ok [OF assms] by blast

lemma coredump_layer_contract:
  "core_layer cd_inv cd_owns cd_msg_ok coredump_get coredump_received (\<lambda>_ _. True) hl coredump_sent"
proof (intro core_layer.intro core_layer_axioms.intro coredump_ul.upper_layer_axioms, goal_cases)
  case (1 l h blk bs status l' sends h')
  have ok: "status = 0 \<longrightarrow> cd_msg_ok l bs" using 1(5) by blast
  have one: "length sends \<le> 1" and sep: "sent_keys sends \<inter> cd_owns l' = {}" and s: "\<exists>msgs. cd_sends_ok h sends h' msgs"
    using coredump_received_ok [OF 1(1-4) ok] 1(6) by auto
  have "\<exists>bs. block_holds h' b bs" if "b \<in> set sends" for b
    using s that by (auto simp: cd_sends_ok_def in_set_conv_nth list_all2_conv_all_nth)
  moreover have "\<forall>b \<in> set sends. \<forall>k \<in> blk_keys b. hp_next h \<le> k" using s by (auto simp: cd_sends_ok_def)
  moreover have "disjoint_items (map (\<lambda>b. (b, hl)) sends)"
    using one by (cases sends) auto
  ultimately show ?case using sep unfolding sends_ok_def sent_keys_def by blast
next
  case (2 l h b bs status)
  have hok: "heap_ok h" using 2(1) by (simp add: cd_inv_def)
  obtain h' where f: "coredump_packet_free b h = Some h'" "heap_ok h'" "frame (blk_keys b) h h'"
    using packet_freed [OF hok 2(2)] by blast
  have "hp_mem h' k = hp_mem h k" if "k \<in> cd_owns l" for k
  proof -
    have "k \<notin> blk_keys b" using 2(3) that by (auto simp: blk_ptr_in_def blk_keys_def)
    moreover have "k < hp_next h" by (rule coredump_ul.live_below [OF 2(1) that])
    ultimately show ?thesis using f(3) by (simp add: frame_def)
  qed
  then have "cd_inv l h'" using cd_inv_frame [OF 2(1) _ f(2)] by blast
  then show ?case using f by (auto simp: coredump_sent_def)
qed

lemma log_layer_contract:
  "core_layer log_inv (\<lambda>_. {}) log_msg_ok log_get log_received (\<lambda>_ _. True) hl log_sent"
proof (intro core_layer.intro core_layer_axioms.intro log_ul.upper_layer_axioms, goal_cases)
  case (1 l h blk bs status l' sends h')
  have ok: "status = 0 \<longrightarrow> log_msg_ok l bs" using 1(5) by blast
  show ?case using log_received_ok [OF 1(1,2) ok] 1(6) by (auto simp: sends_ok_def)
next
  case (2 l h b bs status)
  have hok: "heap_ok h" using 2(1) by (simp add: log_inv_def)
  obtain h' where f: "coredump_packet_free b h = Some h'" "heap_ok h'" "frame (blk_keys b) h h'"
    using packet_freed [OF hok 2(2)] by blast
  then show ?case using log_inv_heap [OF 2(1) f(2)] by (auto simp: log_sent_def log_packet_eqs)
qed

lemma test_layer_contract:
  "core_layer (\<lambda>_. heap_ok) (\<lambda>_. {}) (\<lambda>_ _. True) hsspi_test_get hsspi_test_received (\<lambda>_ _. True) hl hsspi_test_sent"
proof (intro core_layer.intro core_layer_axioms.intro test_ul.upper_layer_axioms, goal_cases)
  case (1 l h blk bs status l' sends h')
  have "sends = [blk]" "h' = h" using test_received_ok [OF 1(2), of l status] 1(6) by auto
  then show ?case using 1(2) by (auto simp: sends_ok_def)
next
  case (2 l h b bs status)
  then show ?case
    using packet_freed [OF 2(1,2)]
    by (auto simp: hsspi_test_sent_def coredump_packet_free_def hsspi_deinit_block_def split: option.splits)
qed

section \<open>Side by side\<close>

record qm35_layers =
  ql_uci :: uci_world
  ql_coredump :: coredump_layer
  ql_log :: log_layer
  ql_test :: test_layer

definition packet_of :: "hsspi_block \<Rightarrow> uci_packet" where
  "packet_of b = zero_packet\<lparr>blk_data := blk_data b, blk_length := blk_length b, blk_size := blk_size b\<rparr>"

definition block_of :: "uci_packet \<Rightarrow> hsspi_block" where
  "block_of p = \<lparr>blk_data = blk_data p, blk_length = blk_length p, blk_size = blk_size p\<rparr>"

lemma packet_blocks [simp]: "same_block b (packet_of b)" "same_block (block_of p) p"
  by (simp_all add: same_block_def packet_of_def block_of_def)

text \<open>The table of operations, by the identifier of the layer.\<close>

definition block_ops ::
  "(qm35_layers \<Rightarrow> 'l) \<Rightarrow> ('l \<Rightarrow> qm35_layers \<Rightarrow> qm35_layers) \<Rightarrow> ('l, unit) get_op \<Rightarrow> ('l, unit) received_op \<Rightarrow>
   ('l, unit) sent_op \<Rightarrow> (qm35_layers, unit uci_packet_ext) layer_ops" where
  "block_ops sel upd get received sent =
     \<lparr>op_get = focus_get sel upd (wrap_get packet_of get),
      op_received = focus_received sel upd (wrap_received packet_of block_of received),
      op_sent = focus_sent sel upd (wrap_sent block_of sent)\<rparr>"

definition qm35_ops :: "(qm35_layers, unit uci_packet_ext) ops_table" where
  "qm35_ops hl =
     (if lay_id hl = UL_COREDUMP then
        block_ops ql_coredump (\<lambda>l w. w\<lparr>ql_coredump := l\<rparr>) coredump_get coredump_received coredump_sent
      else if lay_id hl = UL_LOG then
        block_ops ql_log (\<lambda>l w. w\<lparr>ql_log := l\<rparr>) log_get log_received log_sent
      else if lay_id hl = UL_TEST_HSSPI then
        block_ops ql_test (\<lambda>l w. w\<lparr>ql_test := l\<rparr>) hsspi_test_get hsspi_test_received hsspi_test_sent
      else
        \<lparr>op_get = focus_get ql_uci (\<lambda>l w. w\<lparr>ql_uci := l\<rparr>) (op_get (uci_ops hl)),
         op_received = focus_received ql_uci (\<lambda>l w. w\<lparr>ql_uci := l\<rparr>) (op_received (uci_ops hl)),
         op_sent = focus_sent ql_uci (\<lambda>l w. w\<lparr>ql_uci := l\<rparr>) (op_sent (uci_ops hl))\<rparr>)"

definition qm35_layers_inv :: "qm35_layers \<Rightarrow> kheap \<Rightarrow> bool" where
  "qm35_layers_inv w h \<longleftrightarrow> uci_world_inv (ql_uci w) h \<and> cd_inv (ql_coredump w) h \<and> log_inv (ql_log w) h \<and>
     uci_world_owns (ql_uci w) \<inter> cd_owns (ql_coredump w) = {}"

definition qm35_owns :: "qm35_layers \<Rightarrow> nat set" where
  "qm35_owns w = uci_world_owns (ql_uci w) \<union> cd_owns (ql_coredump w)"

definition qm35_msg_ok :: "hsspi_layer \<Rightarrow> qm35_layers \<Rightarrow> byte list \<Rightarrow> bool" where
  "qm35_msg_ok hl w bs =
     (if lay_id hl = UL_COREDUMP then cd_msg_ok (ql_coredump w) bs
      else if lay_id hl = UL_LOG then log_msg_ok (ql_log w) bs
      else True)"

definition qm35_tx_ok :: "hsspi_layer \<Rightarrow> uci_packet \<Rightarrow> bool" where
  "qm35_tx_ok hl p \<longleftrightarrow> (lay_id hl \<notin> {UL_COREDUMP, UL_LOG, UL_TEST_HSSPI} \<longrightarrow> pk_write_done p \<noteq> None)"

section \<open>The core over the four layers\<close>

lemma focus_layer_contract:
  assumes L: "core_layer linv owns msg_ok get received qm35_tx_ok hl sent" and N: "neighbours upd ninv nowns"
    and u: "\<And>l w. sel (upd l w) = l" "\<And>w. upd (sel w) w = w"
    and i: "beside sel linv owns ninv nowns = qm35_layers_inv" "(\<lambda>w. owns (sel w) \<union> nowns w) = qm35_owns"
    and m: "qm35_msg_ok hl = (\<lambda>w. msg_ok (sel w))"
    and o: "qm35_ops hl = \<lparr>op_get = focus_get sel upd get, op_received = focus_received sel upd received,
      op_sent = focus_sent sel upd sent\<rparr>"
  shows "core_layer qm35_layers_inv qm35_owns (qm35_msg_ok hl) (op_get (qm35_ops hl)) (op_received (qm35_ops hl)) qm35_tx_ok hl
    (op_sent (qm35_ops hl))"
  using core_layer_focus [OF L N, of sel, OF u] by (simp add: i m o)

lemma block_layer_contract:
  assumes L: "\<And>hl. core_layer linv owns msg_ok get received (\<lambda>_ _. True) hl sent" and N: "neighbours upd ninv nowns"
    and u: "\<And>l w. sel (upd l w) = l" "\<And>w. upd (sel w) w = w"
    and i: "beside sel linv owns ninv nowns = qm35_layers_inv" "(\<lambda>w. owns (sel w) \<union> nowns w) = qm35_owns"
    and h: "lay_id hl \<in> {UL_COREDUMP, UL_LOG, UL_TEST_HSSPI}" and m: "qm35_msg_ok hl = (\<lambda>w. msg_ok (sel w))"
    and o: "qm35_ops hl = block_ops sel upd get received sent"
  shows "core_layer qm35_layers_inv qm35_owns (qm35_msg_ok hl) (op_get (qm35_ops hl)) (op_received (qm35_ops hl)) qm35_tx_ok hl
    (op_sent (qm35_ops hl))"
proof -
  have w: "core_layer linv owns msg_ok (wrap_get packet_of get) (wrap_received packet_of block_of received) qm35_tx_ok hl
      (wrap_sent block_of sent)"
    by (rule core_layer_wrap [OF L]) (use h in \<open>auto simp: qm35_tx_ok_def\<close>)
  show ?thesis by (rule focus_layer_contract [OF w N u i m]) (simp_all add: o block_ops_def)
qed

text \<open>What the layers that own memory say of their neighbours.\<close>

lemma owned_live:
  "uci_world_inv u h \<Longrightarrow> k \<in> uci_world_owns u \<Longrightarrow> hp_mem h k \<noteq> None"
  "cd_inv l h \<Longrightarrow> k \<in> cd_owns l \<Longrightarrow> hp_mem h k \<noteq> None"
  by (rule upper_layer.inv_live [OF uci_core.layer], assumption+) (rule coredump_ul.inv_live)

lemma uci_neighbours:
  "neighbours (\<lambda>l w. w\<lparr>ql_uci := l\<rparr>) (\<lambda>w h. cd_inv (ql_coredump w) h \<and> log_inv (ql_log w) h) (\<lambda>w. cd_owns (ql_coredump w))"
proof (unfold_locales, goal_cases)
  case (1 w h k) then show ?case using owned_live(2) [of "ql_coredump w" h k] by simp
next
  case (2 w h h')
  then have "cd_inv (ql_coredump w) h'" using cd_inv_frame(1) [of "ql_coredump w" h h'] by simp
  then show ?case using 2 log_inv_heap by blast
qed simp_all

lemma coredump_neighbours:
  "neighbours (\<lambda>l w. w\<lparr>ql_coredump := l\<rparr>) (\<lambda>w h. uci_world_inv (ql_uci w) h \<and> log_inv (ql_log w) h)
     (\<lambda>w. uci_world_owns (ql_uci w))"
proof (unfold_locales, goal_cases)
  case (1 w h k) then show ?case using owned_live(1) [of "ql_uci w" h k] by simp
next
  case (2 w h h')
  then have "uci_world_inv (ql_uci w) h'" using uci_core.frame_inv [of "ql_uci w" h h'] by simp
  then show ?case using 2 log_inv_heap by blast
qed simp_all

text \<open>The log layer and the test layer own nothing in the heap.\<close>

definition owners_inv :: "qm35_layers \<Rightarrow> kheap \<Rightarrow> bool" where
  "owners_inv w h \<longleftrightarrow> uci_world_inv (ql_uci w) h \<and> cd_inv (ql_coredump w) h \<and>
     uci_world_owns (ql_uci w) \<inter> cd_owns (ql_coredump w) = {}"

lemma owners_live: "owners_inv w h \<Longrightarrow> k \<in> qm35_owns w \<Longrightarrow> hp_mem h k \<noteq> None"
  using owned_live(1) [of "ql_uci w" h k] owned_live(2) [of "ql_coredump w" h k]
  by (auto simp: owners_inv_def qm35_owns_def)

lemma owners_frame:
  assumes "owners_inv w h" "\<And>k. k \<in> qm35_owns w \<Longrightarrow> hp_mem h' k = hp_mem h k" "heap_ok h'"
  shows "owners_inv w h'"
proof -
  have "uci_world_inv (ql_uci w) h'" by (rule uci_core.frame_inv) (use assms in \<open>auto simp: owners_inv_def qm35_owns_def\<close>)
  moreover have "cd_inv (ql_coredump w) h'" by (rule cd_inv_frame(1)) (use assms in \<open>auto simp: owners_inv_def qm35_owns_def\<close>)
  ultimately show ?thesis using assms(1) by (simp add: owners_inv_def)
qed

lemma log_neighbours: "neighbours (\<lambda>l w. w\<lparr>ql_log := l\<rparr>) owners_inv qm35_owns"
proof (unfold_locales, goal_cases)
  case 1 then show ?case by (rule owners_live)
next
  case 2 then show ?case by (rule owners_frame)
qed (simp_all add: owners_inv_def qm35_owns_def)

lemma test_neighbours:
  "neighbours (\<lambda>l w. w\<lparr>ql_test := l\<rparr>) (\<lambda>w h. owners_inv w h \<and> log_inv (ql_log w) h) qm35_owns"
proof (unfold_locales, goal_cases)
  case (1 w h k) then show ?case using owners_live [of w h k] by simp
next
  case (2 w h h')
  then have "owners_inv w h'" using owners_frame [of w h h'] by simp
  then show ?case using 2 log_inv_heap by blast
qed (simp_all add: owners_inv_def qm35_owns_def)

text \<open>The table keeps the contract of \<open>hsspi_layers\<close>, layer by layer.\<close>

lemma qm35_layer_contract:
  "core_layer qm35_layers_inv qm35_owns (qm35_msg_ok hl) (op_get (qm35_ops hl)) (op_received (qm35_ops hl)) qm35_tx_ok hl
     (op_sent (qm35_ops hl))"
proof -
  note ids = UL_COREDUMP_def UL_LOG_def UL_TEST_HSSPI_def
  note invs = fun_eq_iff beside_def qm35_layers_inv_def qm35_owns_def owners_inv_def
  consider "lay_id hl = UL_COREDUMP" | "lay_id hl = UL_LOG" | "lay_id hl = UL_TEST_HSSPI"
    | "lay_id hl \<notin> {UL_COREDUMP, UL_LOG, UL_TEST_HSSPI}" by blast
  then show ?thesis
  proof cases
    case 1
    show ?thesis
      by (rule block_layer_contract [OF coredump_layer_contract coredump_neighbours, where sel = ql_coredump])
        (use 1 in \<open>auto simp: invs qm35_msg_ok_def qm35_ops_def ids\<close>)
  next
    case 2
    show ?thesis
      by (rule block_layer_contract [OF log_layer_contract log_neighbours, where sel = ql_log])
        (use 2 in \<open>auto simp: invs qm35_msg_ok_def qm35_ops_def ids\<close>)
  next
    case 3
    show ?thesis
      by (rule block_layer_contract [OF test_layer_contract test_neighbours, where sel = ql_test])
        (use 3 in \<open>auto simp: invs qm35_msg_ok_def qm35_ops_def ids cd_inv_def\<close>)
  next
    case 4
    have u: "core_layer uci_world_inv uci_world_owns (\<lambda>_ _. True) (op_get (uci_ops hl)) (op_received (uci_ops hl)) qm35_tx_ok hl
        (op_sent (uci_ops hl))"
      by (rule core_layer_tx_cong [OF uci_layer_contract]) (use 4 in \<open>simp add: qm35_tx_ok_def uci_tx_ok_def\<close>)
    show ?thesis
      by (rule focus_layer_contract [OF u uci_neighbours, where sel = ql_uci])
        (use 4 in \<open>auto simp: invs qm35_msg_ok_def qm35_ops_def\<close>)
  qed
qed

interpretation qm35_core: hsspi_layers qm35_layers_inv qm35_owns qm35_msg_ok qm35_tx_ok qm35_ops
  by (rule hsspi_layers_intro) (rule qm35_layer_contract)

text \<open>The contracts of the parts, on the part each describes.\<close>

interpretation uci_part: core_layer uci_world_inv uci_world_owns "\<lambda>_ _. True" "op_get (uci_ops hl)"
    "op_received (uci_ops hl)" uci_tx_ok hl "op_sent (uci_ops hl)" for hl
  by (rule uci_layer_contract)

interpretation coredump_part: core_layer cd_inv cd_owns cd_msg_ok coredump_get coredump_received "\<lambda>_ _. True" hl
    coredump_sent for hl
  by (rule coredump_layer_contract)

interpretation beside_uci: neighbours "\<lambda>l w. w\<lparr>ql_uci := l\<rparr>" "\<lambda>w h. cd_inv (ql_coredump w) h \<and> log_inv (ql_log w) h"
    "\<lambda>w. cd_owns (ql_coredump w)"
  by (rule uci_neighbours)

end
