(* ===== verification/Uci_File.thy ===== *)
theory Uci_File
  imports Uci_Core
begin

text \<open>
  The write side of the character device (\<open>uci_write\<close> and \<open>uci_poll\<close> of qm35-spi.c), in front of the
  core: a packet with the user's bytes is queued, and the writer sleeps until the HSSPI thread has
  completed it.
\<close>

definition EPOLLIN :: nat where "EPOLLIN = 1"

definition uci_poll :: "uci_layer \<Rightarrow> nat" where
  "uci_poll uci = (if uci_layer_has_data_available uci then EPOLLIN else 0)"

text \<open>
  \<open>copy_from_user\<close> of the bytes \<open>buf\<close> when the last \<open>uncopied\<close> of them cannot be read: these are zeroed.
\<close>

definition copy_from_user :: "kptr \<times> nat \<Rightarrow> byte list \<Rightarrow> nat \<Rightarrow> kheap \<Rightarrow> (nat \<times> kheap) option" where
  "copy_from_user to buf uncopied h =
     (let rest = min uncopied (length buf)
      in map_option (\<lambda>h'. (rest, h'))
           (heap_write h (fst to) (snd to) (take (length buf - rest) buf @ replicate rest 0)))"

text \<open>
  \<open>uci_write\<close> of the bytes \<open>buf\<close> up to its wait: the negative error it returns at once, or the packet
  whose completion \<open>cmpl\<close> it waits for.
\<close>

definition uci_write_begin ::
  "hsspi_layer \<Rightarrow> nat \<Rightarrow> byte list \<Rightarrow> nat \<Rightarrow> ('l, unit uci_packet_ext) hsspi \<Rightarrow>
   ((int + uci_packet) \<times> ('l, unit uci_packet_ext) hsspi) option" where
  "uci_write_begin lay cmpl buf uncopied s = do {
     (p, heap) \<leftarrow> uci_packet_alloc (length buf) (hs_heap s);
     let s = s\<lparr>hs_heap := heap\<rparr>;
     case p of
       None \<Rightarrow> Some (Inl (- ENOMEM), s)
     | Some p \<Rightarrow> do {
         let p = p\<lparr>pk_write_done := Some cmpl\<rparr>;
         (rest, heap) \<leftarrow> copy_from_user (pk_data p) buf uncopied (hs_heap s);
         let (ret, s) = (if rest \<noteq> 0 then (- EFAULT, s\<lparr>hs_heap := heap\<rparr>)
                         else hsspi_send (Some lay) (Some p) (s\<lparr>hs_heap := heap\<rparr>));
         if ret = 0 then Some (Inr p, s)
         else do {
           heap \<leftarrow> uci_packet_free p (hs_heap s);
           Some (Inl ret, s\<lparr>hs_heap := heap\<rparr>)
         }
       }
   }"

text \<open>\<open>uci_write\<close> after its wait, of a packet made for \<open>len\<close> bytes.\<close>

definition uci_write_end :: "uci_packet \<Rightarrow> nat \<Rightarrow> kheap \<Rightarrow> (int \<times> kheap) option" where
  "uci_write_end p len heap =
     map_option (\<lambda>heap. (if pk_status p \<noteq> 0 then pk_status p else int len, heap)) (uci_packet_free p heap)"

section \<open>Every branch of a write\<close>

lemma uci_packet_alloc_data:
  "uci_packet_alloc n h = Some (Some p, h') \<Longrightarrow> pk_data p = (blk_data p, 0) \<and> blk_length p = u16 n \<and> blk_size p = u16 n"
  by (auto simp: uci_packet_alloc_def hsspi_init_block_def krealloc_def split: option.splits prod.splits if_splits)

lemma hsspi_send_results:
  assumes "hsspi_send (Some lay) (Some b) s = (ret, s')"
  shows "same_mem (hs_heap s) (hs_heap s') \<and> hs_up s' = hs_up s \<and>
    (if ret = 0
     then hs_state s = HSSPI_RUNNING \<and> lay_id lay < UL_MAX_IDX \<and> hs_layers s ! lay_id lay = Some lay \<and>
       hs_work_list s' = hs_work_list s @ [HSSPI_WORK_TX b lay]
     else ret \<in> {- EINVAL, - ENOMEM, - EAGAIN} \<and> (\<exists>heap. s' = s\<lparr>hs_heap := heap\<rparr>))"
  using assms
  by (auto simp: hsspi_send_def Let_def work_add_tail_def emit_def layer_id_is_valid_def
      split: if_splits prod.splits dest: same_mem_kzalloc intro: exI [of _ "hs_heap s'"])

lemma mem_kept:
  assumes "heap_ok h" "frame {} h h1" "live h1 = live h \<union> K" "j \<notin> K"
  shows "hp_mem h1 j = hp_mem h j"
proof (cases "j < hp_next h")
  case True
  then show ?thesis using assms(2) by (simp add: frame_def)
next
  case False
  then have "j \<notin> live h" "j \<notin> live h1" using assms by (auto simp: heap_ok_def live_def)
  then show ?thesis by (simp add: live_def)
qed

lemma packet_freed_fresh:
  assumes ok: "heap_ok h" and f: "fresh_block h h1 n p" "frame {} h h1" "live h1 = live h \<union> blk_keys p"
    and m: "hp_mem h2 = hp_mem h1" "hp_next h1 \<le> hp_next h2"
  shows "\<exists>h3. uci_packet_free p h2 = Some h3 \<and> hp_mem h3 = hp_mem h \<and> heap_ok h3"
proof -
  obtain bs where b: "block_holds h1 p bs" and k: "\<forall>k \<in> blk_keys p. hp_next h \<le> k"
    using f(1) by (auto simp: fresh_block_def)
  note same = mem_kept [OF ok f(2,3)]
  have above: "hp_mem h j = None" if "hp_next h2 \<le> j" for j
    using that ok f(2) m(2) by (auto simp: heap_ok_def frame_def)
  show ?thesis
  proof (cases "blk_data p")
    case (Ptr i)
    then have i: "hp_mem h i = None" using k ok by (auto simp: blk_keys_def heap_ok_def)
    then have "(hp_mem h1)(i := None) = hp_mem h"
      using same Ptr by (auto simp: blk_keys_def fun_eq_iff)
    then show ?thesis using b m(1) Ptr above
      by (auto simp: uci_packet_free_def hsspi_deinit_block_def block_holds_def kfree_def heap_ok_def)
  next
    case ZeroPtr
    then have "hp_mem h1 = hp_mem h" using same by (auto simp: blk_keys_def fun_eq_iff)
    then show ?thesis using ZeroPtr m(1) above
      by (auto simp: uci_packet_free_def hsspi_deinit_block_def heap_ok_def)
  qed (use b in \<open>simp add: block_holds_def\<close>)
qed

lemma copy_from_user_ok:
  assumes f: "fresh_block h h1 n p" and n: "length buf = n" and d: "pk_data p = (blk_data p, 0)"
  shows "\<exists>h2. copy_from_user (pk_data p) buf u h1 = Some (min u n, h2) \<and>
    (min u n = 0 \<longrightarrow> block_holds h2 p buf) \<and> fresh_block h h2 n p \<and> hp_next h2 = hp_next h1 \<and>
    hp_oracle h2 = hp_oracle h1 \<and> (\<forall>k. k \<notin> blk_keys p \<longrightarrow> hp_mem h2 k = hp_mem h1 k) \<and> live h2 = live h1"
proof -
  let ?bytes = "take (length buf - min u (length buf)) buf @ replicate (min u (length buf)) 0"
  have "length ?bytes = n" using n by simp
  then obtain h2 where "heap_write h1 (blk_data p) 0 ?bytes = Some h2" "block_holds h2 p ?bytes"
    "hp_next h2 = hp_next h1" "hp_oracle h2 = hp_oracle h1" "\<forall>k. k \<notin> blk_keys p \<longrightarrow> hp_mem h2 k = hp_mem h1 k"
    "live h2 = live h1"
    using fill_block [OF f] by blast
  moreover have "\<forall>k \<in> blk_keys p. hp_next h \<le> k" using f by (simp add: fresh_block_def)
  moreover have "?bytes = buf" if "min u n = 0" using that n by simp
  ultimately show ?thesis using n d \<open>length ?bytes = n\<close>
    by (auto simp: copy_from_user_def Let_def fresh_block_def)
qed

text \<open>A write of fewer than 65536 bytes: it fails and leaves memory as it was, or its packet is with the core.\<close>

text \<open>The packet of a writer once the user's bytes were copied, in its own memory.\<close>

lemma write_packet_ok:
  assumes ok: "heap_ok h" and n: "length buf < 65536" and a: "uci_packet_alloc (length buf) h = Some (Some q, h1)"
  obtains h2 p where "p = q\<lparr>pk_write_done := Some c\<rparr>"
    "copy_from_user (pk_data p) buf u h1 = Some (min u (length buf), h2)"
    "frame {} h h2" "heap_ok h2" "live h2 = live h \<union> blk_keys p" "fresh_block h h2 (length buf) p"
    "min u (length buf) = 0 \<longrightarrow> block_holds h2 p buf"
    "\<And>h3. same_mem h2 h3 \<Longrightarrow> \<exists>h4. uci_packet_free p h3 = Some h4 \<and> hp_mem h4 = hp_mem h \<and> heap_ok h4"
proof -
  let ?n = "length buf" let ?p = "q\<lparr>pk_write_done := Some c\<rparr>"
  have f: "heap_ok h1" "frame {} h h1" "fresh_block h h1 ?n q" "live h1 = live h \<union> blk_keys q"
    using uci_packet_alloc_ok [OF ok n] a by auto
  then have q: "fresh_block h h1 ?n ?p" "live h1 = live h \<union> blk_keys ?p" "pk_data ?p = (blk_data ?p, 0)"
    using uci_packet_alloc_data [OF a] by (auto simp: fresh_block_def block_holds_def blk_keys_def)
  obtain h2 where c: "copy_from_user (pk_data ?p) buf u h1 = Some (min u ?n, h2)" "fresh_block h h2 ?n ?p"
    "min u ?n = 0 \<longrightarrow> block_holds h2 ?p buf" "hp_next h2 = hp_next h1" "hp_oracle h2 = hp_oracle h1"
    "\<forall>k. k \<notin> blk_keys ?p \<longrightarrow> hp_mem h2 k = hp_mem h1 k" "live h2 = live h1"
    using copy_from_user_ok [OF q(1) refl q(3), of u] by (elim exE conjE) (rule that; assumption)
  have "k \<notin> blk_keys ?p" if "k < hp_next h" for k
    using q(1) that by (auto simp: fresh_block_def)
  then have h2: "heap_ok h2" "frame {} h h2"
    using f c by (auto simp: heap_ok_iff_live frame_def)
  have freed: "\<exists>h4. uci_packet_free ?p h3 = Some h4 \<and> hp_mem h4 = hp_mem h \<and> heap_ok h4" if "same_mem h2 h3" for h3
    by (rule packet_freed_fresh [OF ok c(2) h2(2)]) (use that c(7) q(2) in \<open>auto simp: same_mem_def\<close>)
  show thesis by (rule that [OF refl c(1) h2(2,1) _ c(2,3) freed]) (use c(7) q(2) in simp_all)
qed

lemma write_begin_ok:
  fixes s :: "('l, unit uci_packet_ext) hsspi"
  assumes ok: "heap_ok (hs_heap s)" and n: "length buf < 65536"
  shows "\<exists>r s'. uci_write_begin lay c buf u s = Some (r, s') \<and>
    (case r of
       Inl rc \<Rightarrow> rc \<in> {- ENOMEM, - EFAULT, - EINVAL, - EAGAIN} \<and>
         (\<exists>heap. s' = s\<lparr>hs_heap := heap\<rparr> \<and> hp_mem heap = hp_mem (hs_heap s) \<and> heap_ok heap)
     | Inr p \<Rightarrow> \<exists>h2. frame {} (hs_heap s) h2 \<and> heap_ok h2 \<and> live h2 = live (hs_heap s) \<union> blk_keys p \<and>
         fresh_block (hs_heap s) h2 (length buf) p \<and> block_holds h2 p buf \<and> pk_write_done p = Some c \<and>
         min u (length buf) = 0 \<and> hsspi_send (Some lay) (Some p) (s\<lparr>hs_heap := h2\<rparr>) = (0, s'))"
proof -
  let ?h = "hs_heap s" let ?n = "length buf"
  obtain b h1 where a: "uci_packet_alloc ?n ?h = Some (b, h1)" "heap_ok h1" "frame {} ?h h1"
    "b = None \<longrightarrow> live h1 = live ?h"
    using uci_packet_alloc_ok [OF ok n] by (auto split: option.splits)
  show ?thesis
  proof (cases b)
    case None
    then have "hp_mem h1 = hp_mem ?h"
      using mem_kept [OF ok a(3), of "{}"] a(4) by (intro ext) simp
    then show ?thesis using None a by (auto simp: uci_write_begin_def intro!: exI [of _ h1])
  next
    case (Some q)
    obtain h2 p where p: "p = q\<lparr>pk_write_done := Some c\<rparr>"
      "copy_from_user (pk_data p) buf u h1 = Some (min u ?n, h2)"
      and fresh: "frame {} ?h h2" "heap_ok h2" "live h2 = live ?h \<union> blk_keys p" "fresh_block ?h h2 ?n p"
        "min u ?n = 0 \<longrightarrow> block_holds h2 p buf"
      and freed: "\<And>h3. same_mem h2 h3 \<Longrightarrow> \<exists>h4. uci_packet_free p h3 = Some h4 \<and> hp_mem h4 = hp_mem ?h \<and> heap_ok h4"
      using write_packet_ok [OF ok n a(1) [unfolded Some], of c u] by metis
    obtain ret s2 where r: "hsspi_send (Some lay) (Some p) (s\<lparr>hs_heap := h2\<rparr>) = (ret, s2)"
      by (cases "hsspi_send (Some lay) (Some p) (s\<lparr>hs_heap := h2\<rparr>)")
    consider "min u ?n \<noteq> 0" | "min u ?n = 0" "ret \<noteq> 0" | "min u ?n = 0" "ret = 0" by blast
    then show ?thesis
    proof cases
      case 1
      obtain h4 where "uci_packet_free p h2 = Some h4" "hp_mem h4 = hp_mem ?h" "heap_ok h4"
        using freed [of h2] by auto
      then show ?thesis using 1 Some a(1) p(2) unfolding p(1) by (auto simp: uci_write_begin_def Let_def)
    next
      case 2
      have e: "\<exists>heap. s2 = s\<lparr>hs_heap := heap\<rparr>" and m: "same_mem h2 (hs_heap s2)"
        and ret: "ret \<in> {- EINVAL, - ENOMEM, - EAGAIN}"
        using hsspi_send_results [OF r] 2 by simp_all
      obtain heap where heap: "s2 = s\<lparr>hs_heap := heap\<rparr>" "same_mem h2 heap" using e m by force
      obtain h4 where h4: "uci_packet_free p heap = Some h4" "hp_mem h4 = hp_mem ?h" "heap_ok h4"
        using freed [OF heap(2)] by blast
      have "uci_write_begin lay c buf u s = Some (Inl ret, s\<lparr>hs_heap := h4\<rparr>)"
        using 2 Some a(1) p(2) r heap(1) h4(1) unfolding p(1) by (simp add: uci_write_begin_def Let_def)
      then show ?thesis using h4(2,3) ret by auto
    next
      case 3
      have "uci_write_begin lay c buf u s = Some (Inr p, s2)"
        using Some a(1) p(2) r 3 unfolding p(1) by (simp add: uci_write_begin_def Let_def)
      moreover have "pk_write_done p = Some c" using p(1) by simp
      ultimately show ?thesis using fresh r 3 by (intro exI [of _ "Inr p"] exI [of _ s2]) auto
    qed
  qed
qed

lemma u16_idem: "u16 (u16 n) = u16 n"
  by (simp add: u16_def)

lemma write_too_long:
  fixes s :: "('l, unit uci_packet_ext) hsspi"
  assumes ok: "heap_ok (hs_heap s)" and n: "65536 \<le> length buf"
  shows "uci_write_begin lay c buf u s = None \<or>
    \<not> oracle_total (hs_heap s) \<and> (\<exists>s'. uci_write_begin lay c buf u s = Some (Inl (- ENOMEM), s'))"
proof -
  have u: "uci_packet_alloc (length buf) = uci_packet_alloc (u16 (length buf))"
    by (rule ext) (unfold uci_packet_alloc_def u16_idem, rule refl)
  have less: "u16 (length buf) < length buf" using n u16_less [of "length buf"] by linarith
  obtain b h1 where a: "uci_packet_alloc (length buf) (hs_heap s) = Some (b, h1)"
    "case b of None \<Rightarrow> \<not> oracle_total (hs_heap s) \<and> live h1 = live (hs_heap s)
     | Some p \<Rightarrow> fresh_block (hs_heap s) h1 (u16 (length buf)) p \<and> live h1 = live (hs_heap s) \<union> blk_keys p"
    unfolding u using uci_packet_alloc_ok [OF ok u16_less] by blast
  show ?thesis
  proof (cases b)
    case None
    then show ?thesis using a by (simp add: uci_write_begin_def)
  next
    case (Some p)
    then obtain bs where b: "block_holds h1 p bs" "length bs = u16 (length buf)" using a(2) by (auto simp: fresh_block_def)
    have "heap_write h1 (blk_data p) 0 xs = None" if "length xs = length buf" for xs
      using b less that by (cases "blk_data p") (auto simp: heap_write_def mem_write_def block_holds_def)
    then have "copy_from_user (blk_data p, 0) buf u h1 = None" by (simp add: copy_from_user_def Let_def)
    then show ?thesis using Some a(1) uci_packet_alloc_data [of "length buf" "hs_heap s" p h1]
      by (simp add: uci_write_begin_def)
  qed
qed

text \<open>After the core took a packet over, the writer's end of the call.\<close>

lemma write_end_ok:
  fixes s :: "('l, unit uci_packet_ext) hsspi"
  assumes "heap_ok (hs_heap s)" "frame {} (hs_heap s) h2" "live h2 = live (hs_heap s) \<union> blk_keys p"
    "fresh_block (hs_heap s) h2 n p" "same_mem h2 h3"
  shows "\<exists>heap. uci_write_end (p\<lparr>pk_status := status\<rparr>) n h3 = Some (if status = 0 then int n else status, heap) \<and>
    hp_mem heap = hp_mem (hs_heap s)"
proof -
  obtain heap where "uci_packet_free p h3 = Some heap" "hp_mem heap = hp_mem (hs_heap s)"
    using packet_freed_fresh [OF assms(1,4,2,3), of h3] assms(5) by (auto simp: same_mem_def)
  moreover have "uci_packet_free (p\<lparr>pk_status := status\<rparr>) h3 = uci_packet_free p h3"
    by (simp add: uci_packet_free_def hsspi_deinit_block_def split: option.splits)
  ultimately show ?thesis by (simp add: uci_write_end_def)
qed

section \<open>Properties\<close>

text \<open>
  Claim C28. \<open>uci_write\<close> on every branch.  Of fewer than 65536 bytes, whatever the allocations, the user's
  memory and the core do: it returns -ENOMEM, -EFAULT or the error of \<open>hsspi_send\<close> with memory as it was
  and nothing queued, or its packet, holding the user's bytes, is the last of the work list of a running
  core; when it has been completed, the writer returns the number of bytes, or the error of the transfer,
  and its packet is freed.  A write of 65536 bytes or more, for which the packet is allocated with the low
  16 bits of the length, writes past its end.
\<close>

theorem uci_write_results:
  fixes s :: "('l, unit uci_packet_ext) hsspi"
  assumes ok: "heap_ok (hs_heap s)"
  shows "(case uci_write_begin lay c buf u s of
      None \<Rightarrow> 65536 \<le> length buf
    | Some (Inl rc, s') \<Rightarrow> rc \<in> {- ENOMEM, - EFAULT, - EINVAL, - EAGAIN} \<and>
        (length buf < 65536 \<longrightarrow> hp_mem (hs_heap s') = hp_mem (hs_heap s) \<and> hs_work_list s' = hs_work_list s)
    | Some (Inr p, s') \<Rightarrow> length buf < 65536 \<and> min u (length buf) = 0 \<and> hs_state s = HSSPI_RUNNING \<and>
        hs_work_list s' = hs_work_list s @ [HSSPI_WORK_TX p lay] \<and>
        block_holds (hs_heap s') p buf \<and> pk_write_done p = Some c \<and>
        (\<forall>status. \<exists>heap. uci_write_end (p\<lparr>pk_status := status\<rparr>) (length buf) (hs_heap s') =
            Some (if status = 0 then int (length buf) else status, heap) \<and> hp_mem heap = hp_mem (hs_heap s))) \<and>
    (65536 \<le> length buf \<and> oracle_total (hs_heap s) \<longrightarrow> uci_write_begin lay c buf u s = None)"
proof (cases "length buf < 65536")
  case False
  then show ?thesis using write_too_long [OF ok, of buf lay c u] by (auto split: option.splits)
next
  case True
  obtain r s' where w: "uci_write_begin lay c buf u s = Some (r, s')" and r: "case r of
       Inl rc \<Rightarrow> rc \<in> {- ENOMEM, - EFAULT, - EINVAL, - EAGAIN} \<and>
         (\<exists>heap. s' = s\<lparr>hs_heap := heap\<rparr> \<and> hp_mem heap = hp_mem (hs_heap s) \<and> heap_ok heap)
     | Inr p \<Rightarrow> \<exists>h2. frame {} (hs_heap s) h2 \<and> heap_ok h2 \<and> live h2 = live (hs_heap s) \<union> blk_keys p \<and>
         fresh_block (hs_heap s) h2 (length buf) p \<and> block_holds h2 p buf \<and> pk_write_done p = Some c \<and>
         min u (length buf) = 0 \<and> hsspi_send (Some lay) (Some p) (s\<lparr>hs_heap := h2\<rparr>) = (0, s')"
    using write_begin_ok [OF ok True] by blast
  show ?thesis
  proof (cases r)
    case (Inl rc)
    then show ?thesis using True w r by auto
  next
    case (Inr p)
    then obtain h2 where h2: "frame {} (hs_heap s) h2" "live h2 = live (hs_heap s) \<union> blk_keys p"
      "fresh_block (hs_heap s) h2 (length buf) p" "block_holds h2 p buf" "pk_write_done p = Some c"
      "min u (length buf) = 0" "hsspi_send (Some lay) (Some p) (s\<lparr>hs_heap := h2\<rparr>) = (0, s')"
      using r by auto
    have S: "same_mem h2 (hs_heap s')" "hs_state s = HSSPI_RUNNING" "hs_work_list s' = hs_work_list s @ [HSSPI_WORK_TX p lay]"
      using hsspi_send_results [OF h2(7)] by simp_all
    have "block_holds (hs_heap s') p buf" using h2(4) same_mem_bytes [OF S(1)] by (simp add: block_holds_def)
    then show ?thesis using True w Inr h2(5,6) S write_end_ok [OF ok h2(1,2,3) S(1)] by simp
  qed
qed

text \<open>A running core with the UCI layer.\<close>

definition open_state :: "(unit, unit uci_packet_ext) hsspi" where
  "open_state = hsspi_start (snd (hsspi_register uci_lay (snd (hsspi_init 0 empty_heap ()))))"

lemma open_state_facts:
  "hs_heap open_state = empty_heap" "hs_work_list open_state = []" "hs_state open_state = HSSPI_RUNNING"
  "hs_layers open_state ! UL_UCI_APP = Some uci_lay"
  by (simp_all add: open_state_def hsspi_start_def hsspi_register_def hsspi_init_def uci_lay_def layer_id_is_valid_def
      UL_UCI_APP_def UL_MAX_IDX_def)

lemma write_accepted:
  fixes s :: "('l, unit uci_packet_ext) hsspi"
  assumes "hs_heap s = empty_heap" "hs_state s = HSSPI_RUNNING" "hs_layers s ! UL_UCI_APP = Some uci_lay"
  shows "\<exists>p s'. uci_write_begin uci_lay 4 [1, 2, 3] 0 s = Some (Inr p, s')"
  using assms
  by (simp add: uci_write_begin_def uci_lay_def uci_packet_alloc_def kzalloc_struct_def empty_heap_def hsspi_init_block_def
      krealloc_def kmalloc_def zero_packet_def copy_from_user_def heap_write_def mem_write_def fit_def u16_def
      hsspi_send_def layer_id_is_valid_def UL_UCI_APP_def UL_MAX_IDX_def emit_def work_add_tail_def Let_def)

theorem uci_write_results_witness:
  "\<exists>p s' heap. uci_write_begin uci_lay 4 [1, 2, 3] 0 open_state = Some (Inr p, s') \<and>
     hs_work_list s' = [HSSPI_WORK_TX p uci_lay] \<and> block_holds (hs_heap s') p [1, 2, 3] \<and>
     uci_write_end (p\<lparr>pk_status := - 5\<rparr>) 3 (hs_heap s') = Some (- 5, heap) \<and> hp_mem heap = hp_mem empty_heap"
proof -
  have o: "heap_ok (hs_heap open_state)" "hs_heap open_state = empty_heap" "hs_work_list open_state = []"
    by (simp_all add: open_state_facts)
  obtain p s' where w: "uci_write_begin uci_lay 4 [1, 2, 3] 0 open_state = Some (Inr p, s')"
    using write_accepted [OF open_state_facts(1,3,4)] by blast
  have n: "length [1, 2, 3 :: byte] = 3" "int 3 = 3" by simp_all
  have r: "hs_work_list s' = [HSSPI_WORK_TX p uci_lay]" "block_holds (hs_heap s') p [1, 2, 3]"
    "\<forall>status. \<exists>heap. uci_write_end (p\<lparr>pk_status := status\<rparr>) 3 (hs_heap s') =
       Some (if status = 0 then 3 else status, heap) \<and> hp_mem heap = hp_mem empty_heap"
    using uci_write_results [OF o(1), where lay = uci_lay and c = 4 and buf = "[1, 2, 3]" and u = 0] unfolding w o(2,3) n option.case prod.case sum.case append.simps by blast+
  obtain heap where "uci_write_end (p\<lparr>pk_status := - 5\<rparr>) 3 (hs_heap s') = Some (- 5, heap)" "hp_mem heap = hp_mem empty_heap"
    using r(3) [rule_format, of "- 5"] by auto
  then show ?thesis using w r(1,2) by blast
qed

end
