(* ===== verification/Qm35_Calls.thy ===== *)
theory Qm35_Calls
  imports Qm35_System Uci_File
begin

text \<open>
  What the rest of the kernel does to the driver: the files of the UCI device and of debugfs, the timer of
  the coredump layer, the interrupts, registration, start and stop.  Each is a function of the core's
  state that composes the functions of the layers with \<open>hsspi_send\<close>; a call that sleeps is in two parts.
  \<open>None\<close> is a memory fault.
\<close>

type_synonym qm35_core = "(qm35_layers, unit uci_packet_ext) hsspi"

section \<open>Calls\<close>

definition set_uci :: "uci_world \<Rightarrow> qm35_core \<Rightarrow> qm35_core" where
  "set_uci u s = s\<lparr>hs_up := (hs_up s)\<lparr>ql_uci := u\<rparr>\<rparr>"

definition set_log :: "log_layer \<Rightarrow> qm35_core \<Rightarrow> qm35_core" where
  "set_log l s = s\<lparr>hs_up := (hs_up s)\<lparr>ql_log := l\<rparr>\<rparr>"

definition set_coredump :: "coredump_layer \<Rightarrow> qm35_core \<Rightarrow> qm35_core" where
  "set_coredump l s = s\<lparr>hs_up := (hs_up s)\<lparr>ql_coredump := l\<rparr>\<rparr>"

text \<open>A writer whose packet has been completed returns; one whose packet has not sleeps on.\<close>

fun take_done :: "nat \<Rightarrow> uci_packet list \<Rightarrow> (uci_packet \<times> uci_packet list) option" where
  "take_done c [] = None"
| "take_done c (p # ps) =
     (if pk_write_done p = Some c then Some (p, ps) else map_option (\<lambda>(q, qs). (q, p # qs)) (take_done c ps))"

definition call_write_return :: "nat \<Rightarrow> nat \<Rightarrow> qm35_core \<Rightarrow> qm35_core option" where
  "call_write_return c len s =
     (case take_done c (snd (ql_uci (hs_up s))) of
        None \<Rightarrow> Some s
      | Some (p, ps) \<Rightarrow> do {
          (ret, heap) \<leftarrow> uci_write_end p len (hs_heap s);
          Some (set_uci (fst (ql_uci (hs_up s)), ps) (s\<lparr>hs_heap := heap\<rparr>))
        })"

definition call_read :: "nat \<Rightarrow> bool \<Rightarrow> int \<Rightarrow> nat \<Rightarrow> qm35_core \<Rightarrow> qm35_core option" where
  "call_read len nonblock wait_ret uncopied s = do {
     let (u, ps) = ql_uci (hs_up s);
     (ret, bytes, u, heap) \<leftarrow> uci_read u len nonblock wait_ret uncopied (hs_heap s);
     Some (set_uci (u, ps) (s\<lparr>hs_heap := heap\<rparr>))
   }"

text \<open>The packet of the coredump layer, if there was memory for it, is sent; the result is only printed.\<close>

definition coredump_transmit :: "coredump_packet option \<Rightarrow> qm35_core \<Rightarrow> qm35_core" where
  "coredump_transmit p s =
     (case p of None \<Rightarrow> s | Some p \<Rightarrow> snd (hsspi_send (Some coredump_lay) (Some (packet_of p)) s))"

definition call_coredump_force :: "qm35_core \<Rightarrow> qm35_core option" where
  "call_coredump_force s = do {
     (p, heap) \<leftarrow> debug_coredump_force (hs_heap s);
     Some (coredump_transmit p (s\<lparr>hs_heap := heap\<rparr>))
   }"

definition call_coredump_expired :: "qm35_core \<Rightarrow> qm35_core option" where
  "call_coredump_expired s =
     (if cd_timer (ql_coredump (hs_up s)) then do {
        (l, p, heap) \<leftarrow> corredump_on_expired_timer (ql_coredump (hs_up s)) (hs_heap s);
        Some (coredump_transmit p (set_coredump l (s\<lparr>hs_heap := heap\<rparr>)))
      }
      else Some s)"

text \<open>
  The log layer sends its packet, or frees it when \<open>hsspi_send\<close> refuses it; \<open>sent\<close> and \<open>failed\<close> are the
  states of the layer after the one and the other.
\<close>

definition log_transmit :: "log_packet option \<Rightarrow> log_layer \<Rightarrow> log_layer \<Rightarrow> qm35_core \<Rightarrow> qm35_core option" where
  "log_transmit p sent failed s =
     (case p of
        None \<Rightarrow> Some (set_log sent s)
      | Some p \<Rightarrow>
          let (ret, s) = hsspi_send (Some log_lay) (Some (packet_of p)) s in
          if ret = 0 then Some (set_log sent s)
          else map_option (\<lambda>heap. set_log failed (s\<lparr>hs_heap := heap\<rparr>)) (log_packet_free p (hs_heap s)))"

definition call_log_enable :: "bool \<Rightarrow> qm35_core \<Rightarrow> qm35_core option" where
  "call_log_enable b s = do {
     let l = ql_log (hs_up s);
     (l', p, heap) \<leftarrow> log_enable_set l b 0 (hs_heap s);
     log_transmit p l' l (s\<lparr>hs_heap := heap\<rparr>)
   }"

definition call_log_level_set :: "nat \<Rightarrow> nat \<Rightarrow> nat \<Rightarrow> qm35_core \<Rightarrow> qm35_core option" where
  "call_log_level_set k i lvl s = do {
     let l = ql_log (hs_up s);
     (p, heap) \<leftarrow> log_level_set l k i lvl 0 (hs_heap s);
     log_transmit p l l (s\<lparr>hs_heap := heap\<rparr>)
   }"

definition call_log_level_get :: "nat \<Rightarrow> nat \<Rightarrow> nat \<Rightarrow> qm35_core \<Rightarrow> qm35_core option" where
  "call_log_level_get k i c s = do {
     let l = ql_log (hs_up s);
     (ret, l', p, heap) \<leftarrow> log_level_get_start l k i c 0 (hs_heap s);
     log_transmit p l' (l'\<lparr>lg_waiting := lg_waiting l\<rparr>) (s\<lparr>hs_heap := heap\<rparr>)
   }"

datatype qm35_call =
    Call_register hsspi_layer
  | Call_unregister hsspi_layer nat
  | Call_start
  | Call_stop nat
  | Call_irq irq
  | Call_write nat "byte list" nat
  | Call_write_return nat nat
  | Call_read nat bool int nat
  | Call_coredump_force
  | Call_coredump_expired
  | Call_log_enable bool
  | Call_log_level_set nat nat nat
  | Call_log_level_get nat nat nat
  | Call_log_level_got nat nat nat
  | Call_traces_reset
  | Call_traces_size
  | Call_traces_next bool
  | Call_test_sleep "int option" nat

fun qm35_do :: "qm35_call \<Rightarrow> qm35_core \<Rightarrow> qm35_core option" where
  "qm35_do (Call_register l) s = Some (snd (hsspi_register l s))"
| "qm35_do (Call_unregister l c) s = Some (snd (hsspi_unregister l c s))"
| "qm35_do Call_start s = Some (hsspi_start s)"
| "qm35_do (Call_stop c) s = Some (hsspi_stop c s)"
| "qm35_do (Call_irq i) s = Some (deliver_irq i s)"
| "qm35_do (Call_write c buf uncopied) s = map_option snd (uci_write_begin uci_lay c buf uncopied s)"
| "qm35_do (Call_write_return c len) s = call_write_return c len s"
| "qm35_do (Call_read len nonblock wait_ret uncopied) s = call_read len nonblock wait_ret uncopied s"
| "qm35_do Call_coredump_force s = call_coredump_force s"
| "qm35_do Call_coredump_expired s = call_coredump_expired s"
| "qm35_do (Call_log_enable b) s = call_log_enable b s"
| "qm35_do (Call_log_level_set k i lvl) s = call_log_level_set k i lvl s"
| "qm35_do (Call_log_level_get k i c) s = call_log_level_get k i c s"
| "qm35_do (Call_log_level_got k i c) s =
     map_option (\<lambda>(lvl, l). set_log l s) (log_level_get_finish (ql_log (hs_up s)) k i c)"
| "qm35_do Call_traces_reset s = Some (set_log (log_trace_reset (ql_log (hs_up s))) s)"
| "qm35_do Call_traces_size s = map_option (\<lambda>(n, l). set_log l s) (log_trace_get_next_size (ql_log (hs_up s)))"
| "qm35_do (Call_traces_next alloc) s = map_option (\<lambda>(r, l). set_log l s) (log_trace_get_next alloc (ql_log (hs_up s)))"
| "qm35_do (Call_test_sleep parsed count) s =
     Some (s\<lparr>hs_up := (hs_up s)\<lparr>ql_test := snd (debug_test_hsspi_sleep_write parsed count (ql_test (hs_up s)))\<rparr>\<rparr>)"

text \<open>
  What a call needs: a length that fits the block's, a module that still exists (a debugfs entry made for a
  module of an earlier list is a dangling pointer), and memory for a trace that is read, which \<open>__rb_pop\<close>
  does not check.
\<close>

fun call_ok :: "qm35_call \<Rightarrow> qm35_core \<Rightarrow> bool" where
  "call_ok (Call_write c buf uncopied) s \<longleftrightarrow> length buf < 65536"
| "call_ok (Call_log_level_set k i lvl) s \<longleftrightarrow> module_deref (ql_log (hs_up s)) k i \<noteq> None"
| "call_ok (Call_log_level_get k i c) s \<longleftrightarrow> module_deref (ql_log (hs_up s)) k i \<noteq> None"
| "call_ok (Call_log_level_got k i c) s \<longleftrightarrow> module_deref (ql_log (hs_up s)) k i \<noteq> None"
| "call_ok (Call_traces_next alloc) s \<longleftrightarrow> alloc"
| "call_ok _ s \<longleftrightarrow> True"

section \<open>The system\<close>

datatype qm35_event = Do qm35_call | Thread_take | Thread_work pass_env

type_synonym qm35_state = "(qm35_layers, unit uci_packet_ext) sys_state"

inductive qm35_step :: "qm35_event \<Rightarrow> qm35_state \<Rightarrow> qm35_state \<Rightarrow> bool" where
  do_call: "qm35_do c s = Some s' \<Longrightarrow> qm35_step (Do c) (s, t, n) (s', t, n)"
| thread_take: "is_txrx_waiting s \<Longrightarrow> get_work s = (hw, s') \<Longrightarrow>
    qm35_step Thread_take (s, Th_idle, n) (s', Th_busy hw, n)"
| thread_work: "thread_work qm35_ops e hw s n = Some (s', n') \<Longrightarrow>
    qm35_step (Thread_work e) (s, Th_busy hw, n) (s', Th_idle, n')"

inductive_cases qm35_stepE: "qm35_step ev st st'"

text \<open>
  Which events occur: calls that keep \<open>call_ok\<close>, and work during which every message the firmware sends
  suits the layer it is for (\<open>qm35_msg_ok\<close>).
\<close>

fun event_ok :: "qm35_event \<Rightarrow> qm35_state \<Rightarrow> bool" where
  "event_ok (Do c) (s, t, n) \<longleftrightarrow> call_ok c s"
| "event_ok Thread_take st \<longleftrightarrow> True"
| "event_ok (Thread_work e) (s, t, n) \<longleftrightarrow>
     (\<forall>hw. t = Th_busy hw \<longrightarrow> qm35_core.msgs_ok (ups_at_rx qm35_ops hw (hs_up s)) (pe_second e))"

inductive qm35_run :: "qm35_event list \<Rightarrow> qm35_state \<Rightarrow> qm35_state \<Rightarrow> bool" where
  q_nil: "qm35_run [] st st"
| q_step: "qm35_run es st st' \<Longrightarrow> event_ok ev st' \<Longrightarrow> qm35_step ev st' st'' \<Longrightarrow> qm35_run (es @ [ev]) st st''"

end
