(* ===== verification/Qm35_Safe.thy ===== *)
theory Qm35_Safe
  imports Qm35_Calls
begin

text \<open>Every call of the rest of the kernel keeps the invariant of the core over its four layers.\<close>

section \<open>Memory and sends in the core\<close>

context hsspi_layers begin

lemma waiting_item:
  assumes "sys_inv s cur" "x \<in> set (cur @ tx_items (hs_work_list s))"
  shows "\<exists>bs. block_holds (hs_heap s) (fst x) bs" "item_keys x \<inter> owns (hs_up s) = {}"
proof -
  obtain b hl where x: "x = (b, hl)" by (cases x)
  then have "(\<exists>bs. block_holds (hs_heap s) b bs) \<and> blk_keys b \<inter> owns (hs_up s) = {}"
    using assms unfolding sys_inv_def tx_mem_def by blast
  then show "\<exists>bs. block_holds (hs_heap s) (fst x) bs" "item_keys x \<inter> owns (hs_up s) = {}"
    using x by (simp_all add: item_keys_def)
qed

lemma sys_inv_memory:
  assumes i: "sys_inv s cur" and f: "frame K (hs_heap s) h'" and inv': "inv up' h'"
    and K: "\<And>x. x \<in> set (cur @ tx_items (hs_work_list s)) \<Longrightarrow> item_keys x \<inter> K = {}"
    and o: "\<And>k. k \<in> owns up' \<Longrightarrow> k \<in> owns (hs_up s) \<or> k \<in> K \<or> hp_next (hs_heap s) \<le> k"
  shows "sys_inv (s\<lparr>hs_up := up', hs_heap := h'\<rparr>) cur"
proof -
  have "tx_mem up' h' (cur @ tx_items (hs_work_list s))"
    by (rule tx_mem_frame [OF _ sys_inv_heap_ok [OF i] f K o]) (use i in \<open>simp add: sys_inv_def\<close>)
  then show ?thesis using i inv' by (simp add: sys_inv_def layers_ok_def irq_balanced_def fifo_def)
qed

text \<open>What a layer does to its own memory.\<close>

lemma sys_inv_own:
  assumes i: "sys_inv s cur" and f: "frame (owns (hs_up s)) (hs_heap s) h'" and inv': "inv up' h'"
    and o: "owns up' \<subseteq> owns (hs_up s) \<union> {k. hp_next (hs_heap s) \<le> k}"
  shows "sys_inv (s\<lparr>hs_up := up', hs_heap := h'\<rparr>) cur"
proof (rule sys_inv_memory [OF i f inv'])
  show "item_keys x \<inter> owns (hs_up s) = {}" if "x \<in> set (cur @ tx_items (hs_work_list s))" for x
    using waiting_item(2) [OF i that] .
qed (use o in auto)

text \<open>A block nobody else uses, and what becomes of it.\<close>

definition private_block :: "('l, 'b) hsspi \<Rightarrow> 'b tx_item list \<Rightarrow> 'b hsspi_block_scheme \<Rightarrow> bool" where
  "private_block s cur b \<longleftrightarrow> (\<exists>bs. block_holds (hs_heap s) b bs) \<and> blk_keys b \<inter> owns (hs_up s) = {} \<and>
     (\<forall>x \<in> set (cur @ tx_items (hs_work_list s)). blk_keys b \<inter> item_keys x = {})"

lemma private_fresh:
  assumes i: "sys_inv s cur" and k: "\<forall>k \<in> blk_keys b. hp_next (hs_heap s) \<le> k" and b: "block_holds h' b bs"
  shows "private_block (s\<lparr>hs_heap := h'\<rparr>) cur b"
proof -
  have "blk_keys b \<inter> item_keys x = {}" if x: "x \<in> set (cur @ tx_items (hs_work_list s))" for x
    using k waiting_item(1) [OF i x] block_keys_below [OF sys_inv_heap_ok [OF i]] by (force simp: item_keys_def)
  moreover have "blk_keys b \<inter> owns (hs_up s) = {}"
    using k owns_below [of "hs_up s" "hs_heap s"] i by (force simp: sys_inv_def)
  ultimately show ?thesis using b by (auto simp: private_block_def)
qed

lemma sys_inv_send:
  assumes i: "sys_inv s cur" and p: "private_block s cur b" "tx_ok hl b"
    and r: "hsspi_send (Some hl) (Some b) s = (ret, s')"
  shows "sys_inv s' cur \<and> (ret \<noteq> 0 \<longrightarrow> private_block s' cur b \<and> hs_up s' = hs_up s)"
proof -
  obtain bs where b: "block_holds (hs_heap s) b bs" using p(1) by (auto simp: private_block_def)
  have "sys_inv s' cur"
    using send_one [OF i p(2) b] p(1) r by (auto simp: private_block_def)
  moreover have "private_block s' cur b \<and> hs_up s' = hs_up s" if "ret \<noteq> 0"
  proof -
    have R: "same_mem (hs_heap s) (hs_heap s')" "\<exists>heap. s' = s\<lparr>hs_heap := heap\<rparr>"
      using hsspi_send_results [OF r] that by simp_all
    have h: "block_holds (hs_heap s') b bs" using b same_mem_bytes [OF R(1)] by (simp add: block_holds_def)
    obtain heap where s': "s' = s\<lparr>hs_heap := heap\<rparr>" using R(2) by blast
    then have "private_block s' cur b" using p(1) h by (auto simp: private_block_def)
    then show ?thesis using s' by simp
  qed
  ultimately show ?thesis by blast
qed

lemma sys_inv_free:
  assumes i: "sys_inv s cur" and p: "private_block s cur b" and f: "frame (blk_keys b) (hs_heap s) h'" and ok: "heap_ok h'"
  shows "sys_inv (s\<lparr>hs_heap := h'\<rparr>) cur"
proof -
  have "inv (hs_up s) h'"
  proof (rule frame_inv)
    show "inv (hs_up s) (hs_heap s)" using i by (simp add: sys_inv_def)
    show "hp_mem h' k = hp_mem (hs_heap s) k" if "k \<in> owns (hs_up s)" for k
      using f p that owns_below [OF \<open>inv (hs_up s) (hs_heap s)\<close> that] by (auto simp: frame_def private_block_def)
  qed (rule ok)
  then have "sys_inv (s\<lparr>hs_up := hs_up s, hs_heap := h'\<rparr>) cur"
    by (intro sys_inv_memory [OF i f]) (use p in \<open>auto simp: private_block_def\<close>)
  then show ?thesis by simp
qed

end

section \<open>Calls\<close>

lemma set_up_heap:
  "set_uci u s = s\<lparr>hs_up := (hs_up s)\<lparr>ql_uci := u\<rparr>\<rparr>" "set_log l s = s\<lparr>hs_up := (hs_up s)\<lparr>ql_log := l\<rparr>\<rparr>"
  "set_coredump c s = s\<lparr>hs_up := (hs_up s)\<lparr>ql_coredump := c\<rparr>\<rparr>"
  by (simp_all add: set_uci_def set_log_def set_coredump_def)

abbreviation qm35_inv :: "qm35_core \<Rightarrow> unit uci_packet_ext tx_item list \<Rightarrow> bool" where
  "qm35_inv \<equiv> qm35_core.sys_inv"

lemma qm35_inv_layers:
  assumes "qm35_inv s cur"
  shows "qm35_layers_inv (hs_up s) (hs_heap s)" "log_inv (ql_log (hs_up s)) (hs_heap s)" "heap_ok (hs_heap s)"
    "cd_inv (ql_coredump (hs_up s)) (hs_heap s)" "uci_world_inv (ql_uci (hs_up s)) (hs_heap s)"
  using assms qm35_core.sys_inv_heap_ok [OF assms] by (auto simp: qm35_core.sys_inv_def qm35_layers_inv_def)

lemma qm35_inv_log:
  assumes i: "qm35_inv s cur" and l: "log_inv l (hs_heap s)"
  shows "qm35_inv (set_log l s) cur"
proof -
  have "qm35_layers_inv ((hs_up s)\<lparr>ql_log := l\<rparr>) (hs_heap s)"
    using qm35_inv_layers(1) [OF i] l by (simp add: qm35_layers_inv_def)
  then have "qm35_inv (s\<lparr>hs_up := (hs_up s)\<lparr>ql_log := l\<rparr>, hs_heap := hs_heap s\<rparr>) cur"
    by (intro qm35_core.sys_inv_own [OF i]) (auto simp: qm35_owns_def)
  then show ?thesis by (simp add: set_log_def)
qed

lemma qm35_inv_alloc:
  assumes i: "qm35_inv s cur" and f: "frame {} (hs_heap s) h'" and ok: "heap_ok h'"
  shows "qm35_inv (s\<lparr>hs_heap := h'\<rparr>) cur"
proof -
  note inv = qm35_inv_layers(1) [OF i]
  have "qm35_layers_inv (hs_up s) h'"
    by (rule qm35_core.frame_inv [OF inv _ ok]) (use f qm35_core.owns_below [OF inv] in \<open>auto simp: frame_def\<close>)
  then have "qm35_inv (s\<lparr>hs_up := hs_up s, hs_heap := h'\<rparr>) cur"
    by (intro qm35_core.sys_inv_memory [OF i f]) auto
  then show ?thesis by simp
qed

text \<open>A heap with the same memory, whatever was asked of it in between.\<close>

lemma qm35_inv_same:
  assumes i: "qm35_inv s cur" and m: "hp_mem h' = hp_mem (hs_heap s)" and ok: "heap_ok h'"
  shows "qm35_inv (s\<lparr>hs_heap := h'\<rparr>) cur"
proof -
  have "qm35_layers_inv (hs_up s) h'"
    by (rule qm35_core.frame_inv [OF qm35_inv_layers(1) [OF i] _ ok]) (simp add: m)
  moreover have "block_holds h' b bs = block_holds (hs_heap s) b bs" for b :: uci_packet and bs
    using m by (cases "blk_data b") (simp_all add: block_holds_def)
  ultimately show ?thesis using i
    by (simp add: qm35_core.sys_inv_def qm35_core.tx_mem_def layers_ok_def irq_balanced_def fifo_def)
qed

text \<open>A packet made for a message: the heap it leaves, and who may use it.\<close>

definition handed :: "'b hsspi_block_scheme option \<Rightarrow> kheap \<Rightarrow> kheap \<Rightarrow> bool" where
  "handed p h h' \<longleftrightarrow> heap_ok h' \<and> frame {} h h' \<and>
     (case p of None \<Rightarrow> True | Some b \<Rightarrow> (\<exists>bs. block_holds h' b bs) \<and> (\<forall>k \<in> blk_keys b. hp_next h \<le> k))"

lemma make_packet_handed:
  "heap_ok h \<Longrightarrow> length bytes < 65536 \<Longrightarrow> \<exists>p h'. coredump_make_packet bytes h = Some (p, h') \<and> handed p h h'"
  using coredump_make_packet_ok [of h bytes] by (fastforce simp: handed_def split: option.splits)

lemma handed_private:
  assumes "qm35_inv s cur" "handed (Some p) (hs_heap s) h'"
  shows "qm35_inv (s\<lparr>hs_heap := h'\<rparr>) cur" "qm35_core.private_block (s\<lparr>hs_heap := h'\<rparr>) cur (packet_of p)"
proof -
  have b: "blk_keys (packet_of p) = blk_keys p" "block_holds h' (packet_of p) bs = block_holds h' p bs" for bs
    using same_blockD [OF packet_blocks(1) [of p]] by simp_all
  show "qm35_inv (s\<lparr>hs_heap := h'\<rparr>) cur"
    using assms qm35_inv_alloc by (simp add: handed_def)
  show "qm35_core.private_block (s\<lparr>hs_heap := h'\<rparr>) cur (packet_of p)"
    using assms(2) qm35_core.private_fresh [OF assms(1), of "packet_of p" h'] by (auto simp: handed_def b)
qed

lemma packet_block_free: "uci_packet_free (packet_of p) h = coredump_packet_free p h"
  by (simp add: uci_packet_free_def coredump_packet_free_def hsspi_deinit_block_def packet_of_def split: option.splits)

lemma private_freed:
  assumes i: "qm35_inv s cur" and p: "qm35_core.private_block s cur b"
  shows "\<exists>h'. uci_packet_free b (hs_heap s) = Some h' \<and> heap_ok h' \<and> frame (blk_keys b) (hs_heap s) h' \<and>
    qm35_inv (s\<lparr>hs_heap := h'\<rparr>) cur"
proof -
  obtain bs where b: "block_holds (hs_heap s) (block_of b) bs"
    using p same_blockD(1) [OF packet_blocks(2) [of b]] by (auto simp: qm35_core.private_block_def)
  have e: "uci_packet_free b h = coredump_packet_free (block_of b) h" for h
    by (simp add: uci_packet_free_def coredump_packet_free_def hsspi_deinit_block_def block_of_def split: option.splits)
  obtain h' where "uci_packet_free b (hs_heap s) = Some h'" "heap_ok h'" "frame (blk_keys b) (hs_heap s) h'"
    using packet_free_ok [OF qm35_inv_layers(3) [OF i] b] same_blockD(2) [OF packet_blocks(2) [of b]] unfolding e by auto
  then show ?thesis using qm35_core.sys_inv_free [OF i p] by blast
qed

lemma coredump_tx_ok: "qm35_tx_ok coredump_lay p" "qm35_tx_ok log_lay p"
  by (simp_all add: qm35_tx_ok_def coredump_lay_def log_lay_def)

lemma coredump_transmit_ok:
  assumes "qm35_inv s cur" "handed p (hs_heap s) h'"
  shows "qm35_inv (coredump_transmit p (s\<lparr>hs_heap := h'\<rparr>)) cur"
proof (cases p)
  case None
  then show ?thesis using assms qm35_inv_alloc by (simp add: coredump_transmit_def handed_def)
next
  case (Some b)
  note P = handed_private [OF assms(1) assms(2) [unfolded Some]]
  show ?thesis
    using qm35_core.sys_inv_send [OF P coredump_tx_ok(1) prod.collapse [symmetric]] by (simp add: coredump_transmit_def Some)
qed

lemma log_transmit_ok:
  assumes i: "qm35_inv s cur" and p: "handed p (hs_heap s) h'"
    and l: "log_inv sent (hs_heap s)" "log_inv failed (hs_heap s)"
  shows "\<exists>s'. log_transmit p sent failed (s\<lparr>hs_heap := h'\<rparr>) = Some s' \<and> qm35_inv s' cur"
proof (cases p)
  case None
  have "qm35_inv (s\<lparr>hs_heap := h'\<rparr>) cur" "heap_ok h'" using i p qm35_inv_alloc by (simp_all add: handed_def)
  then show ?thesis using None qm35_inv_log log_inv_heap [OF l(1)] by (simp add: log_transmit_def)
next
  case (Some b)
  note P = handed_private [OF i p [unfolded Some]]
  obtain ret s2 where r: "hsspi_send (Some log_lay) (Some (packet_of b)) (s\<lparr>hs_heap := h'\<rparr>) = (ret, s2)"
    by (cases "hsspi_send (Some log_lay) (Some (packet_of b)) (s\<lparr>hs_heap := h'\<rparr>)")
  note S = qm35_core.sys_inv_send [OF P coredump_tx_ok(2) r]
  show ?thesis
  proof (cases "ret = 0")
    case True
    have "log_inv sent (hs_heap s2)" using log_inv_heap [OF l(1) qm35_inv_layers(3)] S by blast
    then show ?thesis using Some r True S qm35_inv_log by (simp add: log_transmit_def)
  next
    case False
    then obtain h2 where f: "uci_packet_free (packet_of b) (hs_heap s2) = Some h2" "heap_ok h2" "qm35_inv (s2\<lparr>hs_heap := h2\<rparr>) cur"
      using S private_freed by blast
    then have "qm35_inv (set_log failed (s2\<lparr>hs_heap := h2\<rparr>)) cur"
      by (intro qm35_inv_log) (use log_inv_heap [OF l(2)] in simp_all)
    then show ?thesis using Some r False f by (simp add: log_transmit_def log_packet_eqs packet_block_free)
  qed
qed

text \<open>What the log layer prepares to send.\<close>

lemma encode_handed:
  assumes "heap_ok h"
  shows "\<exists>p h'. encode_get_log_sources_packet h = Some (p, h') \<and> handed p h h'"
    and "\<exists>p h'. encode_set_log_level_packet m lvl h = Some (p, h') \<and> handed p h h'"
    and "\<exists>p h'. encode_get_log_level_packet m h = Some (p, h') \<and> handed p h h'"
  unfolding encode_get_log_sources_packet_def encode_set_log_level_packet_def encode_get_log_level_packet_def log_packet_eqs
  by (rule make_packet_handed [OF assms]; simp add: log_packet_hdr_def)+

lemma log_enable_handed:
  assumes i: "log_inv l h"
  shows "\<exists>l' p h'. log_enable_set l b 0 h = Some (l', p, h') \<and> handed p h h' \<and> log_inv l' h"
proof -
  have ok: "heap_ok h" using i by (simp add: log_inv_def)
  obtain p h' where "encode_get_log_sources_packet h = Some (p, h')" "handed p h h'"
    using encode_handed(1) [OF ok] by blast
  then show ?thesis using i ok
    by (cases p) (auto simp: log_enable_set_def send_packet_def log_inv_def handed_def)
qed

lemma log_level_set_handed:
  assumes "heap_ok h" "module_deref l k i = Some m"
  shows "\<exists>p h'. log_level_set l k i lvl 0 h = Some (p, h') \<and> handed p h h'"
proof -
  obtain p h' where "encode_set_log_level_packet (lm_id m) (of_nat lvl) h = Some (p, h')" "handed p h h'"
    using encode_handed(2) [OF assms(1)] by blast
  then show ?thesis using assms(2) by (cases p) (auto simp: log_level_set_def send_packet_def)
qed

lemma log_level_get_handed:
  assumes i: "log_inv l h" and m: "module_deref l k j = Some m"
  shows "\<exists>r l' p h'. log_level_get_start l k j c 0 h = Some (r, l', p, h') \<and> handed p h h' \<and> log_inv l' h \<and>
    log_inv (l'\<lparr>lg_waiting := lg_waiting l\<rparr>) h"
proof -
  have ok: "heap_ok h" using i by (simp add: log_inv_def)
  obtain ms where ms: "lg_arrays l k = Some ms" "j < length ms" "m = ms ! j"
    using m by (auto simp: module_deref_def split: option.splits if_splits)
  obtain p h' where e: "encode_get_log_level_packet (lm_id m) h = Some (p, h')" "handed p h h'"
    using encode_handed(3) [OF ok] by blast
  have "log_inv (l\<lparr>lg_arrays := (lg_arrays l)(k \<mapsto> ms[j := m\<lparr>lm_read_done := Some c\<rparr>]), lg_waiting := w\<rparr>) h" for w
    using log_inv_set_array [OF i ms(1) _ ok, of "ms[j := m\<lparr>lm_read_done := Some c\<rparr>]"] by (simp add: log_inv_def)
  then show ?thesis using i e m ms
    by (cases p) (auto simp: log_level_get_start_def send_packet_def Let_def log_inv_def)
qed

text \<open>The UCI device.\<close>

lemma write_keeps:
  assumes i: "qm35_inv s cur" and n: "length buf < 65536"
  shows "\<exists>s'. map_option snd (uci_write_begin uci_lay c buf u s) = Some s' \<and> qm35_inv s' cur"
proof -
  obtain r s' where w: "uci_write_begin uci_lay c buf u s = Some (r, s')" and r: "case r of
       Inl rc \<Rightarrow> rc \<in> {- ENOMEM, - EFAULT, - EINVAL, - EAGAIN} \<and>
         (\<exists>heap. s' = s\<lparr>hs_heap := heap\<rparr> \<and> hp_mem heap = hp_mem (hs_heap s) \<and> heap_ok heap)
     | Inr p \<Rightarrow> \<exists>h2. frame {} (hs_heap s) h2 \<and> heap_ok h2 \<and> live h2 = live (hs_heap s) \<union> blk_keys p \<and>
         fresh_block (hs_heap s) h2 (length buf) p \<and> block_holds h2 p buf \<and> pk_write_done p = Some c \<and>
         min u (length buf) = 0 \<and> hsspi_send (Some uci_lay) (Some p) (s\<lparr>hs_heap := h2\<rparr>) = (0, s')"
    using write_begin_ok [OF qm35_inv_layers(3) [OF i] n] by blast
  show ?thesis
  proof (cases r)
    case (Inl rc)
    then show ?thesis using w r qm35_inv_same [OF i] by auto
  next
    case (Inr p)
    then obtain h2 where h2: "frame {} (hs_heap s) h2" "heap_ok h2" "fresh_block (hs_heap s) h2 (length buf) p"
      "block_holds h2 p buf" "pk_write_done p = Some c" "hsspi_send (Some uci_lay) (Some p) (s\<lparr>hs_heap := h2\<rparr>) = (0, s')"
      using r by auto
    have "qm35_core.private_block (s\<lparr>hs_heap := h2\<rparr>) cur p"
      by (rule qm35_core.private_fresh [OF i _ h2(4)]) (use h2(3) in \<open>simp add: fresh_block_def\<close>)
    then have "qm35_inv s' cur"
      using qm35_core.sys_inv_send [OF qm35_inv_alloc [OF i h2(1,2)] _ _ h2(6)] h2(5) by (simp add: qm35_tx_ok_def)
    then show ?thesis using w by simp
  qed
qed

lemma free_frame: "uci_packet_free p h = Some h' \<Longrightarrow> frame (blk_keys p) h h'"
  by (cases "blk_data p")
    (auto simp: uci_packet_free_def hsspi_deinit_block_def kfree_def frame_def blk_keys_def split: if_splits)

lemma qm35_inv_uci:
  assumes i: "qm35_inv s cur" and f: "frame (uci_world_owns (ql_uci (hs_up s))) (hs_heap s) h'"
    and u: "uci_world_inv u h'" "uci_world_owns u \<subseteq> uci_world_owns (ql_uci (hs_up s))"
  shows "qm35_inv (set_uci u (s\<lparr>hs_heap := h'\<rparr>)) cur"
proof -
  note L = qm35_inv_layers [OF i]
  have ok: "heap_ok h'" by (rule upper_layer.inv_heap_ok [OF uci_world_layer u(1)])
  have sep: "uci_world_owns (ql_uci (hs_up s)) \<inter> cd_owns (ql_coredump (hs_up s)) = {}"
    using L(1) by (simp add: qm35_layers_inv_def)
  have "cd_inv (ql_coredump (hs_up s)) h'"
  proof (rule cd_inv_frame(1) [OF L(4) _ ok])
    show "hp_mem h' k = hp_mem (hs_heap s) k" if "k \<in> cd_owns (ql_coredump (hs_up s))" for k
      using f sep that coredump_ul.live_below [OF L(4) that] by (auto simp: frame_def)
  qed
  then have inv: "qm35_layers_inv ((hs_up s)\<lparr>ql_uci := u\<rparr>) h'"
    using u sep log_inv_heap [OF L(2) ok] by (auto simp: qm35_layers_inv_def)
  have "qm35_inv (s\<lparr>hs_up := (hs_up s)\<lparr>ql_uci := u\<rparr>, hs_heap := h'\<rparr>) cur"
    by (rule qm35_core.sys_inv_own [OF i frame_mono [OF f] inv]) (use u(2) in \<open>auto simp: qm35_owns_def\<close>)
  moreover have "s\<lparr>hs_up := up, hs_heap := h\<rparr> = s\<lparr>hs_heap := h, hs_up := up\<rparr>" for up h by (cases s) simp
  ultimately show ?thesis by (simp add: set_uci_def)
qed

lemma take_done_split: "take_done c ps = Some (p, qs) \<Longrightarrow> \<exists>xs ys. ps = xs @ p # ys \<and> qs = xs @ ys"
proof (induction ps arbitrary: qs)
  case (Cons x ps)
  show ?case
  proof (cases "pk_write_done x = Some c")
    case True
    then have "x # ps = [] @ p # ps \<and> qs = [] @ ps" using Cons.prems by auto
    then show ?thesis by blast
  next
    case False
    then obtain qs' where qs: "take_done c ps = Some (p, qs')" "qs = x # qs'" using Cons.prems by auto
    obtain xs ys where "ps = xs @ p # ys" "qs' = xs @ ys" using Cons.IH [OF qs(1)] by blast
    then have "x # ps = (x # xs) @ p # ys \<and> qs = (x # xs) @ ys" using qs(2) by simp
    then show ?thesis by blast
  qed
qed simp

lemma uci_world_release:
  assumes i: "uci_world_inv (u, xs @ p # ys) h"
  shows "\<exists>h'. uci_packet_free p h = Some h' \<and> uci_world_inv (u, xs @ ys) h' \<and>
    frame (uci_world_owns (u, xs @ p # ys)) h h' \<and> uci_world_owns (u, xs @ ys) \<subseteq> uci_world_owns (u, xs @ p # ys)"
proof -
  have u: "uci_inv u h" and d: "done_ok (xs @ p # ys) h" and sep: "uci_owns u \<inter> done_keys (xs @ p # ys) = {}"
    using i by (simp_all add: uci_world_inv_def)
  have p: "\<exists>bs. block_holds h p bs" "\<not> blk_ptr_in p (uci_owns u)"
    using d sep by (simp add: done_ok_def) (use sep in \<open>auto simp: done_keys_def blk_keys_def blk_ptr_in_def\<close>)
  then obtain h' where f: "uci_packet_free p h = Some h'" "uci_inv u h'" "frame (blk_keys p) h h'" "live h' = live h - blk_keys p"
    "\<forall>k \<in> live h'. hp_mem h' k = hp_mem h k"
    using uci_free_block [OF u] by blast
  have d': "done_ok (xs @ ys) h" "blk_keys p \<inter> done_keys (xs @ ys) = {}"
    using d by (auto simp: done_ok_def done_keys_def sorted_wrt_append)
  have "done_ok (xs @ ys) h'"
  proof (rule done_frame [OF d'(1)])
    fix k assume k: "k \<in> done_keys (xs @ ys)"
    then have "k \<in> live h" using done_live [OF d'(1)] by (simp add: live_def)
    then have "k \<in> live h'" using f(4) d'(2) k by blast
    then show "hp_mem h' k = hp_mem h k" using f(5) by blast
  qed
  then have "uci_world_inv (u, xs @ ys) h'" using f(2) sep by (auto simp: uci_world_inv_def done_keys_def)
  moreover have "blk_keys p \<subseteq> uci_world_owns (u, xs @ p # ys)" "uci_world_owns (u, xs @ ys) \<subseteq> uci_world_owns (u, xs @ p # ys)"
    by (auto simp: uci_world_owns_def done_keys_def)
  ultimately show ?thesis using f(1,3) frame_mono by blast
qed

lemma write_return_keeps:
  assumes i: "qm35_inv s cur"
  shows "\<exists>s'. call_write_return c len s = Some s' \<and> qm35_inv s' cur"
proof (cases "take_done c (snd (ql_uci (hs_up s)))")
  case None
  then show ?thesis using i by (simp add: call_write_return_def)
next
  case (Some r)
  obtain p qs where r: "r = (p, qs)" by (cases r)
  obtain xs ys where xy: "snd (ql_uci (hs_up s)) = xs @ p # ys" "qs = xs @ ys" using take_done_split Some r by blast
  let ?u = "fst (ql_uci (hs_up s))"
  have w: "ql_uci (hs_up s) = (?u, xs @ p # ys)" by (simp flip: xy(1))
  have "uci_world_inv (?u, xs @ p # ys) (hs_heap s)" using qm35_inv_layers(5) [OF i] w by simp
  then obtain h' where f: "uci_packet_free p (hs_heap s) = Some h'" "uci_world_inv (?u, xs @ ys) h'"
    "frame (uci_world_owns (?u, xs @ p # ys)) (hs_heap s) h'"
    "uci_world_owns (?u, xs @ ys) \<subseteq> uci_world_owns (?u, xs @ p # ys)"
    using uci_world_release by blast
  have "qm35_inv (set_uci (?u, xs @ ys) (s\<lparr>hs_heap := h'\<rparr>)) cur"
    by (rule qm35_inv_uci [OF i _ f(2)]) (use f(3,4) w in simp_all)
  then show ?thesis using Some r xy(2) f(1) by (simp add: call_write_return_def uci_write_end_def)
qed

lemma uci_read_cases:
  assumes "uci_read u len nb w x h = Some (rc, bytes, u', h')"
  shows "u' = u \<and> h' = h \<or> (\<exists>p ps. uci_rx_list u = p # ps \<and> u' = u\<lparr>uci_rx_list := ps\<rparr> \<and> uci_packet_free p h = Some h')"
  using assms by (auto simp: uci_read_def uci_layer_read_def split: if_splits list.splits option.splits)

lemma read_keeps:
  assumes i: "qm35_inv s cur"
  shows "\<exists>s'. call_read len nb w x s = Some s' \<and> qm35_inv s' cur"
proof -
  let ?h = "hs_heap s"
  obtain u ps where up: "ql_uci (hs_up s) = (u, ps)" by (cases "ql_uci (hs_up s)")
  have W: "uci_inv u ?h" "done_ok ps ?h" "uci_owns u \<inter> done_keys ps = {}"
    using qm35_inv_layers(5) [OF i] up by (simp_all add: uci_world_inv_def)
  obtain rc bytes u' h' where r: "uci_read u len nb w x ?h = Some (rc, bytes, u', h')" "uci_inv u' h'"
    using uci_read_branches [OF W(1)] by blast
  have "frame (uci_owns u) ?h h' \<and> uci_owns u' \<subseteq> uci_owns u"
    using uci_read_cases [OF r(1)]
  proof
    assume "u' = u \<and> h' = ?h"
    then show ?thesis by simp
  next
    assume "\<exists>p qs. uci_rx_list u = p # qs \<and> u' = u\<lparr>uci_rx_list := qs\<rparr> \<and> uci_packet_free p ?h = Some h'"
    then obtain p qs where "uci_rx_list u = p # qs" "u' = u\<lparr>uci_rx_list := qs\<rparr>" "frame (blk_keys p) ?h h'"
      using free_frame by blast
    then show ?thesis by (auto simp: uci_owns_def intro: frame_mono)
  qed
  then have f: "frame (uci_owns u) ?h h'" and o: "uci_owns u' \<subseteq> uci_owns u" by simp_all
  have "done_ok ps h'"
  proof (rule done_frame [OF W(2)])
    show "hp_mem h' k = hp_mem ?h k" if "k \<in> done_keys ps" for k
      using f W(3) that heap_ok_live [OF qm35_inv_layers(3) [OF i]] done_live [OF W(2) that]
      by (auto simp: frame_def)
  qed
  then have "uci_world_inv (u', ps) h'" using r(2) W(3) o by (auto simp: uci_world_inv_def)
  then have "qm35_inv (set_uci (u', ps) (s\<lparr>hs_heap := h'\<rparr>)) cur"
    by (intro qm35_inv_uci [OF i]) (use f o up in \<open>auto simp: uci_world_owns_def intro: frame_mono\<close>)
  then show ?thesis using r(1) up by (simp add: call_read_def)
qed

text \<open>The coredump layer's timer and the log layer's calls.\<close>

lemma coredump_calls_keep:
  assumes i: "qm35_inv s cur"
  shows "\<exists>s'. call_coredump_force s = Some s' \<and> qm35_inv s' cur"
    and "\<exists>s'. call_coredump_expired s = Some s' \<and> qm35_inv s' cur"
proof -
  note ok = qm35_inv_layers(3) [OF i]
  have "\<exists>p h'. debug_coredump_force (hs_heap s) = Some (p, h') \<and> handed p (hs_heap s) h'"
    unfolding debug_coredump_force_def by (rule make_packet_handed [OF ok]) simp
  then show "\<exists>s'. call_coredump_force s = Some s' \<and> qm35_inv s' cur"
    using coredump_transmit_ok [OF i] by (fastforce simp: call_coredump_force_def)
  show "\<exists>s'. call_coredump_expired s = Some s' \<and> qm35_inv s' cur"
  proof (cases "cd_timer (ql_coredump (hs_up s))")
    case True
    let ?l = "(ql_coredump (hs_up s))\<lparr>cd_timer := False\<rparr>"
    have "\<exists>p h'. coredump_send_rcv_status (cd_status (ql_coredump (hs_up s))) (hs_heap s) = Some (p, h') \<and>
        handed p (hs_heap s) h'"
      unfolding coredump_send_rcv_status_def by (rule make_packet_handed [OF ok]) simp
    then obtain p h' where p: "corredump_on_expired_timer (ql_coredump (hs_up s)) (hs_heap s) = Some (?l, p, h')"
      "handed p (hs_heap s) h'"
      by (auto simp: corredump_on_expired_timer_def)
    have "qm35_layers_inv ((hs_up s)\<lparr>ql_coredump := ?l\<rparr>) (hs_heap s)" "qm35_owns ((hs_up s)\<lparr>ql_coredump := ?l\<rparr>) = qm35_owns (hs_up s)"
      using qm35_inv_layers(1) [OF i] by (simp_all add: qm35_layers_inv_def cd_inv_def cd_owns_def qm35_owns_def)
    then have "qm35_inv (s\<lparr>hs_up := (hs_up s)\<lparr>ql_coredump := ?l\<rparr>, hs_heap := hs_heap s\<rparr>) cur"
      by (intro qm35_core.sys_inv_own [OF i]) auto
    then have "qm35_inv (set_coredump ?l s) cur" by (simp add: set_coredump_def)
    then have "qm35_inv (coredump_transmit p (set_coredump ?l s\<lparr>hs_heap := h'\<rparr>)) cur"
      by (rule coredump_transmit_ok) (use p(2) in \<open>simp add: set_coredump_def\<close>)
    moreover have "set_coredump ?l (s\<lparr>hs_heap := h'\<rparr>) = set_coredump ?l s\<lparr>hs_heap := h'\<rparr>"
      by (cases s) (simp add: set_coredump_def)
    ultimately show ?thesis using True p(1) by (simp add: call_coredump_expired_def)
  qed (use i in \<open>simp add: call_coredump_expired_def\<close>)
qed

lemma log_calls_keep:
  assumes i: "qm35_inv s cur"
  shows "\<exists>s'. call_log_enable b s = Some s' \<and> qm35_inv s' cur"
    and "module_deref (ql_log (hs_up s)) k j \<noteq> None \<Longrightarrow> \<exists>s'. call_log_level_set k j lvl s = Some s' \<and> qm35_inv s' cur"
    and "module_deref (ql_log (hs_up s)) k j \<noteq> None \<Longrightarrow> \<exists>s'. call_log_level_get k j c s = Some s' \<and> qm35_inv s' cur"
proof -
  note L = qm35_inv_layers(2,3) [OF i]
  obtain l' p h' where "log_enable_set (ql_log (hs_up s)) b 0 (hs_heap s) = Some (l', p, h')" "handed p (hs_heap s) h'"
    "log_inv l' (hs_heap s)"
    using log_enable_handed [OF L(1)] by blast
  then show "\<exists>s'. call_log_enable b s = Some s' \<and> qm35_inv s' cur"
    using log_transmit_ok [OF i, of p h' l' "ql_log (hs_up s)"] L(1) by (simp add: call_log_enable_def Let_def)
next
  note L = qm35_inv_layers(2,3) [OF i]
  assume "module_deref (ql_log (hs_up s)) k j \<noteq> None"
  then obtain p h' where "log_level_set (ql_log (hs_up s)) k j lvl 0 (hs_heap s) = Some (p, h')" "handed p (hs_heap s) h'"
    using log_level_set_handed [OF L(2)] by blast
  then show "\<exists>s'. call_log_level_set k j lvl s = Some s' \<and> qm35_inv s' cur"
    using log_transmit_ok [OF i, of p h' "ql_log (hs_up s)" "ql_log (hs_up s)"] L(1)
    by (simp add: call_log_level_set_def Let_def)
next
  note L = qm35_inv_layers(2,3) [OF i]
  assume "module_deref (ql_log (hs_up s)) k j \<noteq> None"
  then obtain r l' p h' where "log_level_get_start (ql_log (hs_up s)) k j c 0 (hs_heap s) = Some (r, l', p, h')"
    "handed p (hs_heap s) h'" "log_inv l' (hs_heap s)" "log_inv (l'\<lparr>lg_waiting := lg_waiting (ql_log (hs_up s))\<rparr>) (hs_heap s)"
    using log_level_get_handed [OF L(1)] by blast
  then show "\<exists>s'. call_log_level_get k j c s = Some s' \<and> qm35_inv s' cur"
    using log_transmit_ok [OF i, of p h' l' "l'\<lparr>lg_waiting := lg_waiting (ql_log (hs_up s))\<rparr>"]
    by (simp add: call_log_level_get_def Let_def)
qed

text \<open>Calls that only touch the ring buffer, a stack frame or the test layer.\<close>

lemma small_calls_keep:
  assumes i: "qm35_inv s cur"
  shows "module_deref (ql_log (hs_up s)) k j \<noteq> None \<Longrightarrow>
      \<exists>s'. qm35_do (Call_log_level_got k j c) s = Some s' \<and> qm35_inv s' cur"
    and "\<exists>s'. qm35_do Call_traces_reset s = Some s' \<and> qm35_inv s' cur"
    and "\<exists>s'. qm35_do Call_traces_size s = Some s' \<and> qm35_inv s' cur"
    and "\<exists>s'. qm35_do (Call_traces_next True) s = Some s' \<and> qm35_inv s' cur"
    and "\<exists>s'. qm35_do (Call_test_sleep parsed count) s = Some s' \<and> qm35_inv s' cur"
proof -
  let ?l = "ql_log (hs_up s)"
  note L = qm35_inv_layers(2) [OF i]
  have rb: "rb_inv 65535 (lg_rb ?l)" using L by (simp add: log_inv_def)
  have ring: "qm35_inv (set_log (?l\<lparr>lg_rb := r\<rparr>) s) cur" if "rb_inv 65535 r" for r
    by (rule qm35_inv_log [OF i log_inv_rb [OF L that]])
  show "\<exists>s'. qm35_do (Call_log_level_got k j c) s = Some s' \<and> qm35_inv s' cur" if "module_deref ?l k j \<noteq> None"
  proof -
    have "log_inv (?l\<lparr>lg_waiting := w\<rparr>) (hs_heap s)" for w using L by (simp add: log_inv_def)
    then show ?thesis using that qm35_inv_log [OF i] by (auto simp: log_level_get_finish_def)
  qed
  show "\<exists>s'. qm35_do Call_traces_reset s = Some s' \<and> qm35_inv s' cur"
    using ring [OF rb_inv_tail [OF rb]] by (simp add: log_trace_reset_def)
  show "\<exists>s'. qm35_do Call_traces_size s = Some s' \<and> qm35_inv s' cur"
    using rb_reads_ok(2) [OF rb] ring by (auto simp: log_trace_get_next_size_def)
  show "\<exists>s'. qm35_do (Call_traces_next True) s = Some s' \<and> qm35_inv s' cur"
    using rb_reads_ok(1) [OF rb] ring by (auto simp: log_trace_get_next_def)
  have "qm35_layers_inv ((hs_up s)\<lparr>ql_test := t\<rparr>) (hs_heap s)" "qm35_owns ((hs_up s)\<lparr>ql_test := t\<rparr>) = qm35_owns (hs_up s)" for t
    using qm35_inv_layers(1) [OF i] by (simp_all add: qm35_layers_inv_def qm35_owns_def)
  then have "qm35_inv (s\<lparr>hs_up := (hs_up s)\<lparr>ql_test := t\<rparr>, hs_heap := hs_heap s\<rparr>) cur" for t
    by (intro qm35_core.sys_inv_own [OF i]) auto
  then show "\<exists>s'. qm35_do (Call_test_sleep parsed count) s = Some s' \<and> qm35_inv s' cur" by simp
qed

lemma core_calls_keep:
  assumes i: "qm35_inv s (pc_items t)"
  shows "qm35_inv (snd (hsspi_register l s)) (pc_items t)" "qm35_inv (snd (hsspi_unregister l c s)) (pc_items t)"
    "qm35_inv (hsspi_start s) (pc_items t)" "qm35_inv (hsspi_stop c s) (pc_items t)"
    "qm35_inv (deliver_irq q s) (pc_items t)"
proof -
  have s: "qm35_core.sys_ok (s, t, 0)" using i by (simp add: qm35_core.sys_ok_def)
  note ok = qm35_core.hs_step_ok [OF s]
  show "qm35_inv (snd (hsspi_register l s)) (pc_items t)"
    using ok [OF _ hs_step.register] by (simp add: qm35_core.caller_ok_def qm35_core.sys_ok_def)
  show "qm35_inv (snd (hsspi_unregister l c s)) (pc_items t)"
    using ok [OF _ hs_step.unregister] by (simp add: qm35_core.caller_ok_def qm35_core.sys_ok_def)
  show "qm35_inv (hsspi_start s) (pc_items t)"
    using ok [OF _ hs_step.start] by (simp add: qm35_core.caller_ok_def qm35_core.sys_ok_def)
  show "qm35_inv (hsspi_stop c s) (pc_items t)"
    using ok [OF _ hs_step.stop] by (simp add: qm35_core.caller_ok_def qm35_core.sys_ok_def)
  show "qm35_inv (deliver_irq q s) (pc_items t)"
    using ok [OF _ hs_step.irq] by (simp add: qm35_core.caller_ok_def qm35_core.sys_ok_def)
qed

lemma qm35_do_ok:
  assumes i: "qm35_inv s (pc_items t)" and ok: "call_ok c s"
  shows "\<exists>s'. qm35_do c s = Some s' \<and> qm35_inv s' (pc_items t)"
proof (cases c)
  case (Call_write k buf u)
  then show ?thesis using write_keeps [OF i] ok by simp
next
  case (Call_traces_next alloc)
  then show ?thesis using small_calls_keep(4) [OF i] ok by simp
qed (use core_calls_keep [OF i] write_return_keeps [OF i] read_keeps [OF i] coredump_calls_keep [OF i] log_calls_keep [OF i]
      small_calls_keep [OF i] ok in auto)

section \<open>Steps\<close>

lemma qm35_step_ok:
  assumes "qm35_core.sys_ok st" "event_ok ev st" "qm35_step ev st st'"
  shows "qm35_core.sys_ok st'"
  using assms(3)
proof cases
  case (do_call c s s' t n)
  then have "qm35_inv s (pc_items t)" "call_ok c s" "n \<le> MAX_SUCCESSIVE_ERRORS"
    using assms(1,2) by (simp_all add: qm35_core.sys_ok_def)
  then show ?thesis using qm35_do_ok do_call by (fastforce simp: qm35_core.sys_ok_def)
next
  case (thread_take s hw s' n)
  then show ?thesis
    using qm35_core.hs_step_ok [OF assms(1) [unfolded thread_take] _ hs_step.take] by (simp add: qm35_core.caller_ok_def)
next
  case (thread_work e hw s n s' n')
  then show ?thesis
    using qm35_core.hs_step_ok [OF assms(1) [unfolded thread_work] _ hs_step.work] assms(2)
    by (simp add: qm35_core.caller_ok_def)
qed

lemma qm35_run_ok: "qm35_run es st st' \<Longrightarrow> qm35_core.sys_ok st \<Longrightarrow> qm35_core.sys_ok st'"
  by (induction rule: qm35_run.induct) (auto intro: qm35_step_ok)

end
