(* ===== verification/Hsspi_Progress.thy ===== *)
theory Hsspi_Progress
  imports Hsspi_Props
begin

text \<open>
  What a pass of the thread does to the layers' states, seen from a layer: an order that every operation
  respects is respected by the pass, and a block that is transmitted is handed to \<open>sent\<close> on the way.
\<close>

section \<open>Transfers leave the layers alone\<close>

lemma up_step: "xfer_step rx n s s' \<Longrightarrow> hs_up s' = hs_up s"
  by (simp add: xfer_step_def same_core_def)

lemma up_transfer: "spi_sync_transfer a tx rx n s = Some (ret, s') \<Longrightarrow> hs_up s' = hs_up s"
  by (auto simp: spi_sync_transfer_def emit_def up_step [OF xfer_step_irqs [of NullPtr]] split: Option.bind_splits prod.splits)

lemma up_attempt: "xfer_attempt a tx rx n s = Some (ret, s') \<Longrightarrow> hs_up s' = hs_up s"
proof -
  assume x: "xfer_attempt a tx rx n s = Some (ret, s')"
  obtain w s1 where w: "hsspi_wait_ss_ready a s = (w, s1)" by (cases "hsspi_wait_ss_ready a s")
  have "hs_up s1 = hs_up s" by (rule up_step [OF wait_step(1) [OF w, of NullPtr]])
  then show ?thesis
    using x w by (auto simp: xfer_attempt_def core_defs split: if_splits Option.bind_splits dest!: up_transfer)
qed

lemma up_loop: "xfer_loop retry env tx rx n s = Some (ret, s') \<Longrightarrow> hs_up s' = hs_up s"
proof (induction retry env tx rx n s arbitrary: ret s' rule: xfer_loop.induct)
  case (1 retry env tx rx n s)
  obtain r1 s1 where a: "xfer_attempt (env 0) tx rx n s = Some (r1, s1)"
    using 1(2) by (subst (asm) xfer_loop.simps) (auto split: Option.bind_splits)
  show ?case
  proof (cases "r1 = - EAGAIN \<and> 0 < retry - 1")
    case True
    then have "xfer_loop (retry - 1) (\<lambda>i. env (Suc i)) tx rx n s1 = Some (ret, s')"
      using 1(2) a by (subst (asm) xfer_loop.simps) simp
    then show ?thesis using 1(1) [OF a refl True] up_attempt [OF a] by simp
  next
    case False
    then have "s' = s1" using 1(2) a by (subst (asm) xfer_loop.simps) auto
    then show ?thesis using up_attempt [OF a] by simp
  qed
qed

lemma up_xfer: "spi_xfer env tx rx n s = Some (ret, s') \<Longrightarrow> hs_up s' = hs_up s"
  by (auto simp: spi_xfer_def split: Option.bind_splits dest: up_loop)

lemma up_send_all: "hs_up (send_all hl bs s) = hs_up s"
proof (induction bs arbitrary: s)
  case (Cons b bs)
  obtain ok heap where k: "kzalloc_struct (hs_heap s) = (ok, heap)" by (cases "kzalloc_struct (hs_heap s)")
  have "hs_up (snd (hsspi_send (Some hl) (Some b) s)) = hs_up s"
    by (simp add: hsspi_send_def k Let_def work_add_tail_def emit_def)
  then show ?case using Cons by simp
qed simp

section \<open>Orders on the layers' states\<close>

locale layer_order =
  fixes ops :: "('l, 'b) ops_table" and le :: "'l \<Rightarrow> 'l \<Rightarrow> bool"
  assumes le_refl: "le up up"
    and le_trans: "le up up' \<Longrightarrow> le up' up'' \<Longrightarrow> le up up''"
    and get_le: "op_get (ops hl) up n h = Some (b, up', h') \<Longrightarrow> le up up'"
    and received_le: "op_received (ops hl) up blk status h = Some (up', sends, h') \<Longrightarrow> le up up'"
    and sent_le: "op_sent (ops hl) up blk status h = Some (up', h') \<Longrightarrow> le up up'"
begin

lemma rx_transfer_le: "rx_transfer ops env ul n s = Some (ret, s') \<Longrightarrow> le (hs_up s) (hs_up s')"
  by (auto simp: rx_transfer_def layer_get_def layer_received_def Let_def up_send_all le_refl
      split: if_splits option.splits Option.bind_splits dest!: up_xfer get_le received_le) (metis le_trans)

lemma rx_le: "hsspi_rx ops env ul n s = Some (ret, s') \<Longrightarrow> le (hs_up s) (hs_up s')"
  by (auto simp: hsspi_rx_def set_host_def rx_check_def reenable_ss_irq_def emit_def Let_def
      split: Option.bind_splits if_splits dest!: rx_transfer_le)

text \<open>A transmission: the layer is told, then at most a reception follows.\<close>

lemma tx_le:
  assumes "hsspi_tx ops env env' hl b s = Some (ret, s')"
  shows "\<exists>status up h h'. op_sent (ops hl) (hs_up s) b status h = Some (up, h') \<and> le up (hs_up s')"
proof -
  obtain r1 s1 s2 where x: "spi_xfer env (blk_data b) NullPtr (blk_size b)
      (set_host (if hs_ss_irq s then STC_HOST_WR OR STC_HOST_PRD else STC_HOST_WR) (lay_id hl) (blk_length b) s) = Some (r1, s1)"
    "layer_sent ops hl b r1 s1 = Some s2"
    and r: "(ret, s') = (r1, s2) \<or> hsspi_rx ops env' (stc_ul (hs_soc s2)) (stc_length (hs_soc s2)) s2 = Some (ret, s')"
    using assms by (auto simp: hsspi_tx_def Let_def split: Option.bind_splits if_splits)
  have up: "hs_up s1 = hs_up s" using up_xfer [OF x(1)] by (simp add: set_host_def)
  obtain up' h' where sent: "op_sent (ops hl) (hs_up s) b r1 (hs_heap s1) = Some (up', h')" "hs_up s2 = up'"
    using x(2) up by (auto simp: layer_sent_def emit_def split: Option.bind_splits)
  have "le up' (hs_up s')" using r sent(2) rx_le le_refl by auto
  with sent show ?thesis by blast
qed

lemma work_le_tx:
  assumes "thread_work ops e (Some (HSSPI_WORK_TX b hl)) s n = Some (s', n')"
  shows "\<exists>status up h h'. op_sent (ops hl) (hs_up s) b status h = Some (up, h') \<and> le up (hs_up s')"
proof -
  obtain ret s1 where t: "hsspi_tx ops (pe_first e) (pe_second e) hl b s = Some (ret, s1)" and up: "hs_up s' = hs_up s1"
    using assms by (auto simp: thread_work_def count_error_def emit_def split: Option.bind_splits if_splits)
  show ?thesis unfolding up by (rule tx_le [OF t])
qed

lemma pre_read_le: "hsspi_pre_read ops env env' s = Some (ret, s') \<Longrightarrow> le (hs_up s) (hs_up s')"
proof -
  assume r: "hsspi_pre_read ops env env' s = Some (ret, s')"
  obtain r1 s1 where x: "spi_xfer env NullPtr NullPtr 0 (set_host STC_HOST_PRD 0 0 s) = Some (r1, s1)"
    and s': "(ret, s') = (r1, s1) \<or> hsspi_rx ops env' (stc_ul (hs_soc s1)) (stc_length (hs_soc s1)) s1 = Some (ret, s')"
    using r by (auto simp: hsspi_pre_read_def split: Option.bind_splits if_splits)
  have up: "hs_up s1 = hs_up s" using up_xfer [OF x] by (simp add: set_host_def)
  show ?thesis using s'
  proof
    assume "hsspi_rx ops env' (stc_ul (hs_soc s1)) (stc_length (hs_soc s1)) s1 = Some (ret, s')"
    from rx_le [OF this] show ?thesis by (simp add: up)
  qed (simp add: up le_refl)
qed

lemma work_le: "thread_work ops e hw s n = Some (s', n') \<Longrightarrow> le (hs_up s) (hs_up s')"
proof (cases hw)
  case None
  assume "thread_work ops e hw s n = Some (s', n')"
  then obtain ret s1 where "hsspi_pre_read ops (pe_first e) (pe_second e) s = Some (ret, s1)" "hs_up s' = hs_up s1"
    using None by (auto simp: thread_work_def count_error_def emit_def split: Option.bind_splits if_splits)
  then show ?thesis using pre_read_le by simp
next
  case (Some w)
  assume r: "thread_work ops e hw s n = Some (s', n')"
  show ?thesis
  proof (cases w)
    case (HSSPI_WORK_TX b hl)
    then show ?thesis using r Some work_le_tx sent_le le_trans by blast
  next
    case (HSSPI_WORK_COMPLETION c)
    then show ?thesis using r Some by (auto simp: thread_work_def emit_def le_refl)
  qed
qed

lemma pass_le: "hsspi_thread_pass ops e s n = Some (Th_run s' n') \<Longrightarrow> le (hs_up s) (hs_up s')"
  by (auto simp: hsspi_thread_pass_def get_work_def split: if_splits list.splits Option.bind_splits dest!: work_le)

lemma passes_le: "run_passes ops k es s n = Some (s', n') \<Longrightarrow> le (hs_up s) (hs_up s')"
proof (induction k arbitrary: es s n)
  case 0
  then show ?case by (simp add: le_refl)
next
  case (Suc k)
  then obtain s1 n1 where "hsspi_thread_pass ops (es 0) s n = Some (Th_run s1 n1)"
    "run_passes ops k (\<lambda>i. es (Suc i)) s1 n1 = Some (s', n')"
    by (auto split: option.splits thread_result.splits)
  then show ?case using Suc.IH pass_le le_trans by blast
qed

end

text \<open>
  With the contract of the layers as well, passes reach every item of the work list: they do not fault, and
  a block at position \<open>k\<close> has been handed to its layer after \<open>k + 1\<close> of them.
\<close>

lemma tx_reached:
  assumes L: "hsspi_layers linv owns msg_ok tx_ok ops" and O: "layer_order ops le"
    and i: "hsspi_layers.sys_inv linv owns tx_ok s []" and w: "hs_work_list s = ws1 @ HSSPI_WORK_TX b hl # ws2"
    and e: "not_stopping es" "\<forall>i. hsspi_layers.msgs_ok msg_ok UNIV (pe_second (es i))"
  shows "\<exists>s' n' up0 up status h h'. run_passes ops (Suc (length ws1)) es s n = Some (s', n') \<and>
    op_sent (ops hl) up0 b status h = Some (up, h') \<and> le up (hs_up s') \<and>
    hsspi_layers.sys_inv linv owns tx_ok s' []"
  using i w e
proof (induction ws1 arbitrary: s n es ws2)
  case Nil
  let ?s = "s\<lparr>hs_work_list := ws2\<rparr>"
  obtain s' n' where p: "hsspi_thread_pass ops (es 0) s n = Some (Th_run s' n')" and i: "hsspi_layers.sys_inv linv owns tx_ok s' []"
    using hsspi_layers.pass_ok [OF L Nil.prems(1), of "HSSPI_WORK_TX b hl" ws2 "es 0" n] Nil.prems by (auto simp: not_stopping_def)
  then have "thread_work ops (es 0) (Some (HSSPI_WORK_TX b hl)) ?s n = Some (s', n')"
    using Nil.prems(2) by (auto simp: hsspi_thread_pass_def get_work_def split: if_splits Option.bind_splits)
  then show ?case using layer_order.work_le_tx [OF O] p i by fastforce
next
  case (Cons w ws1)
  obtain s' n' new where p: "hsspi_thread_pass ops (es 0) s n = Some (Th_run s' n')" and i: "hsspi_layers.sys_inv linv owns tx_ok s' []"
    and l: "hs_work_list s' = (ws1 @ HSSPI_WORK_TX b hl # ws2) @ new"
    using hsspi_layers.pass_ok [OF L Cons.prems(1), of w "ws1 @ HSSPI_WORK_TX b hl # ws2" "es 0" n] Cons.prems
    by (auto simp: not_stopping_def)
  have ns: "not_stopping (\<lambda>i. es (Suc i))" using Cons.prems by (simp add: not_stopping_def)
  show ?case using Cons.IH [OF i, of "ws2 @ new" "\<lambda>i. es (Suc i)" n'] l ns Cons.prems(4) p by auto
qed

end
