(* ===== verification/Qm35_Props.thy ===== *)
theory Qm35_Props
  imports Qm35_Safe Hsspi_Progress "HOL-Library.Sublist"
begin

text \<open>Properties of the whole driver side: the core with its four layers, from initialisation on.\<close>

text \<open>The layers as probe leaves them, given the log layer that \<open>log_layer_init\<close> made.\<close>

definition qm35_layers_init :: "log_layer \<Rightarrow> qm35_layers" where
  "qm35_layers_init lg = \<lparr>ql_uci = (uci_layer_init, []), ql_coredump = coredump_layer_init, ql_log = lg,
     ql_test = test_layer_init\<rparr>"

lemma qm35_inv_init: "heap_ok h \<Longrightarrow> log_inv lg h \<Longrightarrow> qm35_layers_inv (qm35_layers_init lg) h"
  by (simp add: qm35_layers_inv_def qm35_layers_init_def uci_world_inv_def cd_inv_init [unfolded coredump_layer_init_def] cd_owns_def
      coredump_layer_init_def uci_world_owns_def)

lemma qm35_start_ok:
  assumes "log_layer_init (Some mem) = Inr lg" "length mem = TRACE_RB_SIZE" "u16_at mem 0 = Some 0" "heap_ok h"
  shows "qm35_core.sys_ok (snd (hsspi_init 0 h (qm35_layers_init lg)), Th_idle, 0)"
proof -
  have "log_inv lg h" using log_init_inv [OF assms(2-4)] assms(1) by auto
  then show ?thesis by (rule qm35_core.sys_ok_init [OF qm35_inv_init [OF assms(4)]])
qed

text \<open>What holds in every reachable state of the core with its layers.\<close>

definition core_safe :: "qm35_core \<Rightarrow> unit uci_packet_ext thread_pc \<Rightarrow> nat \<Rightarrow> bool" where
  "core_safe c t n \<longleftrightarrow>
     qm35_layers_inv (hs_up c) (hs_heap c) \<and>
     (\<forall>x \<in> set (pc_items t @ tx_items (hs_work_list c)). \<exists>bs. block_holds (hs_heap c) (fst x) bs) \<and>
     (\<forall>call. call_ok call c \<longrightarrow> qm35_do call c \<noteq> None) \<and>
     (\<forall>hw e. t = Th_busy hw \<longrightarrow> event_ok (Thread_work e) (c, t, n) \<longrightarrow> thread_work qm35_ops e hw c n \<noteq> None) \<and>
     queued_of (hs_out c) = sent_of (hs_out c) @ pc_items t @ tx_items (hs_work_list c)"

lemma sys_ok_safe:
  assumes "qm35_core.sys_ok (c, t, n)"
  shows "core_safe c t n"
proof -
  have i: "qm35_inv c (pc_items t)" using assms by (simp add: qm35_core.sys_ok_def)
  have "thread_work qm35_ops e hw c n \<noteq> None" if "t = Th_busy hw" "event_ok (Thread_work e) (c, t, n)" for hw e
    using qm35_core.thread_work_ok [of c hw e n] i that by (auto simp: qm35_core.pc_items_busy)
  moreover have "qm35_do call c \<noteq> None" if "call_ok call c" for call using qm35_do_ok [OF i that] by auto
  ultimately show ?thesis
    using qm35_inv_layers(1) [OF i] qm35_core.waiting_item(1) [OF i] i
    by (simp add: core_safe_def qm35_core.sys_inv_def fifo_def)
qed

text \<open>
  Claim C1. Memory safety of the whole driver side.  From the state in which probe leaves the core and the
  UCI, coredump, log and test layers, with a cleared trace buffer, let calls of the rest of the kernel
  (registration, start, stop, interrupts, reads and writes of the UCI device, the files of debugfs, the
  coredump timer), passes of the HSSPI thread, allocation failures and answers of the firmware and the SPI
  controller interleave in any order, as long as messages suit their layer, handles of log modules
  are valid, writes are shorter than 64 KiB and the memory for a trace that is read can be allocated; a read of
  the UCI device is one step, so that readers do not overlap.  In every state reached the four layers keep their invariants and own disjoint memory, every
  block waiting to be sent is intact, no such call and no pass of the thread makes a memory fault, and
  blocks have been sent in the order in which they were accepted.
\<close>

theorem qm35_system_safe:
  assumes "log_layer_init (Some mem) = Inr lg" "length mem = TRACE_RB_SIZE" "u16_at mem 0 = Some 0" "heap_ok h"
    and "qm35_run es (snd (hsspi_init 0 h (qm35_layers_init lg)), Th_idle, 0) (s, t, n)"
  shows "qm35_layers_inv (hs_up s) (hs_heap s) \<and>
    (\<forall>x \<in> set (pc_items t @ tx_items (hs_work_list s)). \<exists>bs. block_holds (hs_heap s) (fst x) bs) \<and>
    (\<forall>c. call_ok c s \<longrightarrow> qm35_do c s \<noteq> None) \<and>
    (\<forall>hw e. t = Th_busy hw \<longrightarrow> event_ok (Thread_work e) (s, t, n) \<longrightarrow> thread_work qm35_ops e hw s n \<noteq> None) \<and>
    queued_of (hs_out s) = sent_of (hs_out s) @ pc_items t @ tx_items (hs_work_list s)"
  using sys_ok_safe [OF qm35_run_ok [OF assms(5) qm35_start_ok [OF assms(1-4)]]] by (simp add: core_safe_def)

text \<open>A run in which a packet is written and the thread takes it.\<close>

definition witness_log :: log_layer where
  "witness_log = (case log_layer_init (Some (replicate TRACE_RB_SIZE 0)) of Inr l \<Rightarrow> l | Inl _ \<Rightarrow> undefined)"

lemma witness_log_init: "log_layer_init (Some (replicate TRACE_RB_SIZE 0)) = Inr witness_log"
  by (simp add: witness_log_def log_layer_init_def rb_init_def)

definition ready_state :: qm35_core where
  "ready_state = hsspi_start (snd (hsspi_register uci_lay (snd (hsspi_init 0 empty_heap (qm35_layers_init witness_log)))))"

lemma ready_state_facts:
  "hs_heap ready_state = empty_heap" "hs_work_list ready_state = []" "hs_up ready_state = qm35_layers_init witness_log"
  "hs_state ready_state = HSSPI_RUNNING" "hs_layers ready_state ! UL_UCI_APP = Some uci_lay"
  by (simp_all add: ready_state_def hsspi_start_def hsspi_register_def hsspi_init_def uci_lay_def layer_id_is_valid_def
      UL_UCI_APP_def UL_MAX_IDX_def)

definition written_state :: qm35_core where
  "written_state = (case uci_write_begin uci_lay 4 [1, 2, 3] 0 ready_state of Some (_, s) \<Rightarrow> s | None \<Rightarrow> ready_state)"

lemma ready_write: "\<exists>p. uci_write_begin uci_lay 4 [1, 2, 3] 0 ready_state = Some (Inr p, written_state)"
  using write_accepted [OF ready_state_facts(1,4,5)] by (auto simp: written_state_def)

lemma ready_run:
  "qm35_run [Do (Call_register uci_lay), Do Call_start]
     (snd (hsspi_init 0 empty_heap (qm35_layers_init witness_log)), Th_idle, 0) (ready_state, Th_idle, 0)"
proof -
  let ?s = "snd (hsspi_init 0 empty_heap (qm35_layers_init witness_log)) :: qm35_core"
  have 1: "qm35_run ([] @ [Do (Call_register uci_lay)]) (?s, Th_idle, 0) (snd (hsspi_register uci_lay ?s), Th_idle, 0)"
    by (rule q_step [OF q_nil _ qm35_step.do_call]) simp_all
  have "qm35_run (([] @ [Do (Call_register uci_lay)]) @ [Do Call_start]) (?s, Th_idle, 0) (ready_state, Th_idle, 0)"
    by (rule q_step [OF 1 _ qm35_step.do_call]) (simp_all add: ready_state_def)
  then show ?thesis by simp
qed

lemma written_run:
  "qm35_run ([Do (Call_register uci_lay), Do Call_start] @ [Do (Call_write 4 [1, 2, 3] 0)])
     (snd (hsspi_init 0 empty_heap (qm35_layers_init witness_log)), Th_idle, 0) (written_state, Th_idle, 0)"
  by (rule q_step [OF ready_run _ qm35_step.do_call]) (use ready_write in auto)

theorem qm35_system_safe_witness:
  "qm35_layers_inv (hs_up written_state) (hs_heap written_state) \<and>
   (\<exists>p bs. hs_work_list written_state = [HSSPI_WORK_TX p uci_lay] \<and> block_holds (hs_heap written_state) p bs) \<and>
   qm35_do (Call_read 16 True 0 0) written_state \<noteq> None \<and> qm35_do (Call_log_enable True) written_state \<noteq> None"
proof -
  obtain p where w: "uci_write_begin uci_lay 4 [1, 2, 3] 0 ready_state = Some (Inr p, written_state)"
    using ready_write by blast
  have h: "heap_ok (hs_heap ready_state)" by (simp add: ready_state_facts)
  obtain h2 where "hsspi_send (Some uci_lay) (Some p) (ready_state\<lparr>hs_heap := h2\<rparr>) = (0, written_state)"
    using write_begin_ok [OF h, of "[1, 2, 3]" uci_lay 4 0] w by auto
  then have p: "hs_work_list written_state = [HSSPI_WORK_TX p uci_lay]"
    using hsspi_send_results [of uci_lay p "ready_state\<lparr>hs_heap := h2\<rparr>" 0 written_state] by (simp add: ready_state_facts)
  note S = qm35_system_safe [OF witness_log_init length_replicate cleared_ring heap_ok_empty written_run]
  have C: "qm35_do c written_state \<noteq> None" if "call_ok c written_state" for c using S that by blast
  show ?thesis using S p C [of "Call_read 16 True 0 0"] C [of "Call_log_enable True"] by (simp del: qm35_do.simps)
qed

section \<open>A writer returns\<close>

text \<open>Passes of the thread only add to the packets whose writers have been completed.\<close>

definition done_le :: "qm35_layers \<Rightarrow> qm35_layers \<Rightarrow> bool" where
  "done_le up up' \<longleftrightarrow> prefix (snd (ql_uci up)) (snd (ql_uci up'))"

interpretation done_order: layer_order qm35_ops done_le
proof (unfold_locales, goal_cases)
  case (3 hl up n h b up' h')
  then show ?case
    by (auto simp: done_le_def qm35_ops_def block_ops_def focus_get_def wrap_get_def uci_ops_def split: if_splits)
next
  case (4 hl up blk status h up' sends h')
  then show ?case
    by (auto simp: done_le_def qm35_ops_def block_ops_def focus_received_def wrap_received_def uci_ops_def split: if_splits)
next
  case (5 hl up blk status h up' h')
  then show ?case
    by (auto simp: done_le_def qm35_ops_def block_ops_def focus_sent_def wrap_sent_def uci_ops_def split: if_splits)
qed (auto simp: done_le_def intro: prefix_order.trans)

lemma uci_sent_done:
  assumes "op_sent (qm35_ops uci_lay) up p status h = Some (up', h')" "pk_write_done p = Some c"
  shows "p\<lparr>pk_status := status\<rparr> \<in> set (snd (ql_uci up'))"
  using assms
  by (auto simp: qm35_ops_def uci_lay_def UL_UCI_APP_def UL_COREDUMP_def UL_LOG_def UL_TEST_HSSPI_def focus_sent_def
      uci_ops_def uci_sent_def)

lemma take_done_member: "p \<in> set ps \<Longrightarrow> pk_write_done p = Some c \<Longrightarrow> take_done c ps \<noteq> None"
  by (induction ps) auto

text \<open>
  Claim C3. \<open>uci_write\<close> returns.  In any reachable state in which the thread is between two passes, a write
  whose packet the core has accepted behind k work items is completed after k + 1 passes of the thread,
  whatever the firmware and the SPI controller do, as long as the firmware's messages suit the layers: its
  packet has been handed back with a status, and the writer, when it runs, frees it without a fault.
\<close>

theorem uci_write_returns:
  assumes "log_layer_init (Some mem) = Inr lg" "length mem = TRACE_RB_SIZE" "u16_at mem 0 = Some 0" "heap_ok h"
    and "qm35_run evs (snd (hsspi_init 0 h (qm35_layers_init lg)), Th_idle, 0) (s, Th_idle, n)"
    and w: "uci_write_begin uci_lay c buf u s = Some (Inr p, s1)" "length buf < 65536"
    and e: "not_stopping es" "\<forall>i. qm35_core.msgs_ok UNIV (pe_second (es i))"
  shows "\<exists>s2 n2 status. run_passes qm35_ops (Suc (length (hs_work_list s))) es s1 n = Some (s2, n2) \<and>
    p\<lparr>pk_status := status\<rparr> \<in> set (snd (ql_uci (hs_up s2))) \<and>
    take_done c (snd (ql_uci (hs_up s2))) \<noteq> None \<and> call_write_return c (length buf) s2 \<noteq> None"
proof -
  have i: "qm35_inv s []"
    using qm35_run_ok [OF assms(5) qm35_start_ok [OF assms(1-4)]] by (simp add: qm35_core.sys_ok_def)
  obtain h2 where h2: "pk_write_done p = Some c" "hsspi_send (Some uci_lay) (Some p) (s\<lparr>hs_heap := h2\<rparr>) = (0, s1)"
    using write_begin_ok [OF qm35_inv_layers(3) [OF i] w(2), of uci_lay c u] w(1) by auto
  have l: "hs_work_list s1 = hs_work_list s @ HSSPI_WORK_TX p uci_lay # []"
    using hsspi_send_results [OF h2(2)] by simp
  have i1: "qm35_inv s1 []" using write_keeps [OF i w(2), of c u] w(1) by simp
  obtain s2 n2 up0 up status hp hp' where r: "run_passes qm35_ops (Suc (length (hs_work_list s))) es s1 n = Some (s2, n2)"
    "op_sent (qm35_ops uci_lay) up0 p status hp = Some (up, hp')" "done_le up (hs_up s2)" "qm35_inv s2 []"
    using tx_reached [OF qm35_core.hsspi_layers_axioms done_order.layer_order_axioms i1 l e] by blast
  have m: "p\<lparr>pk_status := status\<rparr> \<in> set (snd (ql_uci (hs_up s2)))"
    using uci_sent_done [OF r(2) h2(1)] r(3) set_mono_prefix by (auto simp: done_le_def)
  have "take_done c (snd (ql_uci (hs_up s2))) \<noteq> None" by (rule take_done_member [OF m]) (simp add: h2(1))
  moreover have "call_write_return c (length buf) s2 \<noteq> None" using write_return_keeps [OF r(4)] by auto
  ultimately show ?thesis using r(1) m by blast
qed

theorem uci_write_returns_witness:
  "\<exists>p s1 s2 n2 status. uci_write_begin uci_lay 4 [1, 2, 3] 0 ready_state = Some (Inr p, s1) \<and>
     run_passes qm35_ops 1 (\<lambda>_. ready_pass) s1 0 = Some (s2, n2) \<and>
     p\<lparr>pk_status := status\<rparr> \<in> set (snd (ql_uci (hs_up s2))) \<and> call_write_return 4 3 s2 \<noteq> None"
proof -
  have m: "\<forall>i. qm35_core.msgs_ok UNIV (pe_second ready_pass)"
    by (auto simp: qm35_core.msgs_ok_def ready_pass_def ready_attempt_def qm35_msg_ok_def cd_msg_ok_def log_msg_ok_def
        log_cids chunk_def fit_def)
  have ns: "not_stopping (\<lambda>_. ready_pass)" by (simp add: not_stopping_def ready_pass_def)
  obtain p where w: "uci_write_begin uci_lay 4 [1, 2, 3] 0 ready_state = Some (Inr p, written_state)"
    using ready_write by blast
  have k: "length [1, 2, 3 :: byte] = 3" "Suc (length (hs_work_list ready_state)) = 1" "(3 :: nat) < 65536"
    by (simp_all add: ready_state_facts)
  show ?thesis
    using uci_write_returns [OF witness_log_init length_replicate cleared_ring heap_ok_empty ready_run w _ ns m,
        unfolded k(1,2), OF k(3)] w by blast
qed

end
