(* ===== verification/Qm35_Probe.thy ===== *)
theory Qm35_Probe
  imports Driver_Props Qm35_Props
begin

text \<open>
  The driver around the core with its four layers: \<open>qm35_probe\<close> builds the context in which the calls and
  the thread of Qm35_System run, and the operations of the driver (opening and closing the device, ioctl,
  reset, suspend and resume, the interrupt) go on beside them until \<open>qm35_remove\<close>.

  While an operation of the driver waits for the thread, the thread makes passes (\<open>thread_passes\<close>), which
  are given with the operation; it starts between two passes.
\<close>

section \<open>The driver keeps the invariant of the core\<close>

definition safe_await :: "(qm35_layers, unit uci_packet_ext) await \<Rightarrow> bool" where
  "safe_await await \<longleftrightarrow> (\<forall>c. qm35_inv c [] \<longrightarrow> qm35_inv (await c) [])"

type_synonym 'w qm35_driver = "(qm35_layers, unit uci_packet_ext, 'w) qm35"
type_synonym 'w qm35_probe = "(qm35_layers, unit uci_packet_ext, 'w) probe"

abbreviation drv_safe :: "'w qm35_driver \<Rightarrow> bool" where
  "drv_safe s \<equiv> qm35_inv (q_hsspi s) []"

lemma idle_calls_keep:
  assumes "qm35_inv c []"
  shows "qm35_inv (snd (hsspi_register l c)) []" "qm35_inv (snd (hsspi_unregister l k c)) []"
    "qm35_inv (hsspi_start c) []" "qm35_inv (hsspi_stop k c) []"
  using core_calls_keep [of c Th_idle] assms by simp_all

lemma clear_ready_inv [simp]: "qm35_inv (hsspi_clear_spi_slave_ready c) cur = qm35_inv c cur"
  by (simp add: hsspi_clear_spi_slave_ready_def qm35_core.sys_inv_def layers_ok_def irq_balanced_def fifo_def)

lemma register_safe: "drv_safe s \<Longrightarrow> drv_safe (snd (register_layer l s))"
  by (simp add: register_layer_def split_beta idle_calls_keep)

lemma drv_start_safe: "drv_safe s \<Longrightarrow> drv_safe (qm35_hsspi_start s)"
  by (simp add: qm35_hsspi_start_def enable_rdy_irq_def Let_def idle_calls_keep)

lemma disable_irq_safe [simp]: "drv_safe (disable_rdy_irq s) = drv_safe s"
  by (simp add: disable_rdy_irq_def split: option.splits)

lemma waiting_safe:
  assumes "safe_await await" "drv_safe s"
  shows "drv_safe (stop_and_wait await s)" "drv_safe (snd (unregister_and_wait await l s))"
    "drv_safe (qm35_hsspi_stop await s)" "drv_safe (hsspi_test_deinit await s)"
proof -
  have a: "qm35_inv (await c) []" if "qm35_inv c []" for c using assms(1) that by (simp add: safe_await_def)
  show 1: "drv_safe (stop_and_wait await s)" using assms(2) by (simp add: stop_and_wait_def a idle_calls_keep)
  have u: "drv_safe (snd (unregister_and_wait await l s))" for l
    using assms(2) idle_calls_keep(2) [of "q_hsspi s" l 0] by (auto simp: unregister_and_wait_def split_beta Let_def a)
  show "drv_safe (snd (unregister_and_wait await l s))" "drv_safe (hsspi_test_deinit await s)"
    using u by (simp_all add: hsspi_test_deinit_def)
  show "drv_safe (qm35_hsspi_stop await s)" using 1 assms(2) by (simp add: qm35_hsspi_stop_def)
qed

lemma irqs_setup_safe: "drv_safe s \<Longrightarrow> drv_safe (snd (hsspi_irqs_setup e s))"
  by (auto simp: hsspi_irqs_setup_def exton_setup_def Let_def split: sum.splits bool.splits)

lemma firmware_load_safe: "good_files pl \<Longrightarrow> drv_safe s \<Longrightarrow> qm_firmware_load pl s = Some (ret, s') \<Longrightarrow> drv_safe s'"
  using firmware_load_ok [of pl s] by (auto simp: same_driver_def)

section \<open>Probing\<close>

abbreviation probe_safe :: "'w qm35_probe \<Rightarrow> bool" where
  "probe_safe p \<equiv> drv_safe (pr_ctx p)"

lemma probe_simps [simp]:
  "pr_ctx (hold r p) = pr_ctx p" "pr_ctx (release r p) = pr_ctx p" "pr_ctx (on_ctx f p) = f (pr_ctx p)"
  "pr_ctx (deinit_core p) = pr_ctx p" "q_hsspi (pr_ctx (L_poweroff pl p)) = q_hsspi (pr_ctx p)"
  "q_hsspi (pr_ctx (L_hsspi_deinit pl p)) = q_hsspi (pr_ctx p)"
  "q_hsspi (pr_ctx (L_uci_layer_deinit pl p)) = q_hsspi (pr_ctx p)"
  by (simp_all add: hold_def release_def on_ctx_def deinit_core_def L_poweroff_def L_hsspi_deinit_def L_uci_layer_deinit_def)

lemma debug_deinit_ctx: "probe_debug_deinit p = Some p' \<Longrightarrow> pr_ctx p' = pr_ctx p"
  by (auto simp: probe_debug_deinit_def split: if_splits)

lemma debug_init_ctx: "probe_debug_init rc p = Some (ret, p') \<Longrightarrow> pr_ctx p' = pr_ctx p"
  by (auto simp: probe_debug_init_def Let_def split: if_splits dest: debug_deinit_ctx)

lemma L_debug_safe: "L_debug_deinit pl p = Some p' \<Longrightarrow> probe_safe p \<Longrightarrow> probe_safe p'"
  by (auto simp: L_debug_deinit_def dest: debug_deinit_ctx)

lemma labels_safe:
  assumes a: "safe_await await" and p: "probe_safe p"
  shows "L_hsspi_test_deinit pl await p = Some p' \<Longrightarrow> probe_safe p'"
    and "L_coredump_layer_deinit pl await p = Some p' \<Longrightarrow> probe_safe p'"
    and "L_log_layer_deinit pl await p = Some p' \<Longrightarrow> probe_safe p'"
    and "L_coredump_layer_unregister pl await p = Some p' \<Longrightarrow> probe_safe p'"
    and "L_log_layer_unregister pl await p = Some p' \<Longrightarrow> probe_safe p'"
proof -
  have test: "probe_safe p'" if "L_hsspi_test_deinit pl await p = Some p'" "probe_safe p" for p p' :: "'a qm35_probe"
    using that waiting_safe(4) [OF a that(2)] L_debug_safe [of pl "on_ctx (hsspi_test_deinit await) p" p']
    by (simp add: L_hsspi_test_deinit_def)
  have lo: "probe_safe p'" if "L_log_layer_deinit pl await p = Some p'" "probe_safe p" for p p' :: "'a qm35_probe"
    using that test by (simp add: L_log_layer_deinit_def L_coredump_layer_deinit_def)
  have cu: "probe_safe p'" if "L_coredump_layer_unregister pl await p = Some p'" "probe_safe p" for p p' :: "'a qm35_probe"
    using that waiting_safe(2) [OF a that(2), of coredump_lay] lo by (simp add: L_coredump_layer_unregister_def)
  show "L_hsspi_test_deinit pl await p = Some p' \<Longrightarrow> probe_safe p'" using test p by blast
  show "L_coredump_layer_deinit pl await p = Some p' \<Longrightarrow> probe_safe p'" using test p by (simp add: L_coredump_layer_deinit_def)
  show "L_log_layer_deinit pl await p = Some p' \<Longrightarrow> probe_safe p'" using lo p by blast
  show "L_coredump_layer_unregister pl await p = Some p' \<Longrightarrow> probe_safe p'" using cu p by blast
  show "L_log_layer_unregister pl await p = Some p' \<Longrightarrow> probe_safe p'"
    using cu waiting_safe(2) [OF a p, of log_lay] by (simp add: L_log_layer_unregister_def)
qed

lemma probe_start_safe:
  assumes a: "safe_await await" and p: "probe_safe p" and r: "probe_start pl await e p = Some (rc, p')"
  shows "probe_safe p'"
proof -
  let ?start = "\<lambda>s :: 'a qm35_driver. s\<lparr>q_hsspi := hsspi_start (q_hsspi s)\<rparr>"
  let ?p = "if \<not> pl_NO_UWB_HAL pl then (if \<not> REGULATORS_ENABLED (pr_ctx p) then on_ctx ?start p else p)
    else on_ctx ?start (on_ctx (qm35_regulators_set pl True) p)"
  have s: "probe_safe ?p" using p by (simp add: idle_calls_keep)
  show ?thesis using r labels_safe(5) [OF a s] s by (auto simp: probe_start_def Let_def split: if_splits)
qed

lemma probe_irqs_safe:
  assumes a: "safe_await await" and g: "good_files pl" and p: "probe_safe p" and r: "probe_irqs pl await e p = Some (rc, p')"
  shows "probe_safe p'"
proof -
  let ?s = "snd (hsspi_irqs_setup (pb_irqs e) (pr_ctx p))"
  let ?p = "p\<lparr>pr_ctx := ?s\<rparr>"
  have s: "probe_safe ?p" using irqs_setup_safe [OF p] by simp
  have f: "drv_safe s2" if "qm_firmware_load pl (qm35_regulators_set pl True ?s) = Some (ret, s2)" for ret s2
    by (rule firmware_load_safe [OF g _ that]) (use s in simp)
  have f': "probe_safe (?p\<lparr>pr_ctx := qm35_regulators_set pl False s2\<rparr>)"
    if "qm_firmware_load pl (qm35_regulators_set pl True ?s) = Some (ret, s2)" for ret s2
    using f [OF that] by simp
  show ?thesis
    using r labels_safe(5) [OF a s] probe_start_safe [OF a s] labels_safe(5) [OF a f'] probe_start_safe [OF a f']
    by (auto simp: probe_irqs_def split_beta Let_def split: if_splits Option.bind_splits)
qed

lemma probe_layers_safe:
  assumes a: "safe_await await" and g: "good_files pl" and p: "probe_safe p" and r: "probe_layers pl await e p = Some (rc, p')"
  shows "probe_safe p'"
proof -
  let ?p1 = "hold Res_coredump_layer p"
  let ?p2 = "hold Res_log_layer ?p1"
  let ?p3 = "?p2\<lparr>pr_ctx := snd (register_layer coredump_lay (pr_ctx ?p2))\<rparr>"
  let ?p4 = "?p3\<lparr>pr_ctx := snd (register_layer log_lay (pr_ctx ?p3))\<rparr>"
  have s: "probe_safe ?p1" "probe_safe ?p3" using register_safe [OF p] p by simp_all
  have s4: "probe_safe ?p4" using register_safe [OF s(2)] by simp
  show ?thesis
    using r labels_safe(1) [OF a p] labels_safe(2) [OF a s(1)] labels_safe(3) [OF a s(2)] labels_safe(4) [OF a s4]
      probe_irqs_safe [OF a g s4]
    by (auto simp: probe_layers_def split_beta Let_def split: if_splits)
qed

lemma init_safe: "qm35_layers_inv up h \<Longrightarrow> qm35_inv (snd (hsspi_init e h up)) []"
  using qm35_core.sys_ok_init [of up h e] by (simp add: qm35_core.sys_ok_def)

lemma probe_core_safe:
  assumes a: "safe_await await" and g: "good_files pl" and up: "qm35_layers_inv up h" and p: "probe_safe p"
    and r: "probe_core pl await e h up p = Some (rc, p')"
  shows "probe_safe p'"
proof -
  define core where "core = (snd (hsspi_init (pb_thread e) h up) :: qm35_core)"
  let ?p1 = "on_ctx (\<lambda>s. s\<lparr>q_hsspi := core\<rparr>) (hold Res_debugfs p)"
  let ?p2 = "hold Res_uci_layer (hold Res_hsspi ?p1)"
  have s: "probe_safe ?p1" using init_safe [OF up] by (simp add: core_def)
  have t: "probe_safe (q\<lparr>pr_ctx := snd (hsspi_test_init (pr_ctx q))\<rparr>)" "probe_safe q"
    if "probe_debug_init (pb_debug e) ?p2 = Some (ret, q)" for ret q
    using s register_safe [of "pr_ctx q" test_hsspi_layer] debug_init_ctx [OF that] by (simp_all add: hsspi_test_init_def)
  have i: "hsspi_init (pb_thread e) h up = (pb_thread e, core)" by (simp add: core_def hsspi_init_def)
  consider (root) "pb_debug_root e \<noteq> 0" | (thread) "pb_debug_root e = 0" "pb_thread e \<noteq> 0"
    | (uci) "pb_debug_root e = 0" "pb_thread e = 0" "pb_uci_layer e \<noteq> 0"
    | (rest) "pb_debug_root e = 0" "pb_thread e = 0" "pb_uci_layer e = 0" by blast
  then show ?thesis
  proof cases
    case root
    then show ?thesis using r p by (auto simp: probe_core_def dest: debug_deinit_ctx)
  next
    case rest
    then obtain ret q where q: "probe_debug_init (pb_debug e) ?p2 = Some (ret, q)"
      and c: "(if ret \<noteq> 0 then Some (ret, L_uci_layer_deinit pl q)
        else let (ret, s) = hsspi_test_init (pr_ctx q); p = q\<lparr>pr_ctx := s\<rparr> in
        if ret \<noteq> 0 then map_option (\<lambda>p. (ret, p)) (L_debug_deinit pl p)
        else probe_layers pl await e p) = Some (rc, p')"
      using r unfolding probe_core_def Let_def i by (auto split: Option.bind_splits)
    note t = t [OF q]
    show ?thesis
      using c t L_debug_safe [OF _ t(1)] probe_layers_safe [OF a g t(1)] by (auto simp: split_beta Let_def split: if_splits)
  next
    case thread
    then show ?thesis using r s unfolding probe_core_def Let_def i by auto
  next
    case uci
    then show ?thesis using r s unfolding probe_core_def Let_def i by auto
  qed
qed

lemma new_ctx_safe:
  assumes "qm35_layers_inv up h"
  shows "drv_safe (new_ctx h up w)"
  using init_safe [OF assms, of 0]
  by (simp add: new_ctx_def qm35_core.sys_inv_def layers_ok_def irq_balanced_def fifo_def)

lemma probe_keeps_safe:
  assumes a: "safe_await await" and g: "good_files pl" and up: "qm35_layers_inv up h"
    and r: "qm35_probe pl await e h up w = Some (rc, p)"
  shows "probe_safe p"
proof -
  let ?p = "\<lparr>pr_ctx = new_ctx h up w, pr_held = {}, pr_debug_wq = False\<rparr>"
  have n: "drv_safe (new_ctx h up w)" by (rule new_ctx_safe [OF up])
  have "probe_safe (on_ctx (\<lambda>s. qm35_regulators_setup vdd (s\<lparr>q_gpio_reset := v\<rparr>)) ?p)" for vdd v
    using n by (simp add: qm35_regulators_setup_def)
  note c = probe_core_safe [OF a g up this]
  show ?thesis
    using r n by (auto simp: qm35_probe_def Let_def split: if_split_asm sum.splits intro: c)
qed

lemma remove_keeps_safe:
  assumes a: "safe_await await" and p: "probe_safe p" and r: "qm35_remove pl await p = Some p'"
  shows "probe_safe p'"
proof -
  have "drv_safe (stop_and_wait await (pr_ctx p))" by (rule waiting_safe(1) [OF a p])
  note 2 = waiting_safe(2) [OF a this, of log_lay]
  note 3 = waiting_safe(4) [OF a waiting_safe(2) [OF a 2, of coredump_lay]]
  show ?thesis using r 3 by (auto simp: qm35_remove_def Let_def split: Option.bind_splits dest!: debug_deinit_ctx)
qed

section \<open>The operations of the driver\<close>

lemma ioctl_safe:
  assumes a: "safe_await await" and g: "good_files pl" and s: "drv_safe s"
    and r: "uci_ioctl pl await req s = Some (rc, v, s')"
  shows "drv_safe s'"
proof -
  have stop: "drv_safe (qm35_hsspi_stop await s)" by (rule waiting_safe(3) [OF a s])
  have reset: "drv_safe (qm35_hsspi_start (snd (qm35_reset run t)))" if "drv_safe t" for run t
    by (rule drv_start_safe) (use that in simp)
  let ?r = "if REGULATORS_ENABLED (qm35_hsspi_stop await s) then qm35_regulators_set pl True (qm35_hsspi_stop await s)
      else qm35_hsspi_stop await s"
  show ?thesis
    using r s stop reset [OF stop] drv_start_safe [OF firmware_load_safe [OF g stop]]
      reset [of "qm35_regulators_set pl b (qm35_hsspi_stop await s)" for b]
    by (cases req) (auto simp: uci_ioctl_def ioctl_reset_def ioctl_fw_upload_def ioctl_power_def copy_state_def Let_def split_beta
        split: if_splits Option.bind_splits)
qed

lemma drv_step_safe:
  assumes a: "safe_await await" and g: "good_files pl" and s: "drv_safe s"
    and irq: "op = Op_ss_irq \<Longrightarrow> hs_irq_depth (q_hsspi s) = 0"
    and r: "drv_step pl await op s = Some (rc, s')"
  shows "drv_safe s'"
proof (cases op)
  case (Op_ioctl req)
  then show ?thesis using r ioctl_safe [OF a g s] by auto
next
  case Op_hw_reset
  have "drv_safe (snd (qm35_reset True (qm35_hsspi_stop await s)))" using waiting_safe(3) [OF a s] by simp
  then show ?thesis using Op_hw_reset r drv_start_safe [of "snd (qm35_reset True (qm35_hsspi_stop await s))"]
    by (auto simp: qm35_reset_sync_def Let_def split_beta)
next
  case Op_ss_irq
  then have "qm35_inv (deliver_irq IRQ_SS_IRQ (q_hsspi s)) []" using core_calls_keep(5) [of "q_hsspi s" Th_idle IRQ_SS_IRQ] s by simp
  then show ?thesis using Op_ss_irq irq r by (auto simp: drv_irq_handler_def)
next
  case Op_error_reset
  then show ?thesis using s r by (auto simp: qm35_reset_hook_def)
qed (use r s register_safe [OF s] waiting_safe [OF a s] drv_start_safe [OF s] in
    \<open>auto simp: uci_open_def uci_release_def qm35_pm_suspend_def qm35_pm_resume_def split_beta prod_eq_iff\<close>)

lemma drv_step_total: "good_files pl \<Longrightarrow> \<exists>rc s'. drv_step pl await op s = Some (rc, s')"
proof (cases op)
  case (Op_ioctl req)
  moreover assume g: "good_files pl"
  obtain ret s1 where "qm_firmware_load pl (qm35_hsspi_stop await s) = Some (ret, s1)"
    using firmware_load_ok [OF g, of "qm35_hsspi_stop await s"] by blast
  ultimately show ?thesis by (cases req) (auto simp: uci_ioctl_def ioctl_fw_upload_def Let_def prod_eq_iff)
qed (auto simp: prod_eq_iff)

section \<open>The passes of the thread\<close>

definition passes_ok :: "pass_env list \<Rightarrow> bool" where
  "passes_ok es \<longleftrightarrow> (\<forall>e \<in> set es. qm35_core.msgs_ok UNIV (pe_second e))"

lemma pass_safe:
  assumes c: "qm35_inv c []" and m: "qm35_core.msgs_ok UNIV (pe_second e)"
  obtains (Run) c' n' where "hsspi_thread_pass qm35_ops e c n = Some (Th_run c' n')" "qm35_inv c' []"
  | (Other) r where "hsspi_thread_pass qm35_ops e c n = Some r" "\<And>c' n'. r \<noteq> Th_run c' n'"
proof (cases "(\<not> is_txrx_waiting c \<and> \<not> pe_should_stop e) \<or> pe_should_stop e")
  case True
  then show thesis using that(2) by (auto simp: hsspi_thread_pass_def)
next
  case False
  obtain hw c1 where w: "get_work c = (hw, c1)" by (cases "get_work c")
  obtain c' n' where "thread_work qm35_ops e hw c1 n = Some (c', n')" "qm35_inv c' []"
    using qm35_core.thread_work_ok [OF qm35_core.step_take [OF c w] qm35_core.msgs_ok_mono [OF m subset_UNIV], of n]
    by blast
  moreover have "is_txrx_waiting c" "\<not> pe_should_stop e" using False by auto
  ultimately show thesis using that(1) w by (simp add: hsspi_thread_pass_def)
qed

lemma safe_passes: "passes_ok es \<Longrightarrow> safe_await (thread_passes qm35_ops es n)"
proof (induction es arbitrary: n)
  case (Cons e es)
  have "qm35_inv (thread_passes qm35_ops (e # es) n c) []" if c: "qm35_inv c []" for c
  proof (rule pass_safe [OF c, of e n])
    show "qm35_core.msgs_ok UNIV (pe_second e)" using Cons.prems by (simp add: passes_ok_def)
    show ?thesis if "hsspi_thread_pass qm35_ops e c n = Some (Th_run c' n')" "qm35_inv c' []" for c' n'
      using that Cons.IH [of n'] Cons.prems by (simp add: passes_ok_def safe_await_def)
    show ?thesis if "hsspi_thread_pass qm35_ops e c n = Some r" "\<And>c' n'. r \<noteq> Th_run c' n'" for r
      using that c by (auto split: thread_result.splits)
  qed
  then show ?case by (simp add: safe_await_def)
qed (simp add: safe_await_def)

text \<open>No pass of a sequence makes a memory fault (\<open>thread_passes\<close> would stop at it).\<close>

fun passes_return :: "pass_env list \<Rightarrow> nat \<Rightarrow> qm35_core \<Rightarrow> bool" where
  "passes_return [] n c \<longleftrightarrow> True"
| "passes_return (e # es) n c \<longleftrightarrow>
     (case hsspi_thread_pass qm35_ops e c n of
        None \<Rightarrow> False
      | Some (Th_run c n) \<Rightarrow> passes_return es n c
      | Some _ \<Rightarrow> True)"

lemma passes_return_ok: "qm35_inv c [] \<Longrightarrow> passes_ok es \<Longrightarrow> passes_return es n c"
proof (induction es arbitrary: c n)
  case (Cons e es)
  then have e: "qm35_core.msgs_ok UNIV (pe_second e)" "passes_ok es" by (simp_all add: passes_ok_def)
  show ?case
    by (rule pass_safe [OF Cons.prems(1) e(1), of n]) (use Cons.IH e(2) in \<open>auto split: thread_result.splits\<close>)
qed simp

section \<open>From probe to remove\<close>

datatype life_event = Life_op drv_op "pass_env list" nat | Life_core qm35_event

type_synonym 'w life_state = "'w qm35_driver \<times> unit uci_packet_ext thread_pc \<times> nat"

inductive life_step :: "'w platform \<Rightarrow> life_event \<Rightarrow> 'w life_state \<Rightarrow> 'w life_state \<Rightarrow> bool" for pl where
  life_op: "drv_step pl (thread_passes qm35_ops es k) op s = Some (rc, s') \<Longrightarrow>
    life_step pl (Life_op op es k) (s, Th_idle, n) (s', Th_idle, n)"
| life_core: "qm35_step ev (q_hsspi s, t, n) (c, t', n') \<Longrightarrow>
    life_step pl (Life_core ev) (s, t, n) (s\<lparr>q_hsspi := c\<rparr>, t', n')"

inductive_cases life_stepE: "life_step pl ev st st'"

text \<open>The interrupt line is disabled from one SS_IRQ interrupt until the core enables it again.\<close>

fun life_ok :: "life_event \<Rightarrow> 'w life_state \<Rightarrow> bool" where
  "life_ok (Life_op op es k) (s, t, n) \<longleftrightarrow> passes_ok es \<and> (op = Op_ss_irq \<longrightarrow> hs_irq_depth (q_hsspi s) = 0)"
| "life_ok (Life_core ev) (s, t, n) \<longleftrightarrow> event_ok ev (q_hsspi s, t, n)"

inductive life_run :: "'w platform \<Rightarrow> life_event list \<Rightarrow> 'w life_state \<Rightarrow> 'w life_state \<Rightarrow> bool" for pl where
  life_nil: "life_run pl [] st st"
| life_snoc: "life_run pl es st st' \<Longrightarrow> life_ok ev st' \<Longrightarrow> life_step pl ev st' st'' \<Longrightarrow> life_run pl (es @ [ev]) st st''"

definition life_inv :: "'w life_state \<Rightarrow> bool" where
  "life_inv st \<longleftrightarrow> qm35_core.sys_ok (q_hsspi (fst st), snd st)"

lemma life_step_ok:
  assumes g: "good_files pl" and i: "life_inv st" and ok: "life_ok ev st" and st: "life_step pl ev st st'"
  shows "life_inv st'"
  using st
proof cases
  case (life_op es k op s rc s' n)
  have a: "safe_await (thread_passes qm35_ops es k)" using ok life_op by (intro safe_passes) simp
  have s: "drv_safe s" "n \<le> MAX_SUCCESSIVE_ERRORS" using i life_op by (simp_all add: life_inv_def qm35_core.sys_ok_def)
  have "drv_safe s'" by (rule drv_step_safe [OF a g s(1) _ life_op(4)]) (use ok life_op in simp)
  then show ?thesis using s(2) life_op by (simp add: life_inv_def qm35_core.sys_ok_def)
next
  case (life_core ev s t n c t' n')
  then show ?thesis using qm35_step_ok [of "(q_hsspi s, t, n)" ev "(c, t', n')"] i ok by (simp add: life_inv_def)
qed

lemma life_run_ok: "life_run pl es st st' \<Longrightarrow> good_files pl \<Longrightarrow> life_inv st \<Longrightarrow> life_inv st'"
  by (induction rule: life_run.induct) (blast intro: life_step_ok)+

lemma remove_total: "pr_debug_wq p \<Longrightarrow> \<exists>p'. qm35_remove pl await p = Some p'"
  by (simp add: qm35_remove_def Let_def probe_debug_deinit_def on_ctx_def release_def)

lemma probed_life:
  assumes l: "log_layer_init (Some mem) = Inr lg" "length mem = TRACE_RB_SIZE" "u16_at mem 0 = Some 0" "heap_ok h"
    and g: "good_files pl" and a: "safe_await await"
    and p: "qm35_probe pl await e h (qm35_layers_init lg) w = Some (rc, p)"
  shows "life_inv (pr_ctx p, Th_idle, 0)"
proof -
  have "log_inv lg h" using log_init_inv [OF l(2-4)] l(1) by auto
  then have "probe_safe p" by (rule probe_keeps_safe [OF a g qm35_inv_init [OF l(4)] p])
  then show ?thesis by (simp add: life_inv_def qm35_core.sys_ok_def)
qed


lemma board_probe_qm35:
  "\<exists>p. qm35_probe board (thread_passes qm35_ops [] 0) (board_env vdd 0) empty_heap (qm35_layers_init witness_log) () = Some (0, p)"
  by (simp add: qm35_probe_def board_env_def probe_core_def probe_layers_def probe_irqs_def probe_start_def
      hsspi_irqs_setup_def exton_setup_def gpios_setup_def probe_debug_init_def hsspi_test_init_def register_layer_def
      hsspi_register_def layer_tables on_ctx_def hold_def hsspi_init_def hsspi_clear_spi_slave_ready_def board_def Let_def)

text \<open>A board whose device is opened and then suspended, with one pass of the thread while the core stops.\<close>

lemma ready_pass_ok: "passes_ok [ready_pass]"
  by (auto simp: passes_ok_def qm35_core.msgs_ok_def ready_pass_def ready_attempt_def qm35_msg_ok_def cd_msg_ok_def log_msg_ok_def
      log_cids chunk_def fit_def)


end
