(* ===== verification/Rom_Memory.thy ===== *)
theory Rom_Memory
  imports Rom_Props
begin

text \<open>
  The memory of libqmrom.  The theories on its frames keep the handle, its frame buffers and the parts of
  a firmware as values; here \<open>qmrom_init\<close>, \<open>qmrom_deinit\<close>, \<open>qmrom_unstitch_fw\<close> and the functions that flash a
  stitched firmware are followed on the heap, with the pointers the code keeps, in the order in which it
  allocates, copies and frees.

  Structures with pointers are records of pointers, as in the other layers; their sizes
  (\<open>sizeof(struct qmrom_handle)\<close>, \<open>sizeof(struct firmware)\<close>) are the parameters \<open>handle_size\<close> and \<open>hdr\<close>.
\<close>

section \<open>Allocation (qmrom_utils.h)\<close>

definition qmrom_alloc :: "nat \<Rightarrow> kheap \<Rightarrow> (kptr \<times> kheap) option" where
  "qmrom_alloc n h =
     (let (p, h) = kmalloc n h in
        if p = NullPtr then Some (p, h)
        else map_option (\<lambda>h. (p, h)) (heap_write h p 0 (replicate n 0)))"

text \<open>\<open>if (p) qmrom_free(p)\<close>\<close>

definition free_if_set :: "kptr \<Rightarrow> kheap \<Rightarrow> kheap option" where
  "free_if_set p h = (if p = NullPtr then Some h else kfree p h)"

section \<open>The handle and its frame buffers\<close>

record rom_ptrs =
  rp_handle :: kptr
  rp_hstc :: kptr
  rp_sstc :: kptr

text \<open>The two pointers are fields of the handle: they can be read while the handle is allocated.\<close>

definition qmrom_free_stcs :: "rom_ptrs \<Rightarrow> kheap \<Rightarrow> kheap option" where
  "qmrom_free_stcs m h =
     (if heap_bytes h (rp_handle m) = None then None
      else do { h \<leftarrow> free_if_set (rp_hstc m) h; free_if_set (rp_sstc m) h })"

definition qmrom_allocate_stcs :: "rom_ptrs \<Rightarrow> kheap \<Rightarrow> (int \<times> rom_ptrs \<times> kheap) option" where
  "qmrom_allocate_stcs m h = do {
     (tx_buf, h) \<leftarrow> qmrom_alloc (MAX_STC_FRAME_LEN + 4) h;
     if tx_buf = NullPtr then map_option (\<lambda>h. (- ENOMEM, m, h)) (qmrom_free_stcs m h)
     else do {
       (rx_buf, h) \<leftarrow> qmrom_alloc (MAX_STC_FRAME_LEN + 4) h;
       if rx_buf = NullPtr then do {
         h \<leftarrow> kfree tx_buf h;
         map_option (\<lambda>h. (- ENOMEM, m, h)) (qmrom_free_stcs m h)
       } else Some (0, m\<lparr>rp_hstc := tx_buf, rp_sstc := rx_buf\<rparr>, h)
     }
   }"

text \<open>The handle, its pointers and the heap; no handle when an allocation fails or no chip answers.\<close>

definition qmrom_init_mem ::
  "'w dev \<Rightarrow> nat \<Rightarrow> nat \<Rightarrow> nat \<Rightarrow> 'w \<Rightarrow> kheap \<Rightarrow> (('w rom \<times> rom_ptrs) option \<times> 'w \<times> kheap) option" where
  "qmrom_init_mem d handle_size comms_retries speed_hz w h = do {
     (p, h) \<leftarrow> qmrom_alloc handle_size h;
     if p = NullPtr then Some (None, w, h)
     else do {
       (rc, m, h) \<leftarrow> qmrom_allocate_stcs \<lparr>rp_handle = p, rp_hstc = NullPtr, rp_sstc = NullPtr\<rparr> h;
       if rc \<noteq> 0 then map_option (\<lambda>h. (None, w, h)) (kfree p h)
       else do {
         (rc, s) \<leftarrow> qmrom_probe_device d (qmrom_new_handle comms_retries speed_hz w);
         if rc \<noteq> 0 then do {
           h \<leftarrow> qmrom_free_stcs m h;
           h \<leftarrow> kfree p h;
           Some (None, rom_world s, h)
         } else Some (Some (s, m), rom_world s, h)
       }
     }
   }"

definition qmrom_deinit :: "rom_ptrs \<Rightarrow> kheap \<Rightarrow> kheap option" where
  "qmrom_deinit m h = do { h \<leftarrow> qmrom_free_stcs m h; kfree (rp_handle m) h }"

section \<open>A firmware and its parts\<close>

text \<open>
  A part is one block: a \<open>struct firmware\<close> of \<open>hdr\<close> bytes, whose \<open>data\<close> points behind it, and \<open>size\<close> bytes.
\<close>

record fw_block =
  fb_ptr :: kptr
  fb_size :: nat

record fw_blocks =
  bl_img :: fw_block
  bl_crt :: fw_block
  bl_key1 :: fw_block
  bl_key2 :: fw_block

definition no_block :: fw_block where "no_block = \<lparr>fb_ptr = NullPtr, fb_size = 0\<rparr>"

definition no_blocks :: fw_blocks where
  "no_blocks = \<lparr>bl_img = no_block, bl_crt = no_block, bl_key1 = no_block, bl_key2 = no_block\<rparr>"

definition alloc_block :: "nat \<Rightarrow> nat \<Rightarrow> kheap \<Rightarrow> (fw_block \<times> kheap) option" where
  "alloc_block hdr n h = map_option (\<lambda>(p, h). (\<lparr>fb_ptr = p, fb_size = n\<rparr>, h)) (qmrom_alloc (n + hdr) h)"

definition unstitch_err :: "fw_blocks \<Rightarrow> kheap \<Rightarrow> kheap option" where
  "unstitch_err u h = do {
     h \<leftarrow> free_if_set (fb_ptr (bl_img u)) h;
     h \<leftarrow> free_if_set (fb_ptr (bl_crt u)) h;
     h \<leftarrow> free_if_set (fb_ptr (bl_key1 u)) h;
     free_if_set (fb_ptr (bl_key2 u)) h
   }"

text \<open>The four allocations, of the sizes \<open>key1\<close>, \<open>key2\<close>, \<open>crt\<close> and \<open>img\<close> of the parts.\<close>

definition alloc_blocks ::
  "nat \<Rightarrow> nat \<Rightarrow> nat \<Rightarrow> nat \<Rightarrow> nat \<Rightarrow> fw_blocks \<Rightarrow> kheap \<Rightarrow> (int \<times> fw_blocks \<times> kheap) option" where
  "alloc_blocks hdr key1 key2 crt img u h = do {
     (b, h) \<leftarrow> alloc_block hdr img h;
     let u = u\<lparr>bl_img := b\<rparr>;
     if fb_ptr b = NullPtr then Some (- ENOMEM, u, h)
     else do {
       (b, h) \<leftarrow> alloc_block hdr crt h;
       let u = u\<lparr>bl_crt := b\<rparr>;
       if fb_ptr b = NullPtr then map_option (\<lambda>h. (- ENOMEM, u, h)) (unstitch_err u h)
       else do {
         (b, h) \<leftarrow> alloc_block hdr key1 h;
         let u = u\<lparr>bl_key1 := b\<rparr>;
         if fb_ptr b = NullPtr then map_option (\<lambda>h. (- ENOMEM, u, h)) (unstitch_err u h)
         else do {
           (b, h) \<leftarrow> alloc_block hdr key2 h;
           let u = u\<lparr>bl_key2 := b\<rparr>;
           if fb_ptr b = NullPtr then map_option (\<lambda>h. (- ENOMEM, u, h)) (unstitch_err u h)
           else Some (0, u, h)
         }
       }
     }
   }"

text \<open>\<open>memcpy\<close> of a part of the file, at \<open>snd part\<close>, to the data of its block.\<close>

definition copy_part :: "nat \<Rightarrow> byte list \<Rightarrow> fw_block \<Rightarrow> nat \<times> nat \<Rightarrow> kheap \<Rightarrow> kheap option" where
  "copy_part hdr data b part h = do {
     bs \<leftarrow> mem_read data (snd part) (fst part);
     heap_write h (fb_ptr b) hdr bs
   }"

definition copy_parts :: "nat \<Rightarrow> byte list \<Rightarrow> fw_blocks \<Rightarrow> (nat \<times> nat) list \<Rightarrow> kheap \<Rightarrow> kheap option" where
  "copy_parts hdr data u parts h = do {
     h \<leftarrow> copy_part hdr data (bl_key1 u) (parts ! 0) h;
     h \<leftarrow> copy_part hdr data (bl_key2 u) (parts ! 1) h;
     h \<leftarrow> copy_part hdr data (bl_crt u) (parts ! 2) h;
     copy_part hdr data (bl_img u) (parts ! 3) h
   }"

definition qmrom_unstitch_mem ::
  "nat \<Rightarrow> byte list \<Rightarrow> int \<Rightarrow> fw_blocks \<Rightarrow> kheap \<Rightarrow> (int \<times> fw_blocks \<times> kheap) option" where
  "qmrom_unstitch_mem hdr data revision u h =
     (if revision = chip_rev_code A0 then Some (- EINVAL, u, h)
      else if length data < 8 then Some (- EINVAL, u, h)
      else do {
        r \<leftarrow> unstitch_sizes data;
        case r of
          Inl _ \<Rightarrow> Some (- EINVAL, u, h)
        | Inr parts \<Rightarrow> do {
            (rc, u, h) \<leftarrow> alloc_blocks hdr (fst (parts ! 0)) (fst (parts ! 1)) (fst (parts ! 2)) (fst (parts ! 3)) u h;
            if rc \<noteq> 0 then Some (rc, u, h)
            else map_option (\<lambda>h. (0, u, h)) (copy_parts hdr data u parts h)
          }
      })"

text \<open>What the functions that flash the parts read, and the end of each of them.\<close>

definition block_data :: "nat \<Rightarrow> fw_block \<Rightarrow> kheap \<Rightarrow> byte list option" where
  "block_data hdr b h = heap_read h (fb_ptr b) hdr (fb_size b)"

definition load_parts :: "nat \<Rightarrow> fw_blocks \<Rightarrow> kheap \<Rightarrow> unstitched_firmware option" where
  "load_parts hdr u h = do {
     img \<leftarrow> block_data hdr (bl_img u) h;
     crt \<leftarrow> block_data hdr (bl_crt u) h;
     k1 \<leftarrow> block_data hdr (bl_key1 u) h;
     k2 \<leftarrow> block_data hdr (bl_key2 u) h;
     Some \<lparr>fw_img = img, fw_crt = crt, key1_crt = k1, key2_crt = k2\<rparr>
   }"

definition free_blocks :: "fw_blocks \<Rightarrow> kheap \<Rightarrow> kheap option" where
  "free_blocks u h = do {
     h \<leftarrow> kfree (fb_ptr (bl_img u)) h;
     h \<leftarrow> kfree (fb_ptr (bl_crt u)) h;
     h \<leftarrow> kfree (fb_ptr (bl_key1 u)) h;
     kfree (fb_ptr (bl_key2 u)) h
   }"

definition with_parts ::
  "(unstitched_firmware \<Rightarrow> 'w rom \<Rightarrow> ('w, int) rom_result) \<Rightarrow>
   nat \<Rightarrow> fw_blocks \<Rightarrow> 'w rom \<Rightarrow> kheap \<Rightarrow> (int \<times> 'w rom \<times> kheap) option" where
  "with_parts flash hdr u s h = do {
     fws \<leftarrow> load_parts hdr u h;
     (rc, s) \<leftarrow> flash fws s;
     h \<leftarrow> free_blocks u h;
     Some (rc, s, h)
   }"

definition b0_flash_unstitched_mem ::
  "'w dev \<Rightarrow> nat \<Rightarrow> fw_blocks \<Rightarrow> 'w rom \<Rightarrow> kheap \<Rightarrow> (int \<times> 'w rom \<times> kheap) option" where
  "b0_flash_unstitched_mem d = with_parts (qmrom_b0_flash_unstitched_fw d)"

definition b0_flash_mem ::
  "'w dev \<Rightarrow> nat \<Rightarrow> byte list \<Rightarrow> 'w rom \<Rightarrow> kheap \<Rightarrow> (int \<times> 'w rom \<times> kheap) option" where
  "b0_flash_mem d hdr fw s h = do {
     (rc, u, h) \<leftarrow> qmrom_unstitch_mem hdr fw (rom_chip_rev s) no_blocks h;
     if rc \<noteq> 0 then Some (rc, s, h) else b0_flash_unstitched_mem d hdr u s h
   }"

definition c0_flash_mem ::
  "'w dev \<Rightarrow> nat \<Rightarrow> byte list \<Rightarrow> 'w rom \<Rightarrow> kheap \<Rightarrow> (int \<times> 'w rom \<times> kheap) option" where
  "c0_flash_mem d hdr fw s h = do {
     (rc, u, h) \<leftarrow> qmrom_unstitch_mem hdr fw (rom_chip_rev s) no_blocks h;
     if rc \<noteq> 0 then Some (rc, s, h) else with_parts (c0_flash_parts d) hdr u s h
   }"

definition qmrom_flash_mem ::
  "'w dev \<Rightarrow> nat \<Rightarrow> byte list \<Rightarrow> 'w rom \<Rightarrow> kheap \<Rightarrow> (int \<times> 'w rom \<times> kheap) option" where
  "qmrom_flash_mem d hdr fw s h =
     (case rom_flash_fw s of
        None \<Rightarrow> None
      | Some C0 \<Rightarrow> c0_flash_mem d hdr fw s h
      | Some B0 \<Rightarrow> b0_flash_mem d hdr fw s h
      | Some A0 \<Rightarrow> map_option (\<lambda>(rc, s). (rc, s, h)) (qmrom_a0_flash_fw d fw s))"

section \<open>Memory is given back\<close>

lemma qmrom_alloc_eq:
  "0 < n \<Longrightarrow> qmrom_alloc n h = Some (if hp_oracle h (hp_next h) = None then (NullPtr, h\<lparr>hp_next := hp_next h + 1\<rparr>)
     else (Ptr (hp_next h), h\<lparr>hp_mem := (hp_mem h)(hp_next h \<mapsto> replicate n 0), hp_next := hp_next h + 1\<rparr>))"
  by (auto simp: qmrom_alloc_def kmalloc_def heap_write_def mem_write_def patch_def split: option.splits)

text \<open>\<open>h'\<close> is \<open>h\<close> with the blocks \<open>m\<close>, allocated since.\<close>

definition plus_blocks :: "kheap \<Rightarrow> (nat \<rightharpoonup> byte list) \<Rightarrow> kheap \<Rightarrow> bool" where
  "plus_blocks h m h' \<longleftrightarrow> hp_mem h' = hp_mem h ++ m \<and> hp_oracle h' = hp_oracle h \<and> hp_next h \<le> hp_next h' \<and>
     (\<forall>k \<in> dom m. hp_next h \<le> k \<and> k < hp_next h')"

lemma plus_none [simp]: "plus_blocks h Map.empty h"
  by (simp add: plus_blocks_def)

lemma plus_empty: "plus_blocks h Map.empty h' \<longleftrightarrow> same_mem h h'"
  by (auto simp: plus_blocks_def same_mem_def)

lemma plus_heap_ok: "plus_blocks h m h' \<Longrightarrow> heap_ok h \<Longrightarrow> heap_ok h'"
  unfolding plus_blocks_def heap_ok_def
  by (metis (no_types, lifting) domIff le_trans map_add_None not_less)

lemma plus_bytes: "plus_blocks h m h' \<Longrightarrow> m k = Some bs \<Longrightarrow> heap_bytes h' (Ptr k) = Some bs"
  by (simp add: plus_blocks_def)

lemma plus_alloc:
  assumes p: "plus_blocks h m h1" and n: "0 < n"
  shows "(\<exists>h2. qmrom_alloc n h1 = Some (NullPtr, h2) \<and> plus_blocks h m h2 \<and> \<not> oracle_total h) \<or>
    (\<exists>k h2. qmrom_alloc n h1 = Some (Ptr k, h2) \<and> plus_blocks h (m(k \<mapsto> replicate n 0)) h2 \<and> k \<notin> dom m)"
proof (cases "hp_oracle h1 (hp_next h1)")
  case None
  have "plus_blocks h m (h1\<lparr>hp_next := hp_next h1 + 1\<rparr>)" using p by (auto simp: plus_blocks_def less_SucI)
  moreover have "\<not> oracle_total h" using None p unfolding oracle_total_def plus_blocks_def by metis
  ultimately show ?thesis using None n by (simp add: qmrom_alloc_eq)
next
  case (Some junk)
  have "hp_next h1 \<notin> dom m" using p by (auto simp: plus_blocks_def)
  then show ?thesis using Some p n by (auto simp: qmrom_alloc_eq plus_blocks_def less_Suc_eq)
qed

lemma plus_free:
  assumes p: "plus_blocks h m h1" and ok: "heap_ok h" and k: "m k = Some bs"
  shows "\<exists>h2. kfree (Ptr k) h1 = Some h2 \<and> plus_blocks h (m(k := None)) h2"
proof -
  have "hp_next h \<le> k" using p k by (auto simp: plus_blocks_def)
  then have f: "hp_mem h k = None" using ok by (simp add: heap_ok_def)
  have "(hp_mem h ++ m)(k := None) = hp_mem h ++ m(k := None)"
    using f by (auto simp: map_add_def fun_eq_iff)
  then show ?thesis using p k by (auto simp: plus_blocks_def kfree_def)
qed

text \<open>A sequence of \<open>kfree\<close>; all blocks of \<open>m\<close>, once each, in any order.\<close>

primrec frees :: "nat list \<Rightarrow> kheap \<Rightarrow> kheap option" where
  "frees [] h = Some h"
| "frees (k # ks) h = do { h \<leftarrow> kfree (Ptr k) h; frees ks h }"

lemma plus_frees:
  "plus_blocks h m h1 \<Longrightarrow> heap_ok h \<Longrightarrow> distinct ks \<Longrightarrow> set ks = dom m \<Longrightarrow> \<exists>h2. frees ks h1 = Some h2 \<and> same_mem h h2"
proof (induction ks arbitrary: m h1)
  case Nil
  then have "m = Map.empty" by (simp add: dom_def) (rule ext, simp)
  then show ?case using Nil by (simp add: plus_empty)
next
  case (Cons k ks)
  have "k \<in> dom m" using Cons.prems(4) by auto
  then obtain bs where "m k = Some bs" by auto
  then obtain h2 where f: "kfree (Ptr k) h1 = Some h2" and p: "plus_blocks h (m(k := None)) h2"
    using plus_free [OF Cons.prems(1,2)] by auto
  have d: "set ks = dom (m(k := None))" using Cons.prems(3,4) by auto
  obtain h3 where "frees ks h2 = Some h3" "same_mem h h3"
    using Cons.IH [OF p Cons.prems(2) _ d] Cons.prems(3) by auto
  then show ?case using f by simp
qed

lemma plus_write:
  assumes p: "plus_blocks h m h1" and k: "m k = Some old" and b: "off + length bs \<le> length old"
  shows "\<exists>h2. heap_write h1 (Ptr k) off bs = Some h2 \<and> plus_blocks h (m(k \<mapsto> patch old off bs)) h2"
proof (cases "bs = []")
  case True
  have "m(k \<mapsto> patch old off []) = m" using k by (simp add: patch_def fun_upd_idem)
  then show ?thesis using True p by simp
next
  case False
  have "hp_mem h1 k = Some old" using p k by (simp add: plus_blocks_def)
  then show ?thesis using False p k b by (auto simp: heap_write_def plus_blocks_def mem_write_def)
qed

lemma plus_trans_same: "plus_blocks h m h1 \<Longrightarrow> same_mem h1 h2 \<Longrightarrow> plus_blocks h m h2"
  by (auto simp: plus_blocks_def same_mem_def intro: less_le_trans)

section \<open>The handle\<close>

lemma allocate_stcs_mem:
  assumes ok: "heap_ok h" and p: "plus_blocks h [k \<mapsto> b] h1"
    and m: "m = \<lparr>rp_handle = Ptr k, rp_hstc = NullPtr, rp_sstc = NullPtr\<rparr>"
  shows "(\<exists>h2. qmrom_allocate_stcs m h1 = Some (- ENOMEM, m, h2) \<and> plus_blocks h [k \<mapsto> b] h2 \<and> \<not> oracle_total h) \<or>
    (\<exists>k2 k3 b2 b3 h2. qmrom_allocate_stcs m h1 = Some (0, m\<lparr>rp_hstc := Ptr k2, rp_sstc := Ptr k3\<rparr>, h2) \<and>
       plus_blocks h [k \<mapsto> b, k2 \<mapsto> b2, k3 \<mapsto> b3] h2 \<and> distinct [k, k2, k3])"
proof -
  let ?z = "replicate (MAX_STC_FRAME_LEN + 4) 0 :: byte list"
  have z: "0 < MAX_STC_FRAME_LEN + 4" by simp
  have unset: "qmrom_free_stcs m h2 = Some h2" if "plus_blocks h [k \<mapsto> b] h2" for h2
    using plus_bytes [OF that, of k b] m by (simp add: qmrom_free_stcs_def free_if_set_def)
  from plus_alloc [OF p z] show ?thesis
  proof (elim disjE exE conjE)
    fix h2 assume a: "qmrom_alloc (MAX_STC_FRAME_LEN + 4) h1 = Some (NullPtr, h2)" "plus_blocks h [k \<mapsto> b] h2" "\<not> oracle_total h"
    then show ?thesis using unset [OF a(2)] by (simp add: qmrom_allocate_stcs_def)
  next
    fix k2 h2 assume a: "qmrom_alloc (MAX_STC_FRAME_LEN + 4) h1 = Some (Ptr k2, h2)"
      and p2: "plus_blocks h [k \<mapsto> b, k2 \<mapsto> ?z] h2" and k2: "k2 \<notin> dom [k \<mapsto> b]"
    from plus_alloc [OF p2 z] show ?thesis
    proof (elim disjE exE conjE)
      fix h3 assume a2: "qmrom_alloc (MAX_STC_FRAME_LEN + 4) h2 = Some (NullPtr, h3)"
        and p3: "plus_blocks h [k \<mapsto> b, k2 \<mapsto> ?z] h3" and t: "\<not> oracle_total h"
      obtain h4 where f: "kfree (Ptr k2) h3 = Some h4" and p4: "plus_blocks h ([k \<mapsto> b, k2 \<mapsto> ?z](k2 := None)) h4"
        using plus_free [OF p3 ok, of k2 ?z] by auto
      have "[k \<mapsto> b, k2 \<mapsto> ?z](k2 := None) = [k \<mapsto> b]" using k2 by auto
      then show ?thesis using a a2 f p4 t unset [of h4] by (simp add: qmrom_allocate_stcs_def)
    next
      fix k3 h3 assume "qmrom_alloc (MAX_STC_FRAME_LEN + 4) h2 = Some (Ptr k3, h3)"
        "plus_blocks h [k \<mapsto> b, k2 \<mapsto> ?z, k3 \<mapsto> ?z] h3" "k3 \<notin> dom [k \<mapsto> b, k2 \<mapsto> ?z]"
      then show ?thesis using a k2 by (auto simp: qmrom_allocate_stcs_def)
    qed
  qed
qed

lemma deinit_mem:
  assumes ok: "heap_ok h" and p: "plus_blocks h [k1 \<mapsto> b1, k2 \<mapsto> b2, k3 \<mapsto> b3] h1" and d: "distinct [k1, k2, k3]"
    and m: "m = \<lparr>rp_handle = Ptr k1, rp_hstc = Ptr k2, rp_sstc = Ptr k3\<rparr>"
  shows "\<exists>h2 h3. qmrom_free_stcs m h1 = Some h2 \<and> kfree (Ptr k1) h2 = Some h3 \<and> qmrom_deinit m h1 = Some h3 \<and>
    same_mem h h3 \<and> qmrom_deinit m h3 = None"
proof -
  obtain h3 where f: "frees [k2, k3, k1] h1 = Some h3" and s: "same_mem h h3"
    using plus_frees [OF p ok, of "[k2, k3, k1]"] d by auto
  have "hp_next h \<le> k1" using p by (simp add: plus_blocks_def)
  then have "hp_mem h3 k1 = None" using s ok by (simp add: same_mem_def heap_ok_def)
  moreover have "hp_mem h1 k1 = Some b1" using plus_bytes [OF p, of k1 b1] d by simp
  ultimately show ?thesis using f s m
    by (auto simp: qmrom_deinit_def qmrom_free_stcs_def free_if_set_def split: Option.bind_splits)
qed

text \<open>\<open>qmrom_init\<close> returns the handle the chip was probed with and three new blocks, or nothing.\<close>

lemma init_mem:
  assumes ok: "heap_ok h" and sz: "0 < handle_size"
  obtains (Null) w' h1 where "qmrom_init_mem d handle_size retries hz w h = Some (None, w', h1)" "same_mem h h1"
  | (Handle) s h1 k1 k2 k3 b1 b2 b3 where
      "qmrom_init_mem d handle_size retries hz w h =
        Some (Some (s, \<lparr>rp_handle = Ptr k1, rp_hstc = Ptr k2, rp_sstc = Ptr k3\<rparr>), rom_world s, h1)"
      "qmrom_probe_device d (qmrom_new_handle retries hz w) = Some (0, s)" "distinct [k1, k2, k3]"
      "plus_blocks h [k1 \<mapsto> b1, k2 \<mapsto> b2, k3 \<mapsto> b3] h1"
proof -
  note null = that(1) and handle = that(2)
  from plus_alloc [OF plus_none sz, of h] show thesis
  proof (elim disjE exE conjE)
    fix h1 assume "qmrom_alloc handle_size h = Some (NullPtr, h1)" "plus_blocks h Map.empty h1"
    then show thesis using null by (simp add: qmrom_init_mem_def plus_empty)
  next
    fix k h1 assume a: "qmrom_alloc handle_size h = Some (Ptr k, h1)"
      and p: "plus_blocks h [k \<mapsto> replicate handle_size 0] h1"
    let ?m = "\<lparr>rp_handle = Ptr k, rp_hstc = NullPtr, rp_sstc = NullPtr\<rparr>"
    from allocate_stcs_mem [OF ok p refl] show thesis
    proof (elim disjE exE conjE)
      fix h2 assume b: "qmrom_allocate_stcs ?m h1 = Some (- ENOMEM, ?m, h2)"
        and p2: "plus_blocks h [k \<mapsto> replicate handle_size 0] h2"
      obtain h3 where "kfree (Ptr k) h2 = Some h3" "plus_blocks h Map.empty h3"
        using plus_free [OF p2 ok, of k] by auto
      then show thesis using null a b by (simp add: qmrom_init_mem_def plus_empty)
    next
      fix k2 k3 b2 b3 h2
      let ?m' = "?m\<lparr>rp_hstc := Ptr k2, rp_sstc := Ptr k3\<rparr>"
      assume b: "qmrom_allocate_stcs ?m h1 = Some (0, ?m', h2)" and d: "distinct [k, k2, k3]"
        and p2: "plus_blocks h [k \<mapsto> replicate handle_size 0, k2 \<mapsto> b2, k3 \<mapsto> b3] h2"
      obtain rc s where pr: "qmrom_probe_device d (qmrom_new_handle retries hz w) = Some (rc, s)"
        using probe_device_ok [OF new_handle_ok(1) [of retries hz w], of d] unfolding wp_ex by (elim exE conjE) (rule that)
      obtain h3 h4 where "qmrom_free_stcs ?m' h2 = Some h3" "kfree (Ptr k) h3 = Some h4" "same_mem h h4"
        using deinit_mem [OF ok p2 d, of ?m'] by auto
      then show thesis using null handle [of s k k2 k3 h2] a b pr d p2 by (cases "rc = 0") (simp_all add: qmrom_init_mem_def)
    qed
  qed
qed

section \<open>The parts\<close>

lemma plus_alloc_block:
  assumes p: "plus_blocks h m h1" and hdr: "0 < hdr"
  obtains (Fail) h2 where "alloc_block hdr n h1 = Some (\<lparr>fb_ptr = NullPtr, fb_size = n\<rparr>, h2)" "plus_blocks h m h2"
      "\<not> oracle_total h"
  | (Ok) k h2 where "alloc_block hdr n h1 = Some (\<lparr>fb_ptr = Ptr k, fb_size = n\<rparr>, h2)"
      "plus_blocks h (m(k \<mapsto> replicate (n + hdr) 0)) h2" "k \<notin> dom m"
  using plus_alloc [OF p, of "n + hdr"] hdr by (auto simp: alloc_block_def)

definition blocks_at :: "nat \<Rightarrow> nat \<Rightarrow> nat \<Rightarrow> nat \<Rightarrow> unstitched_firmware \<Rightarrow> fw_blocks" where
  "blocks_at ki kc k1 k2 f =
     \<lparr>bl_img = \<lparr>fb_ptr = Ptr ki, fb_size = length (fw_img f)\<rparr>, bl_crt = \<lparr>fb_ptr = Ptr kc, fb_size = length (fw_crt f)\<rparr>,
      bl_key1 = \<lparr>fb_ptr = Ptr k1, fb_size = length (key1_crt f)\<rparr>, bl_key2 = \<lparr>fb_ptr = Ptr k2, fb_size = length (key2_crt f)\<rparr>\<rparr>"

lemma alloc_blocks_mem:
  assumes ok: "heap_ok h" and hdr: "0 < hdr"
  defines "z \<equiv> \<lambda>x. replicate (length x + hdr) 0 :: byte list"
  obtains (Fail) u h1 where "alloc_blocks hdr (length (key1_crt f)) (length (key2_crt f)) (length (fw_crt f)) (length (fw_img f))
      no_blocks h = Some (- ENOMEM, u, h1)" "same_mem h h1" "\<not> oracle_total h"
  | (Ok) ki kc k1 k2 h1 where
      "alloc_blocks hdr (length (key1_crt f)) (length (key2_crt f)) (length (fw_crt f)) (length (fw_img f))
        no_blocks h = Some (0, blocks_at ki kc k1 k2 f, h1)"
      "plus_blocks h [ki \<mapsto> z (fw_img f), kc \<mapsto> z (fw_crt f), k1 \<mapsto> z (key1_crt f), k2 \<mapsto> z (key2_crt f)] h1"
      "distinct [ki, kc, k1, k2]"
proof -
  note d = alloc_blocks_def no_blocks_def no_block_def unstitch_err_def free_if_set_def plus_empty blocks_at_def z_def
  note freed = plus_frees [OF _ ok]
  show thesis
  proof (cases rule: plus_alloc_block [OF plus_none hdr, of "length (fw_img f)" h, consumes 0, case_names Fail Ok])
    case (Fail h1)
    then show thesis using that(1) by (simp add: d)
  next
    case (Ok ki h1)
    note i = Ok
    show thesis
    proof (cases rule: plus_alloc_block [OF i(2) hdr, of "length (fw_crt f)", consumes 0, case_names Fail Ok])
      case (Fail h2)
      then show thesis using that(1) freed [OF Fail(2), of "[ki]"] i(1) by (auto simp: d)
    next
      case (Ok kc h2)
      note c = Ok
      show thesis
      proof (cases rule: plus_alloc_block [OF c(2) hdr, of "length (key1_crt f)", consumes 0, case_names Fail Ok])
        case (Fail h3)
        then show thesis using that(1) freed [OF Fail(2), of "[ki, kc]"] i(1) c(1,3) by (auto simp: d insert_commute)
      next
        case (Ok k1 h3)
        note a = Ok
        show thesis
        proof (cases rule: plus_alloc_block [OF a(2) hdr, of "length (key2_crt f)", consumes 0, case_names Fail Ok])
          case (Fail h4)
          then show thesis using that(1) freed [OF Fail(2), of "[ki, kc, k1]"] i(1) c(1,3) a(1,3)
            by (auto simp: d insert_commute)
        next
          case (Ok k2 h4)
          then show thesis using that(2) [of ki kc k1 k2 h4] i(1) c(1,3) a(1,3) by (auto simp: d)
        qed
      qed
    qed
  qed
qed

text \<open>A block of the heap that holds the part \<open>x\<close> after its header.\<close>

definition filled :: "nat \<Rightarrow> byte list \<Rightarrow> byte list \<Rightarrow> bool" where
  "filled hdr x b \<longleftrightarrow> length b = length x + hdr \<and> drop hdr b = x"

lemma filled_read:
  "plus_blocks h m h1 \<Longrightarrow> m k = Some b \<Longrightarrow> filled hdr x b \<Longrightarrow>
    block_data hdr \<lparr>fb_ptr = Ptr k, fb_size = length x\<rparr> h1 = Some x"
  using plus_bytes [of h m h1 k b]
  by (auto simp: block_data_def heap_read_def mem_read_def filled_def chunk_def)

lemma copy_part_mem:
  assumes p: "plus_blocks h m h1" and k: "m k = Some (replicate (length x + hdr) 0)"
    and x: "mem_read data off (length x) = Some x"
  obtains h2 b where "copy_part hdr data \<lparr>fb_ptr = Ptr k, fb_size = n\<rparr> (length x, off) h1 = Some h2"
    "plus_blocks h (m(k \<mapsto> b)) h2" "filled hdr x b"
  using plus_write [OF p k, of hdr x] x by (auto simp: copy_part_def filled_def patch_def)

text \<open>The parts are copied to four new blocks, which can be read, and freed once.\<close>

lemma unstitch_blocks:
  assumes ok: "heap_ok h" and d: "distinct [ki, kc, k1, k2]"
    and p: "plus_blocks h [ki \<mapsto> bi, kc \<mapsto> bc, k1 \<mapsto> b1, k2 \<mapsto> b2] h1"
    and f: "filled hdr (fw_img f) bi" "filled hdr (fw_crt f) bc" "filled hdr (key1_crt f) b1" "filled hdr (key2_crt f) b2"
  shows "load_parts hdr (blocks_at ki kc k1 k2 f) h1 = Some f"
    "\<exists>h2. free_blocks (blocks_at ki kc k1 k2 f) h1 = Some h2 \<and> same_mem h h2 \<and> free_blocks (blocks_at ki kc k1 k2 f) h2 = None"
proof -
  show "load_parts hdr (blocks_at ki kc k1 k2 f) h1 = Some f"
    using filled_read [OF p _ f(1), of ki] filled_read [OF p _ f(2), of kc] filled_read [OF p _ f(3), of k1]
      filled_read [OF p _ f(4), of k2] d
    by (simp add: load_parts_def blocks_at_def)
  obtain h2 where fr: "frees [ki, kc, k1, k2] h1 = Some h2" and s: "same_mem h h2"
    using plus_frees [OF p ok d] by (auto simp: insert_commute)
  have "hp_next h \<le> ki" using p by (simp add: plus_blocks_def)
  then have "kfree (Ptr ki) h2 = None" using s ok by (simp add: same_mem_def heap_ok_def kfree_def)
  then show "\<exists>h2. free_blocks (blocks_at ki kc k1 k2 f) h1 = Some h2 \<and> same_mem h h2 \<and>
      free_blocks (blocks_at ki kc k1 k2 f) h2 = None"
    using fr s by (simp add: free_blocks_def blocks_at_def)
qed

definition parts_in :: "byte list \<Rightarrow> (nat \<times> nat) list \<Rightarrow> unstitched_firmware \<Rightarrow> bool" where
  "parts_in data parts f \<longleftrightarrow> (\<exists>o1 o2 o3 o4.
     parts = [(length (key1_crt f), o1), (length (key2_crt f), o2), (length (fw_crt f), o3), (length (fw_img f), o4)] \<and>
     mem_read data o1 (length (key1_crt f)) = Some (key1_crt f) \<and> mem_read data o2 (length (key2_crt f)) = Some (key2_crt f) \<and>
     mem_read data o3 (length (fw_crt f)) = Some (fw_crt f) \<and> mem_read data o4 (length (fw_img f)) = Some (fw_img f))"

lemma copy_parts_mem:
  assumes d: "distinct [ki, kc, k1, k2]" and parts: "parts_in data parts f"
    and z: "z = (\<lambda>x. replicate (length x + hdr) 0)"
    and p: "plus_blocks h [ki \<mapsto> z (fw_img f), kc \<mapsto> z (fw_crt f), k1 \<mapsto> z (key1_crt f), k2 \<mapsto> z (key2_crt f)] h1"
  obtains h5 bi bc b1 b2 where "copy_parts hdr data (blocks_at ki kc k1 k2 f) parts h1 = Some h5"
    "plus_blocks h [ki \<mapsto> bi, kc \<mapsto> bc, k1 \<mapsto> b1, k2 \<mapsto> b2] h5"
    "filled hdr (fw_img f) bi" "filled hdr (fw_crt f) bc" "filled hdr (key1_crt f) b1" "filled hdr (key2_crt f) b2"
proof -
  obtain o1 o2 o3 o4 where
    parts: "parts = [(length (key1_crt f), o1), (length (key2_crt f), o2), (length (fw_crt f), o3), (length (fw_img f), o4)]"
    and reads: "mem_read data o1 (length (key1_crt f)) = Some (key1_crt f)"
      "mem_read data o2 (length (key2_crt f)) = Some (key2_crt f)"
      "mem_read data o3 (length (fw_crt f)) = Some (fw_crt f)" "mem_read data o4 (length (fw_img f)) = Some (fw_img f)"
    using parts by (auto simp: parts_in_def)
  let ?m = "[ki \<mapsto> z (fw_img f), kc \<mapsto> z (fw_crt f), k1 \<mapsto> z (key1_crt f), k2 \<mapsto> z (key2_crt f)]"
  obtain h2 b1 where c1: "copy_part hdr data \<lparr>fb_ptr = Ptr k1, fb_size = length (key1_crt f)\<rparr> (length (key1_crt f), o1) h1 = Some h2"
      and p2: "plus_blocks h (?m(k1 \<mapsto> b1)) h2" and f1: "filled hdr (key1_crt f) b1"
    by (rule copy_part_mem [OF p _ reads(1), of k1]) (use d z in simp_all)
  obtain h3 b2 where c2: "copy_part hdr data \<lparr>fb_ptr = Ptr k2, fb_size = length (key2_crt f)\<rparr> (length (key2_crt f), o2) h2 = Some h3"
      and p3: "plus_blocks h (?m(k1 \<mapsto> b1, k2 \<mapsto> b2)) h3" and f2: "filled hdr (key2_crt f) b2"
    by (rule copy_part_mem [OF p2 _ reads(2), of k2]) (use d z in simp_all)
  obtain h4 bc where c3: "copy_part hdr data \<lparr>fb_ptr = Ptr kc, fb_size = length (fw_crt f)\<rparr> (length (fw_crt f), o3) h3 = Some h4"
      and p4: "plus_blocks h (?m(k1 \<mapsto> b1, k2 \<mapsto> b2, kc \<mapsto> bc)) h4" and f3: "filled hdr (fw_crt f) bc"
    by (rule copy_part_mem [OF p3 _ reads(3), of kc]) (use d z in simp_all)
  obtain h5 bi where c4: "copy_part hdr data \<lparr>fb_ptr = Ptr ki, fb_size = length (fw_img f)\<rparr> (length (fw_img f), o4) h4 = Some h5"
      and p5: "plus_blocks h (?m(k1 \<mapsto> b1, k2 \<mapsto> b2, kc \<mapsto> bc, ki \<mapsto> bi)) h5" and f4: "filled hdr (fw_img f) bi"
    by (rule copy_part_mem [OF p4 _ reads(4), of ki]) (use d z in simp_all)
  have "?m(k1 \<mapsto> b1, k2 \<mapsto> b2, kc \<mapsto> bc, ki \<mapsto> bi) = [ki \<mapsto> bi, kc \<mapsto> bc, k1 \<mapsto> b1, k2 \<mapsto> b2]"
    using d by (auto simp: fun_eq_iff)
  then show thesis
    using that [of h5] c1 c2 c3 c4 p5 f1 f2 f3 f4 parts
    by (simp add: copy_parts_def blocks_at_def numeral_2_eq_2 numeral_3_eq_3)
qed

lemma unstitch_mem_ok:
  assumes ok: "heap_ok h" and hdr: "0 < hdr" and rev: "revision \<noteq> chip_rev_code A0" and len: "8 \<le> length data"
    and sizes: "unstitch_sizes data = Some (Inr parts)" and parts: "parts_in data parts f"
  obtains (Fail) u h1 where "qmrom_unstitch_mem hdr data revision no_blocks h = Some (- ENOMEM, u, h1)" "same_mem h h1"
      "\<not> oracle_total h"
  | (Ok) u h1 h2 where "qmrom_unstitch_mem hdr data revision no_blocks h = Some (0, u, h1)"
      "load_parts hdr u h1 = Some f" "free_blocks u h1 = Some h2" "same_mem h h2" "free_blocks u h2 = None"
proof -
  have n: "fst (parts ! 0) = length (key1_crt f)" "fst (parts ! 1) = length (key2_crt f)"
    "fst (parts ! 2) = length (fw_crt f)" "fst (parts ! 3) = length (fw_img f)"
    using parts by (auto simp: parts_in_def numeral_2_eq_2 numeral_3_eq_3)
  have u: "qmrom_unstitch_mem hdr data revision no_blocks h = do {
      (rc, u, h) \<leftarrow> alloc_blocks hdr (length (key1_crt f)) (length (key2_crt f)) (length (fw_crt f)) (length (fw_img f)) no_blocks h;
      if rc \<noteq> 0 then Some (rc, u, h) else map_option (\<lambda>h. (0, u, h)) (copy_parts hdr data u parts h) }"
    using rev len sizes n by (simp add: qmrom_unstitch_mem_def)
  show thesis
  proof (cases rule: alloc_blocks_mem [OF ok hdr, of f, consumes 0, case_names Fail Ok])
    case (Fail u h1)
    then show thesis using that(1) u by simp
  next
    case (Ok ki kc k1 k2 h1)
    obtain h5 bi bc b1 b2 where c: "copy_parts hdr data (blocks_at ki kc k1 k2 f) parts h1 = Some h5"
      and p: "plus_blocks h [ki \<mapsto> bi, kc \<mapsto> bc, k1 \<mapsto> b1, k2 \<mapsto> b2] h5"
      and f: "filled hdr (fw_img f) bi" "filled hdr (fw_crt f) bc" "filled hdr (key1_crt f) b1" "filled hdr (key2_crt f) b2"
      by (rule copy_parts_mem [OF Ok(3) parts refl Ok(2)])
    show thesis using that(2) unstitch_blocks [OF ok Ok(3) p f] c Ok(1) u by auto
  qed
qed

section \<open>Refinement of the functions on values\<close>

text \<open>With every allocation of the functions on values succeeding, the heap alone decides.\<close>

definition always_allocates :: "'w dev \<Rightarrow> bool" where
  "always_allocates d \<longleftrightarrow> dev_alloc d = (\<lambda>w. (True, w))"

lemma allocs_always: "always_allocates d \<Longrightarrow> allocs d n w = (True, w)"
  by (induction n) (simp_all add: always_allocates_def)

lemma unstitch_refines:
  assumes al: "always_allocates d" and ok: "heap_ok h" and hdr: "0 < hdr"
    and v: "qmrom_unstitch_fw d data revision w = Some (rc, fws, w')"
  obtains (Refused) "rc \<noteq> 0" "fws = None" "w' = w" "qmrom_unstitch_mem hdr data revision no_blocks h = Some (rc, no_blocks, h)"
  | (Fail) u h1 where "qmrom_unstitch_mem hdr data revision no_blocks h = Some (- ENOMEM, u, h1)" "same_mem h h1"
      "\<not> oracle_total h"
  | (Ok) f u h1 h2 where "fws = Some f" "w' = w" "qmrom_unstitch_mem hdr data revision no_blocks h = Some (0, u, h1)"
      "load_parts hdr u h1 = Some f" "free_blocks u h1 = Some h2" "same_mem h h2" "free_blocks u h2 = None"
proof (cases "revision = chip_rev_code A0 \<or> length data < 8 \<or> (\<exists>e. unstitch_sizes data = Some (Inl e))")
  case True
  then show thesis using that(1) v by (auto simp: qmrom_unstitch_fw_def qmrom_unstitch_mem_def split: if_splits)
next
  case False
  then have r: "revision \<noteq> chip_rev_code A0" "8 \<le> length data" by simp_all
  obtain parts where s: "unstitch_sizes data = Some (Inr parts)"
    using False v by (auto simp: qmrom_unstitch_fw_def split: Option.bind_splits sum.splits)
  obtain img crt key1 key2 where f: "fws = Some \<lparr>fw_img = img, fw_crt = crt, key1_crt = key1, key2_crt = key2\<rparr>" "w' = w"
    and m: "mem_read data (snd (parts ! 0)) (fst (parts ! 0)) = Some key1" "mem_read data (snd (parts ! 1)) (fst (parts ! 1)) = Some key2"
      "mem_read data (snd (parts ! 2)) (fst (parts ! 2)) = Some crt" "mem_read data (snd (parts ! 3)) (fst (parts ! 3)) = Some img"
    using v r s allocs_always [OF al] by (auto simp: qmrom_unstitch_fw_def split: Option.bind_splits)
  let ?f = "\<lparr>fw_img = img, fw_crt = crt, key1_crt = key1, key2_crt = key2\<rparr>"
  obtain p0 p1 p2 p3 where "parts = [p0, p1, p2, p3]"
    using s by (auto simp: unstitch_sizes_def split: Option.bind_splits sum.splits)
  then have p: "parts_in data parts ?f"
    using m m [THEN mem_read_SomeD] by (cases p0; cases p1; cases p2; cases p3) (auto simp: parts_in_def numeral_2_eq_2 numeral_3_eq_3)
  show thesis by (rule unstitch_mem_ok [OF ok hdr r s p]) (use that(2,3) f in blast)+
qed

lemma parts_refines:
  assumes al: "always_allocates d" and ok: "heap_ok h" and hdr: "0 < hdr"
    and v: "do { (rc, fws, w) \<leftarrow> qmrom_unstitch_fw d fw (rom_chip_rev s) (rom_world s);
      let s = s\<lparr>rom_world := w\<rparr>;
      case fws of None \<Rightarrow> Some (rc, s) | Some fws \<Rightarrow> flash fws s } = Some (rc, s1)"
  shows "\<exists>rc' s' h'. do { (rc, u, h) \<leftarrow> qmrom_unstitch_mem hdr fw (rom_chip_rev s) no_blocks h;
      if rc \<noteq> 0 then Some (rc, s, h) else with_parts flash hdr u s h } = Some (rc', s', h') \<and> same_mem h h' \<and>
    ((rc', s') = (rc, s1) \<or> rc' = - ENOMEM \<and> s' = s \<and> \<not> oracle_total h)"
proof -
  obtain rc0 fws w where u: "qmrom_unstitch_fw d fw (rom_chip_rev s) (rom_world s) = Some (rc0, fws, w)"
    using v by (cases "qmrom_unstitch_fw d fw (rom_chip_rev s) (rom_world s)") auto
  have s: "s\<lparr>rom_world := rom_world s\<rparr> = s" by simp
  show ?thesis
    by (rule unstitch_refines [OF al ok hdr u]) (use v u s in \<open>auto simp: with_parts_def\<close>)
qed

lemma flash_refines:
  assumes al: "always_allocates d" and ok: "heap_ok h" and hdr: "0 < hdr"
    and v: "qmrom_flash_fw d fw s = Some (rc, s1)"
  shows "\<exists>rc' s' h'. qmrom_flash_mem d hdr fw s h = Some (rc', s', h') \<and> same_mem h h' \<and>
    ((rc', s') = (rc, s1) \<or> rc' = - ENOMEM \<and> s' = s \<and> \<not> oracle_total h)"
proof -
  note p = parts_refines [OF al ok hdr, of fw s _ rc s1]
  obtain c where c: "rom_flash_fw s = Some c" using v by (auto simp: qmrom_flash_fw_def split: option.splits)
  show ?thesis
  proof (cases c)
    case A0
    then show ?thesis using c v by (simp add: qmrom_flash_fw_def qmrom_flash_mem_def)
  next
    case B0
    then show ?thesis using c v p [of "qmrom_b0_flash_unstitched_fw d"]
      by (simp add: qmrom_flash_fw_def qmrom_flash_mem_def qmrom_b0_flash_fw_def
        b0_flash_mem_def [unfolded b0_flash_unstitched_mem_def])
  next
    case C0
    then show ?thesis using c v p [of "c0_flash_parts d"]
      by (simp add: qmrom_flash_fw_def qmrom_flash_mem_def qmrom_c0_flash_fw_def c0_flash_mem_def)
  qed
qed

lemma probed_handle:
  assumes p: "qmrom_probe_device d (qmrom_new_handle retries hz w) = Some (0, s)"
  shows "\<exists>c. handle_of c s"
  using probe_device_ok [OF new_handle_ok(1) [of retries hz w], of d] p
  by (auto simp: probe_outcome_def probed_def handle_of_def asked_def new_handle_ok)

lemma flash_total: "handle_of c s \<Longrightarrow> good_firmware f \<Longrightarrow> \<exists>rc s1. qmrom_flash_fw d (stitch f) s = Some (rc, s1)"
  using rom_call_ok [of c s "Flash_fw (stitch f)" d] by (auto simp: wp_ex)

text \<open>The parts belong to the call that flashes them: it frees the blocks of its caller.\<close>

lemma kfree_gone: "kfree p h = Some h' \<Longrightarrow> hp_mem h k = None \<Longrightarrow> hp_mem h' k = None"
  by (auto simp: kfree_def split: kptr.splits if_splits)

lemma kfree_frees: "kfree (Ptr k) h = Some h' \<Longrightarrow> hp_mem h' k = None"
  by (auto simp: kfree_def split: if_splits)

lemma flash_unstitched_twice:
  assumes once: "b0_flash_unstitched_mem d hdr u s h = Some (rc, s', h')" and k: "fb_ptr (bl_img u) = Ptr k"
  shows "b0_flash_unstitched_mem d hdr u s'' h' = None"
proof -
  obtain h1 h2 h3 where f: "kfree (Ptr k) h = Some h1" "kfree (fb_ptr (bl_crt u)) h1 = Some h2"
      "kfree (fb_ptr (bl_key1 u)) h2 = Some h3" "kfree (fb_ptr (bl_key2 u)) h3 = Some h'"
    using once k by (auto simp: b0_flash_unstitched_mem_def with_parts_def free_blocks_def split: Option.bind_splits)
  have "hp_mem h' k = None"
    by (rule kfree_gone [OF f(4) kfree_gone [OF f(3) kfree_gone [OF f(2) kfree_frees [OF f(1)]]]])
  then have "free_blocks u h' = None" using k by (simp add: free_blocks_def kfree_def)
  then show ?thesis by (simp add: b0_flash_unstitched_mem_def with_parts_def bind_eq_None_conv split_beta)
qed

section \<open>Properties\<close>

text \<open>
  Claim C13. On the heap, flashing a firmware file does what it does on values.  Whatever allocations fail,
  it uses only memory it has allocated, frees each block of the four parts exactly once, and leaves the
  memory as it was, on success and on every error.  The result and what the chip has been sent are
  those of the function on values, or an allocation failed and -ENOMEM is returned with the chip and the
  handle not touched.
\<close>

theorem rom_flash_memory:
  assumes "heap_ok h" "0 < hdr" "always_allocates d" "qmrom_flash_fw d fw s = Some (rc, s1)"
  shows "\<exists>rc' s' h'. qmrom_flash_mem d hdr fw s h = Some (rc', s', h') \<and> same_mem h h' \<and>
    ((rc', s') = (rc, s1) \<or> rc' = - ENOMEM \<and> s' = s \<and> \<not> oracle_total h)"
  by (rule flash_refines [OF assms(3,1,2,4)])

lemma echo_always [simp]: "always_allocates echo_dev"
  by (simp add: always_allocates_def echo_dev_def)

lemma sample_flash: "\<exists>rc s1. qmrom_flash_fw echo_dev (stitch sample_fw) (sample_handle B0) = Some (rc, s1)"
  using b0_flash_fw_ok [of "sample_handle B0" sample_fw echo_dev] good_sample_fw
  by (auto simp: qmrom_flash_fw_def sample_handle_def [of B0, THEN arg_cong [of _ _ rom_flash_fw]] good_firmware_def wp_ex)

theorem rom_flash_memory_witness:
  "\<exists>rc s1 rc' s' h'. qmrom_flash_fw echo_dev (stitch sample_fw) (sample_handle B0) = Some (rc, s1) \<and>
    qmrom_flash_mem echo_dev 40 (stitch sample_fw) (sample_handle B0) empty_heap = Some (rc', s', h') \<and>
    same_mem empty_heap h' \<and>
    ((rc', s') = (rc, s1) \<or> rc' = - ENOMEM \<and> s' = sample_handle B0 \<and> \<not> oracle_total empty_heap)"
proof -
  obtain rc s1 where v: "qmrom_flash_fw echo_dev (stitch sample_fw) (sample_handle B0) = Some (rc, s1)"
    using sample_flash by blast
  show ?thesis using v rom_flash_memory [OF heap_ok_empty _ echo_always v, of 40] by auto
qed

text \<open>
  Claim C14. A session of libqmrom leaves no memory behind.  Whatever the chip answers and whatever allocations
  fail, \<open>qmrom_init\<close> returns null with the memory as it was, or a handle for one chip; then a firmware is
  flashed without a memory fault, and \<open>qmrom_deinit\<close> frees exactly the handle and its two frame buffers:
  the memory is as it was before the session.  Freeing the handle again is a fault.
\<close>

theorem rom_session_memory:
  assumes "heap_ok h" "0 < handle_size" "0 < hdr" "always_allocates d" "good_firmware f"
  shows "\<exists>r w' h1. qmrom_init_mem d handle_size retries hz w h = Some (r, w', h1) \<and>
    (case r of
       None \<Rightarrow> same_mem h h1
     | Some (s, m) \<Rightarrow> (\<exists>c. handle_of c s) \<and>
         (\<exists>rc s' h2 h3. qmrom_flash_mem d hdr (stitch f) s h1 = Some (rc, s', h2) \<and>
            qmrom_deinit m h2 = Some h3 \<and> same_mem h h3 \<and> qmrom_deinit m h3 = None))"
proof (cases rule: init_mem [OF assms(1,2), of d retries hz w, consumes 0, case_names Null Handle])
  case (Null w' h1)
  then show ?thesis by simp
next
  case (Handle s h1 k1 k2 k3 b1 b2 b3)
  obtain c where h: "handle_of c s" using probed_handle [OF Handle(2)] by blast
  obtain rc s1 where "qmrom_flash_fw d (stitch f) s = Some (rc, s1)"
    using flash_total [OF h assms(5)] by blast
  then obtain rc' s' h2 where f: "qmrom_flash_mem d hdr (stitch f) s h1 = Some (rc', s', h2)" "same_mem h1 h2"
    using flash_refines [OF assms(4) plus_heap_ok [OF Handle(4) assms(1)] assms(3)] by blast
  show ?thesis
    using deinit_mem [OF assms(1) plus_trans_same [OF Handle(4) f(2)] Handle(3) refl] Handle(1) f(1) h by auto
qed

theorem rom_session_memory_witness:
  "\<exists>r w' h1. qmrom_init_mem echo_dev 200 10 0 () empty_heap = Some (r, w', h1) \<and>
    (case r of
       None \<Rightarrow> same_mem empty_heap h1
     | Some (s, m) \<Rightarrow> (\<exists>c. handle_of c s) \<and>
         (\<exists>rc s' h2 h3. qmrom_flash_mem echo_dev 40 (stitch sample_fw) s h1 = Some (rc, s', h2) \<and>
            qmrom_deinit m h2 = Some h3 \<and> same_mem empty_heap h3 \<and> qmrom_deinit m h3 = None))"
  by (rule rom_session_memory) simp_all

end
