(* ===== verification/Rom_Log.thy ===== *)
theory Rom_Log
  imports Prelude
begin

text \<open>
  The messages of libqmrom (qmrom_log.h, qmrom_log.c): the level, the macros that filter by it, and the
  two functions that dump a buffer.  A message is its severity, its format and the byte printed with it;
  the formatting itself is \<open>printk\<close>'s.
\<close>

datatype log_level_e = LOG_QUIET | LOG_ERR | LOG_WARN | LOG_INFO | LOG_DBG

definition level_code :: "log_level_e \<Rightarrow> nat" where
  "level_code l = (case l of LOG_QUIET \<Rightarrow> 0 | LOG_ERR \<Rightarrow> 1 | LOG_WARN \<Rightarrow> 2 | LOG_INFO \<Rightarrow> 3 | LOG_DBG \<Rightarrow> 4)"

record qmrom_logger =
  qg_level :: log_level_e
  qg_dev :: bool
  qg_out :: "(log_level_e \<times> string \<times> byte) list"

definition qmrom_logger_init :: qmrom_logger where
  "qmrom_logger_init = \<lparr>qg_level = LOG_INFO, qg_dev = False, qg_out = []\<rparr>"

definition set_log_level :: "log_level_e \<Rightarrow> qmrom_logger \<Rightarrow> qmrom_logger" where
  "set_log_level lvl s = s\<lparr>qg_level := lvl\<rparr>"

definition qmrom_set_log_device :: "bool \<Rightarrow> log_level_e \<Rightarrow> qmrom_logger \<Rightarrow> qmrom_logger" where
  "qmrom_set_log_device dev lvl s = s\<lparr>qg_dev := dev, qg_level := lvl\<rparr>"

definition is_debug_mode :: "qmrom_logger \<Rightarrow> bool" where
  "is_debug_mode s \<longleftrightarrow> level_code LOG_DBG \<le> level_code (qg_level s)"

definition is_log_level_allowed :: "log_level_e \<Rightarrow> qmrom_logger \<Rightarrow> bool" where
  "is_log_level_allowed lvl s \<longleftrightarrow> level_code lvl \<le> level_code (qg_level s)"

text \<open>The level that a message of a severity must exceed, and the four macros.\<close>

fun log_threshold :: "log_level_e \<Rightarrow> log_level_e" where
  "log_threshold LOG_WARN = LOG_ERR"
| "log_threshold LOG_INFO = LOG_WARN"
| "log_threshold LOG_DBG = LOG_INFO"
| "log_threshold _ = LOG_QUIET"

definition log_message :: "log_level_e \<Rightarrow> string \<Rightarrow> byte \<Rightarrow> qmrom_logger \<Rightarrow> qmrom_logger" where
  "log_message lvl fmt b s =
     (if qg_dev s \<and> level_code (log_threshold lvl) < level_code (qg_level s)
      then s\<lparr>qg_out := qg_out s @ [(lvl, fmt, b)]\<rparr> else s)"

definition LOG_PRINT :: "log_level_e \<Rightarrow> string \<Rightarrow> byte \<Rightarrow> qmrom_logger \<Rightarrow> qmrom_logger" where
  "LOG_PRINT lvl fmt b s = (if lvl = LOG_QUIET then s else log_message lvl fmt b s)"

definition print_at :: "log_level_e \<Rightarrow> string \<Rightarrow> byte list \<Rightarrow> nat \<Rightarrow> qmrom_logger \<Rightarrow> qmrom_logger option" where
  "print_at lvl fmt array k s = (if k < length array then Some (LOG_PRINT lvl fmt (array ! k) s) else None)"

text \<open>The inner loop of \<open>hexdump\<close>, with the line that ends a row.\<close>

function dump_row :: "log_level_e \<Rightarrow> byte list \<Rightarrow> nat \<Rightarrow> nat \<Rightarrow> nat \<Rightarrow> qmrom_logger \<Rightarrow> qmrom_logger option" where
  "dump_row lvl array n i j s =
     (if j < 15 \<and> i + j + 1 < n then do {
        s \<leftarrow> print_at lvl ''0x%02x, '' array (i + j) s;
        dump_row lvl array n i (j + 1) s
      } else print_at lvl ''0x%02x\<newline>'' array (i + j) s)"
  by auto
termination by (relation "measure (\<lambda>(lvl, array, n, i, j, s). 15 - j)") auto

function dump_rows :: "log_level_e \<Rightarrow> byte list \<Rightarrow> nat \<Rightarrow> nat \<Rightarrow> qmrom_logger \<Rightarrow> qmrom_logger option" where
  "dump_rows lvl array n i s =
     (if i < n then do { s \<leftarrow> dump_row lvl array n i 0 s; dump_rows lvl array n (i + 16) s } else Some s)"
  by auto
termination by (relation "measure (\<lambda>(lvl, array, n, i, s). n - i)") auto

declare dump_row.simps [simp del] dump_rows.simps [simp del]

definition hexdump :: "log_level_e \<Rightarrow> byte list \<Rightarrow> nat \<Rightarrow> qmrom_logger \<Rightarrow> qmrom_logger option" where
  "hexdump lvl array n s =
     (if level_code lvl < level_code (qg_level s) then Some s else dump_rows lvl array n 0 s)"

fun raw_loop :: "log_level_e \<Rightarrow> byte list \<Rightarrow> nat \<Rightarrow> nat \<Rightarrow> qmrom_logger \<Rightarrow> qmrom_logger option" where
  "raw_loop lvl array i 0 s = Some s"
| "raw_loop lvl array i (Suc n) s = do {
     s \<leftarrow> print_at lvl ''%02x'' array i s;
     raw_loop lvl array (i + 1) n s
   }"

definition hexrawdump :: "log_level_e \<Rightarrow> byte list \<Rightarrow> nat \<Rightarrow> qmrom_logger \<Rightarrow> qmrom_logger option" where
  "hexrawdump lvl array n s =
     (if level_code lvl < level_code (qg_level s) then Some s else raw_loop lvl array 0 n s)"

section \<open>What is printed\<close>

definition printed :: "log_level_e \<Rightarrow> qmrom_logger \<Rightarrow> bool" where
  "printed lvl s \<longleftrightarrow> lvl \<noteq> LOG_QUIET \<and> qg_dev s \<and> level_code lvl \<le> level_code (qg_level s)"

lemma LOG_PRINT_eq: "LOG_PRINT lvl fmt b s = (if printed lvl s then s\<lparr>qg_out := qg_out s @ [(lvl, fmt, b)]\<rparr> else s)"
  by (cases lvl) (auto simp: LOG_PRINT_def log_message_def printed_def level_code_def)

definition put :: "log_level_e \<Rightarrow> (string \<times> byte) list \<Rightarrow> qmrom_logger \<Rightarrow> qmrom_logger" where
  "put lvl ms s = (if printed lvl s then s\<lparr>qg_out := qg_out s @ map (\<lambda>m. (lvl, m)) ms\<rparr> else s)"

lemma printed_put [simp]: "printed lvl (put lvl ms s) = printed lvl s"
  by (simp add: put_def printed_def)

lemma put_append: "put lvl ms' (put lvl ms s) = put lvl (ms @ ms') s"
  by (simp add: put_def printed_def)

lemma put_Nil [simp]: "put lvl [] s = s"
  by (simp add: put_def)

lemma print_at_put: "k < length array \<Longrightarrow> print_at lvl fmt array k s = Some (put lvl [(fmt, array ! k)] s)"
  by (simp add: print_at_def LOG_PRINT_eq put_def)

text \<open>The message for byte \<open>k\<close> of \<open>n\<close>: rows of 16 bytes.\<close>

definition dump_msg :: "byte list \<Rightarrow> nat \<Rightarrow> nat \<Rightarrow> string \<times> byte" where
  "dump_msg array n k = (if k mod 16 = 15 \<or> Suc k = n then ''0x%02x\<newline>'' else ''0x%02x, '', array ! k)"

lemma dump_row_put:
  assumes "16 dvd i" "j \<le> 15" "i + j < n" "n \<le> length array"
  shows "dump_row lvl array n i j s = Some (put lvl (map (dump_msg array n) [i + j ..< min n (i + 16)]) s)"
  using assms(2,3)
proof (induction "15 - j" arbitrary: j s)
  case 0
  then have j: "j = 15" by simp
  have "(i + 15) mod 16 = 15" using assms(1) by auto
  then show ?case using 0 j assms(4) by (simp add: dump_row.simps print_at_put dump_msg_def min_def upt_conv_Cons)
next
  case (Suc d)
  then have j: "j < 15" by simp
  have m: "(i + j) mod 16 = j" using assms(1) j by auto
  show ?case
  proof (cases "i + j + 1 < n")
    case True
    have "dump_row lvl array n i (j + 1) t = Some (put lvl (map (dump_msg array n) [i + (j + 1) ..< min n (i + 16)]) t)" for t
      using Suc.hyps(1) [of "j + 1" t] Suc.hyps(2) j True by simp
    then show ?thesis using True j assms(4) m Suc.prems
      by (subst dump_row.simps) (simp add: print_at_put put_append dump_msg_def upt_conv_Cons)
  next
    case False
    then have "n = Suc (i + j)" using Suc.prems by simp
    then show ?thesis using j assms(4) by (subst dump_row.simps) (simp add: print_at_put dump_msg_def min_def)
  qed
qed

lemma dump_rows_put:
  assumes "n \<le> length array" "16 dvd i"
  shows "dump_rows lvl array n i s = Some (put lvl (map (dump_msg array n) [i ..< n]) s)"
  using assms(2)
proof (induction "n - i" arbitrary: i s rule: less_induct)
  case less
  show ?case
  proof (cases "i < n")
    case True
    have r: "dump_row lvl array n i 0 s = Some (put lvl (map (dump_msg array n) [i ..< min n (i + 16)]) s)"
      using dump_row_put [OF less.prems, of 0] True assms(1) by simp
    have "dump_rows lvl array n (i + 16) t = Some (put lvl (map (dump_msg array n) [i + 16 ..< n]) t)" for t
      using less.hyps [of "i + 16"] less.prems True by simp
    moreover have "[i ..< min n (i + 16)] @ [i + 16 ..< n] = [i ..< n]"
      using True upt_add_eq_append [of i "i + 16" "n - (i + 16)"] by (cases "i + 16 \<le> n") simp_all
    then have "map (dump_msg array n) [i ..< min n (i + 16)] @ map (dump_msg array n) [i + 16 ..< n] = map (dump_msg array n) [i ..< n]"
      by (simp only: map_append [symmetric])
    ultimately show ?thesis using True r by (subst dump_rows.simps) (simp add: put_append)
  qed (simp add: dump_rows.simps)
qed

lemma raw_loop_put:
  "i + n \<le> length array \<Longrightarrow> raw_loop lvl array i n s = Some (put lvl (map (\<lambda>k. (''%02x'', array ! k)) [i ..< i + n]) s)"
  by (induction n arbitrary: i s) (simp_all add: print_at_put put_append upt_conv_Cons del: upt_Suc)

text \<open>
  A dump prints each byte once, in order, in rows of 16, but only when its severity is exactly the level
  in force: the test at its start refuses the severities below the level, and the macros those above.
\<close>

lemma hexdump_prints:
  assumes "n \<le> length array"
  shows "hexdump lvl array n s = Some (if lvl = qg_level s then put lvl (map (dump_msg array n) [0 ..< n]) s else s)"
    "hexrawdump lvl array n s = Some (if lvl = qg_level s then put lvl (map (\<lambda>k. (''%02x'', array ! k)) [0 ..< n]) s else s)"
proof -
  have e: "lvl = qg_level s \<longleftrightarrow> level_code lvl = level_code (qg_level s)"
    by (cases lvl; cases "qg_level s") (simp_all add: level_code_def)
  have n: "put lvl ms s = s" if "level_code (qg_level s) < level_code lvl" for ms
    using that by (simp add: put_def printed_def)
  show "hexdump lvl array n s = Some (if lvl = qg_level s then put lvl (map (dump_msg array n) [0 ..< n]) s else s)"
    using dump_rows_put [OF assms, of 0 lvl s] e n by (auto simp: hexdump_def)
  show "hexrawdump lvl array n s = Some (if lvl = qg_level s then put lvl (map (\<lambda>k. (''%02x'', array ! k)) [0 ..< n]) s else s)"
    using raw_loop_put [of 0 n array lvl s] assms e n by (auto simp: hexrawdump_def)
qed

end
