(* ===== verification/Driver_Pins.thy ===== *)
theory Driver_Pins
  imports Hsspi
begin

text \<open>
  The pins that wake the chip up, and the debouncing of the SS_READY interrupt (\<open>qm35_wakeup\<close> and
  \<open>qm35_ss_rdy_handler\<close> of qm35-spi.c).  The core sees an interrupt as \<open>deliver_irq IRQ_SS_READY\<close>; here the
  handler is whole, with the clock (\<open>ktime_get\<close>, in nanoseconds) given with each interrupt.
\<close>

text \<open>The module parameters, and \<open>CONFIG_QM35_DEBOUNCE_TIME_US\<close> when it is defined.\<close>

record pin_cfg =
  pc_wake_use_csn :: bool
  pc_wake_use_wakeup :: bool
  pc_debounce_us :: "nat option"

record ('l, 'b) pins =
  pn_csn :: bool
  pn_wakeup :: bool
  pn_old_time :: int
  pn_core :: "('l, 'b) hsspi"

definition set_wake_pins :: "pin_cfg \<Rightarrow> bool \<Rightarrow> ('l, 'b) pins \<Rightarrow> ('l, 'b) pins" where
  "set_wake_pins cfg v s =
     (let s = (if pc_wake_use_csn cfg then s\<lparr>pn_csn := v\<rparr> else s)
      in if pc_wake_use_wakeup cfg then s\<lparr>pn_wakeup := v\<rparr> else s)"

definition qm35_wakeup :: "pin_cfg \<Rightarrow> ('l, 'b) pins \<Rightarrow> ('l, 'b) pins" where
  "qm35_wakeup cfg s = set_wake_pins cfg True s"

text \<open>\<open>ktime_after(old_time + period, now)\<close>\<close>

definition bounces :: "pin_cfg \<Rightarrow> int \<Rightarrow> ('l, 'b) pins \<Rightarrow> bool" where
  "bounces cfg now s = (case pc_debounce_us cfg of None \<Rightarrow> False | Some us \<Rightarrow> now < pn_old_time s + int us * 1000)"

definition ss_rdy_interrupt :: "pin_cfg \<Rightarrow> int \<Rightarrow> ('l, 'b) pins \<Rightarrow> ('l, 'b) pins" where
  "ss_rdy_interrupt cfg now s =
     (if bounces cfg now s then s
      else
        let s = (if pc_debounce_us cfg = None then s else s\<lparr>pn_old_time := now\<rparr>);
            s = set_wake_pins cfg False s
        in s\<lparr>pn_core := qm35_ss_rdy_handler (pn_core s)\<rparr>)"

section \<open>Waking up\<close>

lemma set_wake_pins_simps [simp]:
  "pn_core (set_wake_pins cfg v s) = pn_core s" "pn_old_time (set_wake_pins cfg v s) = pn_old_time s"
  "pn_csn (set_wake_pins cfg v s) = (if pc_wake_use_csn cfg then v else pn_csn s)"
  "pn_wakeup (set_wake_pins cfg v s) = (if pc_wake_use_wakeup cfg then v else pn_wakeup s)"
  by (simp_all add: set_wake_pins_def Let_def)

text \<open>A wake-up lasts until an SS_READY interrupt that is not a bounce, which makes the core ready.\<close>

lemma wakeup_until_ready:
  assumes "\<not> bounces cfg now s"
  shows "let s' = ss_rdy_interrupt cfg now (qm35_wakeup cfg s)
    in (pc_wake_use_csn cfg \<longrightarrow> \<not> pn_csn s') \<and> (pc_wake_use_wakeup cfg \<longrightarrow> \<not> pn_wakeup s') \<and>
       hs_ss_ready (pn_core s') \<and> \<not> hs_ss_busy (pn_core s')"
  using assms
  by (simp add: ss_rdy_interrupt_def bounces_def qm35_wakeup_def qm35_ss_rdy_handler_def hsspi_set_spi_slave_ready_def
      hsspi_clear_spi_slave_busy_def Let_def split: option.splits)

section \<open>Debouncing\<close>

text \<open>The times of the interrupts that are handled, of those that occur.\<close>

fun handled_at :: "nat option \<Rightarrow> int \<Rightarrow> int list \<Rightarrow> int list" where
  "handled_at us old [] = []"
| "handled_at us old (t # ts) =
     (case us of
        None \<Rightarrow> t # handled_at us old ts
      | Some d \<Rightarrow> if t < old + int d * 1000 then handled_at us old ts else t # handled_at us t ts)"

fun spaced :: "int \<Rightarrow> int list \<Rightarrow> bool" where
  "spaced d (t # u # ts) \<longleftrightarrow> t + d \<le> u \<and> spaced d (u # ts)"
| "spaced d _ \<longleftrightarrow> True"

lemma handled_spaced: "spaced (int d * 1000) (old # handled_at (Some d) old ts)"
  by (induction ts arbitrary: old) auto

text \<open>Any interrupts act on the core as those handled, delivered in order; these are a debounce period apart.\<close>

lemma interrupts_debounced:
  "pn_core (fold (ss_rdy_interrupt cfg) ts s) =
     deliver_irqs (map (\<lambda>_. IRQ_SS_READY) (handled_at (pc_debounce_us cfg) (pn_old_time s) ts)) (pn_core s)"
proof (induction ts arbitrary: s)
  case (Cons t ts)
  show ?case
    using Cons.IH [of "ss_rdy_interrupt cfg t s"]
    by (auto simp: ss_rdy_interrupt_def bounces_def deliver_irqs_def Let_def split: option.splits)
qed (simp add: deliver_irqs_def)

end
